(* ===== verification/Kernel_Prelude.thy ===== *)
theory Kernel_Prelude
  imports Main "HOL-Library.Word" "HOL-Library.Monad_Syntax"
begin

text \<open>
  Shared vocabulary of the development: the machine integer types of
  \<^verbatim>\<open>inc/typedef.h\<close>, the error numbers of \<^verbatim>\<open>inc/errno.h\<close> that the kernel returns, the
  page arithmetic macros of \<^verbatim>\<open>inc/position.h\<close>, the console log that stands for the
  output of \<^verbatim>\<open>printk\<close>, and the lemmas on bits, words and lists that the component
  theories share. The collections \<open>bit_set_simps\<close> and \<open>page_simps\<close> carry the facts that
  turn the C bit twiddling into statements on single bits and on page numbers.
\<close>

unbundle bit_operations_syntax

named_theorems bit_set_simps \<open>C mask expressions as statements on single bits\<close>
named_theorems page_simps \<open>page arithmetic on 32-bit addresses as arithmetic on naturals\<close>

subsection \<open>Machine integers and error numbers\<close>

type_synonym u8 = "8 word"
type_synonym u16 = "16 word"
type_synonym u32 = "32 word"

definition EPERM :: int where "EPERM = 1"
definition ESRCH :: int where "ESRCH = 3"
definition ECHILD :: int where "ECHILD = 10"
definition EAGAIN :: int where "EAGAIN = 11"
definition ENOMEM :: int where "ENOMEM = 12"
definition EINVAL :: int where "EINVAL = 22"
definition ENOSYS :: int where "ENOSYS = 38"

lemmas errno_defs = EPERM_def ESRCH_def ECHILD_def EAGAIN_def ENOMEM_def EINVAL_def ENOSYS_def

text \<open>The macros \<^verbatim>\<open>PAGE_ALIGN\<close> and \<^verbatim>\<open>ACCESS_BITMAP_BY_ADDR\<close> of \<^verbatim>\<open>inc/position.h\<close>.\<close>

definition PAGE_ALIGN :: "u32 \<Rightarrow> u32" where
  "PAGE_ALIGN p = (if p mod 4096 \<noteq> 0 then p - p mod 4096 + 4096 else p)"

definition ACCESS_BITMAP_BY_ADDR :: "u32 \<Rightarrow> nat" where
  "ACCESS_BITMAP_BY_ADDR x = unat (drop_bit 15 x)"

subsection \<open>The console log\<close>

text \<open>
  The kernel reports through \<^verbatim>\<open>printk\<close>. Components below the terminal keep the messages
  they print, oldest first, in the field \<open>klog\<close>, which every state record extends.
\<close>

record kcon =
  klog :: "string list"

definition printk :: "string \<Rightarrow> 'a kcon_scheme \<Rightarrow> 'a kcon_scheme" where
  "printk msg s = s\<lparr>klog := klog s @ [msg]\<rparr>"

lemma klog_printk [simp]: "klog (printk m s) = klog s @ [m]"
  by (simp add: printk_def)

subsection \<open>Bits\<close>

text \<open>The simplifier turns \<open>push_bit k 1\<close> into \<open>2 ^ k\<close>, so the laws are stated on that form.\<close>

lemma and_exp_0 [bit_set_simps]: "w AND 2 ^ k = 0 \<longleftrightarrow> \<not> bit (w :: 'a :: len word) k"
  using bit_iff_and_push_bit_not_eq_0 [of w k] by auto

lemma bit_and_not_exp [bit_set_simps]:
  "bit (w AND NOT (2 ^ k)) n \<longleftrightarrow> bit (w :: 'a :: len word) n \<and> n \<noteq> k"
  by (auto simp: bit_simps dest: bit_imp_le_length)

lemma bit_or_exp [bit_set_simps]:
  "k < LENGTH('a) \<Longrightarrow> bit (w OR 2 ^ k) n \<longleftrightarrow> bit (w :: 'a :: len word) n \<or> n = k"
  by (auto simp: bit_simps)

lemma bit_minus_1_u8 [bit_set_simps]: "bit (- 1 :: u8) n \<longleftrightarrow> n < 8"
  by (simp add: bit_simps)

subsection \<open>Words as naturals\<close>

lemma unat_drop_bit [page_simps]: "unat (drop_bit n (x :: 'a :: len word)) = unat x div 2 ^ n"
  by (simp only: unat_drop_bit_eq) (simp only: drop_bit_eq_div)

lemma unat_less_32: "unat (x :: u32) < 4294967296"
  using unsigned_less [of x, where 'a = nat] by simp

lemma page_number_less [simp]: "unat (x :: u32) div 4096 < 1048576"
  using unat_less_32 [of x] by (simp add: less_mult_imp_div_less)

lemma ACCESS_BITMAP_BY_ADDR_div [page_simps]: "ACCESS_BITMAP_BY_ADDR x = unat x div 4096 div 8"
  by (simp only: ACCESS_BITMAP_BY_ADDR_def unat_drop_bit div_mult2_eq [symmetric]) simp

lemma unat_Suc_less: "(i :: 'a :: len word) < j \<Longrightarrow> unat (i + 1) = unat i + 1"
proof -
  assume "i < j"
  then have "unat i + 1 \<le> unat j" by (simp add: word_less_nat_alt)
  also have "unat j < 2 ^ LENGTH('a)" by (rule unsigned_less)
  finally show ?thesis by (simp add: unat_word_ariths)
qed

text \<open>A page number below \<open>2 ^ 20\<close> is turned into its address and back without loss.\<close>

lemma unat_of_nat_32: "n < 4294967296 \<Longrightarrow> unat (of_nat n :: u32) = n"
  by (simp add: unat_of_nat)

lemma unat_page_addr: "p < 1048576 \<Longrightarrow> unat (push_bit 12 (of_nat p) :: u32) = p * 4096"
  by (simp add: push_bit_eq_mult unat_word_ariths unat_of_nat)

lemma unat_push_bit_page: "unat i < 1048576 \<Longrightarrow> unat (push_bit 12 i :: u32) = unat i * 4096"
  using unat_page_addr [of "unat i"] by simp

lemma bitmap_index_page: "unat i < 1048576 \<Longrightarrow> ACCESS_BITMAP_BY_ADDR (push_bit 12 i) = unat i div 8"
  by (simp add: ACCESS_BITMAP_BY_ADDR_div unat_push_bit_page)

lemma page_addr_0_iff: "p < 1048576 \<Longrightarrow> (push_bit 12 (of_nat p) :: u32) = 0 \<longleftrightarrow> p = 0"
  using unat_page_addr [of p] by (metis mult_is_0 unat_0 unat_eq_zero zero_neq_numeral)

lemma unat_add_4096:
  "unat x div 4096 + 1 < 1048576 \<Longrightarrow> unat (x + 4096 :: u32) = unat x + 4096"
  by (subst unat_add_lem [THEN iffD1]) simp_all

lemma page_of_add_4096:
  "unat x div 4096 + 1 < 1048576 \<Longrightarrow> unat (x + 4096 :: u32) div 4096 = unat x div 4096 + 1"
  by (simp add: unat_add_4096)

lemma those_not_None: "\<forall>x \<in> set xs. f x \<noteq> None \<Longrightarrow> those (map f xs) \<noteq> None"
  by (induction xs) (auto split: option.split)

end
