(* ===== verification/Bitmap_Scan.thy ===== *)
theory Bitmap_Scan
  imports Kernel_Prelude
begin

text \<open>
  The first-fit search over a byte array used as a bitmap (one bit per page, set when the
  page is free). The same pair of nested loops is written twice in the kernel, in
  \<^verbatim>\<open>get_phys_block\<close> (\<^verbatim>\<open>kernel/mem/phys_mem_management.c\<close>) and in \<^verbatim>\<open>find_free_virt_addr\<close>
  (\<^verbatim>\<open>kernel/mem/heap_setup.c\<close>), with other bounds. The loops are \<open>scan_bits\<close> (the loop over
  \<^verbatim>\<open>j\<close>) and \<open>bitmap_scan\<close> (the loop over \<^verbatim>\<open>i\<close>); \<open>scan_pos\<close> is the flat reference, which
  the loops are shown to compute, and its first-fit specification is proved once here.
  The counters stay below \<open>8 * limit \<le> 2 ^ 20\<close>, so natural numbers stand for \<^verbatim>\<open>size_t\<close>.
\<close>

type_synonym bitmap = "nat \<Rightarrow> u8"

subsection \<open>The loops of the source\<close>

text \<open>
  One byte: \<open>Inl (j, f)\<close> is the early return at bit \<open>j\<close> with \<open>f\<close> following bits,
  \<open>Inr f\<close> the end of the loop with \<open>f\<close> bits carried into the next byte.
\<close>

function scan_bits :: "u8 \<Rightarrow> nat \<Rightarrow> nat \<Rightarrow> nat \<Rightarrow> nat \<times> nat + nat" where
  "scan_bits byte nb j following_bits =
     (if j < 8 then
        (if following_bits = nb then Inl (j, following_bits)
         else scan_bits byte nb (j + 1)
                (if byte AND push_bit j 1 \<noteq> 0 then following_bits + 1 else 0))
      else Inr following_bits)"
  by pat_completeness auto
termination
  by (relation "measure (\<lambda>(byte, nb, j, f). 8 - j)") auto

function bitmap_scan :: "bitmap \<Rightarrow> nat \<Rightarrow> nat \<Rightarrow> nat \<Rightarrow> nat \<Rightarrow> nat option" where
  "bitmap_scan bm limit nb i following_bits =
     (if i < limit then
        (case scan_bits (bm i) nb 0 following_bits of
           Inl (j, f) \<Rightarrow> Some (i * 8 + j - f)
         | Inr f \<Rightarrow> bitmap_scan bm limit nb (i + 1) f)
      else None)"
  by pat_completeness auto
termination
  by (relation "measure (\<lambda>(bm, limit, nb, i, f). limit - i)") auto

declare scan_bits.simps [simp del] bitmap_scan.simps [simp del]

subsection \<open>The flat reference\<close>

definition page_bit :: "bitmap \<Rightarrow> nat \<Rightarrow> bool" where
  "page_bit bm p \<longleftrightarrow> bit (bm (p div 8)) (p mod 8)"

function scan_pos :: "(nat \<Rightarrow> bool) \<Rightarrow> nat \<Rightarrow> nat \<Rightarrow> nat \<Rightarrow> nat \<Rightarrow> nat option" where
  "scan_pos P limit nb p f =
     (if p < limit then
        (if f = nb then Some (p - f) else scan_pos P limit nb (p + 1) (if P p then f + 1 else 0))
      else None)"
  by pat_completeness auto
termination
  by (relation "measure (\<lambda>(P, limit, nb, p, f). limit - p)") auto

declare scan_pos.simps [simp del]

lemma scan_bits_pos:
  assumes "i < limit" "j \<le> 8"
  shows "scan_pos (page_bit bm) (8 * limit) nb (8 * i + j) f =
         (case scan_bits (bm i) nb j f of
            Inl (j', f') \<Rightarrow> Some (8 * i + j' - f')
          | Inr f' \<Rightarrow> scan_pos (page_bit bm) (8 * limit) nb (8 * (i + 1)) f')"
  using assms
proof (induction "bm i" nb j f rule: scan_bits.induct)
  case (1 nb j f)
  show ?case
  proof (cases "j < 8")
    case False
    with "1.prems" have "j = 8" by simp
    then show ?thesis by (simp add: scan_bits.simps [of _ _ 8] add.commute)
  next
    case True
    with "1.prems" have p: "8 * i + j < 8 * limit" by simp
    have b: "page_bit bm (8 * i + j) \<longleftrightarrow> bm i AND push_bit j 1 \<noteq> 0"
      using True by (simp add: page_bit_def bit_set_simps)
    show ?thesis
    proof (cases "f = nb")
      case True
      with \<open>j < 8\<close> p show ?thesis
        by (simp add: scan_bits.simps [of _ _ j] scan_pos.simps [of _ _ _ "8 * i + j"])
    next
      case False
      with True "1.hyps" "1.prems" p b show ?thesis
        by (simp add: scan_bits.simps [of _ _ j] scan_pos.simps [of _ _ _ "8 * i + j"])
    qed
  qed
qed

lemma bitmap_scan_eq_scan_pos:
  "bitmap_scan bm limit nb i f = scan_pos (page_bit bm) (8 * limit) nb (8 * i) f"
proof (induction bm limit nb i f rule: bitmap_scan.induct)
  case (1 bm limit nb i f)
  show ?case
  proof (cases "i < limit")
    case True
    show ?thesis
      using scan_bits_pos [OF True, of 0 bm nb f] "1.IH" [OF True] True
      by (simp add: bitmap_scan.simps [of _ _ _ i] mult.commute split: sum.splits)
  next
    case False
    then show ?thesis by (simp add: bitmap_scan.simps [of _ _ _ i] scan_pos.simps)
  qed
qed

subsection \<open>First fit\<close>

definition free_run :: "(nat \<Rightarrow> bool) \<Rightarrow> nat \<Rightarrow> nat \<Rightarrow> bool" where
  "free_run P q nb \<longleftrightarrow> (\<forall>k < nb. P (q + k))"

lemma free_run_Suc: "free_run P q (Suc n) \<longleftrightarrow> P q \<and> free_run P (q + 1) n"
  by (auto simp: free_run_def less_Suc_eq_0_disj)

lemma free_run_iff: "free_run P q n \<longleftrightarrow> (\<forall>p \<in> {q..<q + n}. P p)"
proof
  assume *: "free_run P q n"
  have "P p" if "p \<in> {q..<q + n}" for p
    using * that by (auto simp: free_run_def dest: spec [of _ "p - q"])
  then show "\<forall>p \<in> {q..<q + n}. P p" by blast
qed (simp add: free_run_def)

text \<open>
  The loop invariant: \<open>f\<close> is the length of the longest run of set bits that ends just
  before \<open>p\<close> and starts at or after \<open>start\<close>, and no run of \<open>nb\<close> ends before \<open>p\<close>.
\<close>

definition scan_inv :: "(nat \<Rightarrow> bool) \<Rightarrow> nat \<Rightarrow> nat \<Rightarrow> nat \<Rightarrow> nat \<Rightarrow> bool" where
  "scan_inv P start nb p f \<longleftrightarrow>
     start + f \<le> p \<and> f \<le> nb \<and> free_run P (p - f) f \<and>
     (start + f < p \<longrightarrow> \<not> P (p - f - 1)) \<and>
     (\<forall>q \<ge> start. q + nb < p \<longrightarrow> \<not> free_run P q nb)"

lemma scan_inv_start: "scan_inv P start nb start 0"
  by (simp add: scan_inv_def free_run_def)

lemma scan_inv_no_run:
  assumes "scan_inv P start nb p f" "f \<noteq> nb" "start \<le> q" "q + nb \<le> p"
  shows "\<not> free_run P q nb"
proof (cases "q + nb = p")
  case True
  with assms have "q \<le> p - f - 1" "p - f - 1 < q + nb" "start + f < p"
    by (auto simp: scan_inv_def)
  with assms(1) show ?thesis
    by (auto simp: scan_inv_def free_run_def intro!: exI [of _ "p - f - 1 - q"])
next
  case False
  with assms show ?thesis by (auto simp: scan_inv_def)
qed

lemma scan_inv_step:
  assumes inv: "scan_inv P start nb p f" and "f \<noteq> nb"
  shows "scan_inv P start nb (p + 1) (if P p then f + 1 else 0)"
proof -
  have none: "\<forall>q \<ge> start. q + nb < p + 1 \<longrightarrow> \<not> free_run P q nb"
    using scan_inv_no_run [OF assms] by auto
  show ?thesis
  proof (cases "P p")
    case True
    have "free_run P (p - f) (f + 1)"
      using True inv by (auto simp: scan_inv_def free_run_def less_Suc_eq)
    with True none inv \<open>f \<noteq> nb\<close> show ?thesis by (auto simp: scan_inv_def)
  next
    case False
    with none inv show ?thesis by (auto simp: scan_inv_def free_run_def)
  qed
qed

lemma scan_pos_first_fit:
  assumes "scan_inv P start nb p f" "p \<le> limit"
  shows "case scan_pos P limit nb p f of
           Some q \<Rightarrow> start \<le> q \<and> q + nb < limit \<and> free_run P q nb \<and>
                     (\<forall>q'. start \<le> q' \<and> q' < q \<longrightarrow> \<not> free_run P q' nb)
         | None \<Rightarrow> \<forall>q. start \<le> q \<and> q + nb < limit \<longrightarrow> \<not> free_run P q nb"
  using assms
proof (induction P limit nb p f rule: scan_pos.induct)
  case (1 P limit nb p f)
  consider (stop) "\<not> p < limit" | (found) "p < limit" "f = nb" | (step) "p < limit" "f \<noteq> nb"
    by blast
  then show ?case
  proof cases
    case stop
    then have "scan_pos P limit nb p f = None" by (simp add: scan_pos.simps)
    with stop "1.prems" show ?thesis by (auto simp: scan_inv_def)
  next
    case found
    have "start \<le> q' \<Longrightarrow> q' < p - nb \<Longrightarrow> \<not> free_run P q' nb" for q'
      using "1.prems" found by (auto simp: scan_inv_def)
    with "1.prems" found show ?thesis
      by (auto simp: scan_pos.simps [of _ _ _ p] scan_inv_def)
  next
    case step
    with "1.IH" "1.prems" scan_inv_step [of P start nb p f] show ?thesis
      by (simp add: scan_pos.simps [of _ _ _ p])
  qed
qed

lemma bitmap_scan_Some:
  assumes "bitmap_scan bm limit nb i 0 = Some q" "i \<le> limit"
  shows "8 * i \<le> q" "q + nb < 8 * limit" "free_run (page_bit bm) q nb"
    "\<And>q'. 8 * i \<le> q' \<Longrightarrow> q' < q \<Longrightarrow> \<not> free_run (page_bit bm) q' nb"
  using scan_pos_first_fit [OF scan_inv_start [of "page_bit bm" "8 * i" nb], of "8 * limit"] assms
  by (auto simp: bitmap_scan_eq_scan_pos)

lemma bitmap_scan_None:
  assumes "bitmap_scan bm limit nb i 0 = None" "i \<le> limit" "8 * i \<le> q" "q + nb < 8 * limit"
  shows "\<not> free_run (page_bit bm) q nb"
  using scan_pos_first_fit [OF scan_inv_start [of "page_bit bm" "8 * i" nb], of "8 * limit"] assms
  by (auto simp: bitmap_scan_eq_scan_pos)

text \<open>A search from a position whose next \<open>nb\<close> bits are set succeeds there at once.\<close>

lemma bitmap_scan_here:
  assumes "free_run (page_bit bm) (8 * i) nb" "8 * i + nb < 8 * limit"
  shows "bitmap_scan bm limit nb i 0 = Some (8 * i)"
proof (cases "bitmap_scan bm limit nb i 0")
  case None
  with assms bitmap_scan_None [OF None, of "8 * i"] show ?thesis by simp
next
  case (Some q)
  with assms bitmap_scan_Some [OF Some] show ?thesis by (cases "q = 8 * i") auto
qed

end
