(* ===== verification/Block_Allocator.thy ===== *)
theory Block_Allocator
  imports Kernel_Prelude
begin

text \<open>
  The contract of a page block allocator, as its clients rely on it: an allocation either
  fails and changes nothing, or hands out consecutive pages that were free and are free no
  more; a release gives them back. The kernel has two providers, the physical pages
  (\<^verbatim>\<open>get_phys_block\<close>, \<^verbatim>\<open>free_phys_block\<close>) and the pages of the heap's address range
  (\<^verbatim>\<open>find_free_virt_addr\<close>, \<^verbatim>\<open>free_virt_block\<close>); each interprets the locale in its theory.
  The client lemma is proved once: whatever the order of requests, live blocks never
  overlap and no page is lost.
\<close>

datatype block_op = Get nat | Put nat

text \<open>
  A client keeps the blocks it holds: \<open>Get n\<close> asks for \<open>n\<close> pages, \<open>Put k\<close> releases the
  \<open>k\<close>-th block held.
\<close>

fun client_step ::
  "(nat \<Rightarrow> 's \<Rightarrow> u32 \<times> 's) \<Rightarrow> (u32 \<Rightarrow> nat \<Rightarrow> 's \<Rightarrow> 's) \<Rightarrow> block_op \<Rightarrow>
   's \<times> (u32 \<times> nat) list \<Rightarrow> 's \<times> (u32 \<times> nat) list" where
  "client_step alloc release (Get n) (s, live) =
     (case alloc n s of (a, s') \<Rightarrow> if a = 0 then (s', live) else (s', (a, n) # live))"
| "client_step alloc release (Put k) (s, live) =
     (if k < length live
      then (release (fst (live ! k)) (snd (live ! k)) s, take k live @ drop (Suc k) live)
      else (s, live))"

definition client_run ::
  "(nat \<Rightarrow> 's \<Rightarrow> u32 \<times> 's) \<Rightarrow> (u32 \<Rightarrow> nat \<Rightarrow> 's \<Rightarrow> 's) \<Rightarrow> block_op list \<Rightarrow>
   's \<times> (u32 \<times> nat) list \<Rightarrow> 's \<times> (u32 \<times> nat) list" where
  "client_run alloc release = fold (client_step alloc release)"

definition block_pages :: "(u32 \<Rightarrow> nat) \<Rightarrow> u32 \<times> nat \<Rightarrow> nat set" where
  "block_pages page_of b = {page_of (fst b)..<page_of (fst b) + snd b}"

definition blocks_disjoint :: "(u32 \<Rightarrow> nat) \<Rightarrow> (u32 \<times> nat) list \<Rightarrow> bool" where
  "blocks_disjoint page_of =
     sorted_wrt (\<lambda>b c. block_pages page_of b \<inter> block_pages page_of c = {})"

locale block_allocator =
  fixes alloc :: "nat \<Rightarrow> 's \<Rightarrow> u32 \<times> 's"
    and release :: "u32 \<Rightarrow> nat \<Rightarrow> 's \<Rightarrow> 's"
    and page_of :: "u32 \<Rightarrow> nat"
    and free_set :: "'s \<Rightarrow> nat set"
    and capacity :: nat
    and invar :: "'s \<Rightarrow> bool"
  assumes alloc_takes: "invar s \<Longrightarrow> alloc n s = (a, s') \<Longrightarrow> a \<noteq> 0 \<Longrightarrow>
      {page_of a..<page_of a + n} \<subseteq> free_set s \<and>
      free_set s' = free_set s - {page_of a..<page_of a + n} \<and> page_of a + n \<le> capacity"
    and alloc_fails: "invar s \<Longrightarrow> alloc n s = (0, s') \<Longrightarrow> s' = s"
    and release_gives: "invar s \<Longrightarrow> page_of a + n \<le> capacity \<Longrightarrow>
      free_set (release a n s) = free_set s \<union> {page_of a..<page_of a + n}"
    and alloc_invar: "invar s \<Longrightarrow> alloc n s = (a, s') \<Longrightarrow> invar s'"
    and release_invar: "invar s \<Longrightarrow> page_of a + n \<le> capacity \<Longrightarrow> invar (release a n s)"
begin

definition client_ok :: "nat set \<Rightarrow> 's \<times> (u32 \<times> nat) list \<Rightarrow> bool" where
  "client_ok pool c \<longleftrightarrow>
     invar (fst c) \<and> blocks_disjoint page_of (snd c) \<and>
     (\<forall>b \<in> set (snd c). block_pages page_of b \<inter> free_set (fst c) = {} \<and>
                        page_of (fst b) + snd b \<le> capacity) \<and>
     free_set (fst c) \<union> \<Union> (block_pages page_of ` set (snd c)) = pool"

lemma client_ok_get:
  assumes ok: "client_ok pool (s, live)" and al: "alloc n s = (a, s')" and "a \<noteq> 0"
  shows "client_ok pool (s', (a, n) # live)"
proof -
  have inv: "invar s" using ok by (simp add: client_ok_def)
  note t = alloc_takes [OF inv al \<open>a \<noteq> 0\<close>]
  have new: "block_pages page_of (a, n) \<subseteq> free_set s"
    using t by (simp add: block_pages_def)
  have fr: "free_set s' = free_set s - block_pages page_of (a, n)"
    using t by (simp add: block_pages_def)
  have "\<forall>b \<in> set live. block_pages page_of b \<inter> free_set s = {}"
    using ok by (simp add: client_ok_def)
  with new have "\<forall>b \<in> set live. block_pages page_of (a, n) \<inter> block_pages page_of b = {}"
    by blast
  with ok fr new t alloc_invar [OF inv al] show ?thesis
    by (auto simp: client_ok_def blocks_disjoint_def)
qed

lemma client_ok_put:
  assumes ok: "client_ok pool (s, us @ b # vs)"
  shows "client_ok pool (release (fst b) (snd b) s, us @ vs)"
proof -
  have inv: "invar s" and bd: "page_of (fst b) + snd b \<le> capacity"
    using ok by (auto simp: client_ok_def)
  have fr: "free_set (release (fst b) (snd b) s) = free_set s \<union> block_pages page_of b"
    using release_gives [OF inv bd] by (simp add: block_pages_def)
  have "block_pages page_of c \<inter> block_pages page_of b = {}" if "c \<in> set (us @ vs)" for c
    using ok that by (auto simp: client_ok_def blocks_disjoint_def sorted_wrt_append)
  with ok fr release_invar [OF inv bd] show ?thesis
    by (auto simp: client_ok_def blocks_disjoint_def sorted_wrt_append)
qed

lemma client_ok_step:
  assumes ok: "client_ok pool (s, live)"
  shows "client_ok pool (client_step alloc release e (s, live))"
proof (cases e)
  case (Get n)
  obtain a s' where al: "alloc n s = (a, s')" by fastforce
  show ?thesis
  proof (cases "a = 0")
    case True
    with al ok alloc_fails [of s n s'] show ?thesis by (simp add: Get client_ok_def)
  next
    case False
    with al client_ok_get [OF ok al] show ?thesis by (simp add: Get)
  qed
next
  case (Put k)
  show ?thesis
  proof (cases "k < length live")
    case True
    then have "live = take k live @ live ! k # drop (Suc k) live" by (rule id_take_nth_drop)
    with ok have "client_ok pool (s, take k live @ live ! k # drop (Suc k) live)" by simp
    from client_ok_put [OF this] True show ?thesis by (simp add: Put)
  next
    case False
    with ok show ?thesis by (simp add: Put)
  qed
qed

theorem client_run_ok:
  "client_ok pool c \<Longrightarrow> client_ok pool (client_run alloc release es c)"
  unfolding client_run_def
proof (induction es arbitrary: c)
  case (Cons e es)
  with client_ok_step [of pool "fst c" "snd c" e] show ?case by simp
qed simp

lemma client_ok_start: "invar s \<Longrightarrow> client_ok (free_set s) (s, [])"
  by (simp add: client_ok_def blocks_disjoint_def)

text \<open>
  The contract's use: from a state with nothing handed out, after any sequence of requests
  the blocks held are pairwise disjoint, and the free pages and the pages held are
  together exactly the pages that were free at the start.
\<close>

theorem client_run_disjoint:
  assumes "invar s" "client_run alloc release es (s, []) = (s', live)"
  shows "blocks_disjoint page_of live \<and>
         free_set s' \<union> \<Union> (block_pages page_of ` set live) = free_set s \<and>
         (\<forall>b \<in> set live. block_pages page_of b \<inter> free_set s' = {})"
  using client_run_ok [OF client_ok_start [OF assms(1)], of es] assms(2)
  by (simp add: client_ok_def)

end

end
