(* ===== verification/Phys_Mem.thy ===== *)
theory Phys_Mem
  imports Bitmap_Scan Block_Allocator
begin

text \<open>
  The physical page allocator (\<^verbatim>\<open>kernel/mem/phys_mem_management.c\<close>) over the global
  \<^verbatim>\<open>mm_bitmap\<close>, and the boot code that fills the bitmap (\<^verbatim>\<open>kernel/mem/memory_init.c\<close>).
  A set bit is a free page. The abstraction is the set \<open>free_pages\<close> of page numbers; the
  theorems say which set each operation computes, and the allocator interprets
  \<open>block_allocator\<close>.
\<close>

record phys_st = kcon +
  mm_bitmap :: bitmap

definition MAX_RAM_PAGE :: nat where "MAX_RAM_PAGE = 0x100000"
definition LOW_MEMORY_SIZE :: nat where "LOW_MEMORY_SIZE = 0x9FC00"

subsection \<open>Allocation and release\<close>

fun alloc_phys_block :: "u32 \<Rightarrow> nat \<Rightarrow> 'a phys_st_scheme \<Rightarrow> 'a phys_st_scheme" where
  "alloc_phys_block start_phys_addr 0 s = s"
| "alloc_phys_block start_phys_addr (Suc n) s =
     (let i = ACCESS_BITMAP_BY_ADDR start_phys_addr;
          m = push_bit (unat (drop_bit 12 start_phys_addr) mod 8) 1;
          s1 = (if mm_bitmap s i AND m = 0
                then printk ''try to alloc already allocateed block'' s else s);
          s2 = s1\<lparr>mm_bitmap := (mm_bitmap s1)(i := mm_bitmap s1 i AND NOT m)\<rparr>
      in alloc_phys_block (start_phys_addr + 4096) n s2)"

fun free_phys_block :: "u32 \<Rightarrow> nat \<Rightarrow> 'a phys_st_scheme \<Rightarrow> 'a phys_st_scheme" where
  "free_phys_block start_phys_addr 0 s = s"
| "free_phys_block start_phys_addr (Suc n) s =
     (let i = ACCESS_BITMAP_BY_ADDR start_phys_addr;
          m = push_bit (unat (drop_bit 12 start_phys_addr) mod 8) 1
      in if i \<ge> MAX_RAM_PAGE div 8
         then printk ''try to free unvalaible physical block'' s
         else let s1 = (if mm_bitmap s i AND m \<noteq> 0
                        then printk ''try to free already freed block'' s else s);
                  s2 = s1\<lparr>mm_bitmap := (mm_bitmap s1)(i := mm_bitmap s1 i OR m)\<rparr>
              in free_phys_block (start_phys_addr + 4096) n s2)"

definition get_phys_block :: "nat \<Rightarrow> 'a phys_st_scheme \<Rightarrow> u32 \<times> 'a phys_st_scheme" where
  "get_phys_block nb_pages s =
     (case bitmap_scan (mm_bitmap s) (MAX_RAM_PAGE div 8) nb_pages (LOW_MEMORY_SIZE div 4096) 0 of
        None \<Rightarrow> (0, s)
      | Some page \<Rightarrow>
          let addr = push_bit 12 (of_nat page) in (addr, alloc_phys_block addr nb_pages s))"

subsection \<open>The free pages\<close>

abbreviation page_of_addr :: "u32 \<Rightarrow> nat" where
  "page_of_addr a \<equiv> unat a div 4096"

definition free_pages :: "'a phys_st_scheme \<Rightarrow> nat set" where
  "free_pages s = {p. p < 1048576 \<and> page_bit (mm_bitmap s) p}"

lemma free_pages_UnI:
  assumes "\<And>q. page_bit (mm_bitmap s') q \<longleftrightarrow> page_bit (mm_bitmap s) q \<or> q \<in> A" "A \<subseteq> {..<1048576}"
  shows "free_pages s' = free_pages s \<union> A"
  using assms by (auto simp: free_pages_def)

lemma page_bit_clear:
  "page_bit (bm(p div 8 := bm (p div 8) AND NOT (2 ^ (p mod 8)))) q \<longleftrightarrow> page_bit bm q \<and> q \<noteq> p"
  by (auto simp: page_bit_def bit_set_simps dest: mod_div_decomp) (metis div_mult_mod_eq)

lemma page_bit_set:
  "page_bit (bm(p div 8 := bm (p div 8) OR 2 ^ (p mod 8))) q \<longleftrightarrow> page_bit bm q \<or> q = p"
  by (auto simp: page_bit_def bit_set_simps) (metis div_mult_mod_eq)

lemma bitmap_index_in_range [simp]: "ACCESS_BITMAP_BY_ADDR a < MAX_RAM_PAGE div 8"
  using page_number_less [of a]
  by (simp add: ACCESS_BITMAP_BY_ADDR_div MAX_RAM_PAGE_def less_mult_imp_div_less)

lemma mm_bitmap_printk [simp]: "mm_bitmap (printk m s) = mm_bitmap s"
  by (simp add: printk_def)

text \<open>One iteration of each loop, as the page it touches.\<close>

definition clear_page :: "nat \<Rightarrow> 'a phys_st_scheme \<Rightarrow> 'a phys_st_scheme" where
  "clear_page p s =
     (if page_bit (mm_bitmap s) p then s
      else printk ''try to alloc already allocateed block'' s)
     \<lparr>mm_bitmap := (mm_bitmap s)(p div 8 := mm_bitmap s (p div 8) AND NOT (2 ^ (p mod 8)))\<rparr>"

definition set_page :: "nat \<Rightarrow> 'a phys_st_scheme \<Rightarrow> 'a phys_st_scheme" where
  "set_page p s =
     (if page_bit (mm_bitmap s) p then printk ''try to free already freed block'' s else s)
     \<lparr>mm_bitmap := (mm_bitmap s)(p div 8 := mm_bitmap s (p div 8) OR 2 ^ (p mod 8))\<rparr>"

lemma alloc_phys_block_Suc:
  "alloc_phys_block a (Suc n) s = alloc_phys_block (a + 4096) n (clear_page (page_of_addr a) s)"
  by (simp add: Let_def clear_page_def page_simps page_bit_def and_exp_0)

lemma free_phys_block_Suc:
  "free_phys_block a (Suc n) s = free_phys_block (a + 4096) n (set_page (page_of_addr a) s)"
  using bitmap_index_in_range [of a]
  by (simp add: Let_def set_page_def page_simps page_bit_def and_exp_0)

lemma page_bit_clear_page [simp]:
  "page_bit (mm_bitmap (clear_page p s)) q \<longleftrightarrow> page_bit (mm_bitmap s) q \<and> q \<noteq> p"
  by (simp add: clear_page_def page_bit_clear)

lemma page_bit_set_page [simp]:
  "page_bit (mm_bitmap (set_page p s)) q \<longleftrightarrow> page_bit (mm_bitmap s) q \<or> q = p"
  by (simp add: set_page_def page_bit_set)

lemma klog_clear_page [simp]:
  "page_bit (mm_bitmap s) p \<Longrightarrow> klog (clear_page p s) = klog s"
  by (simp add: clear_page_def)

lemma klog_set_page [simp]:
  "\<not> page_bit (mm_bitmap s) p \<Longrightarrow> klog (set_page p s) = klog s"
  by (simp add: set_page_def)

declare alloc_phys_block.simps(2) [simp del] free_phys_block.simps(2) [simp del]

text \<open>Both loops change the bitmap and the console log only.\<close>

lemma alloc_phys_block_frame:
  "\<exists>l b. alloc_phys_block a n s = s\<lparr>klog := l, mm_bitmap := b\<rparr>"
proof (induction n arbitrary: a s)
  case 0
  show ?case by (rule exI [of _ "klog s"], rule exI [of _ "mm_bitmap s"]) simp
next
  case (Suc n)
  then obtain l b where
    "alloc_phys_block a (Suc n) s = (clear_page (page_of_addr a) s)\<lparr>klog := l, mm_bitmap := b\<rparr>"
    by (metis alloc_phys_block_Suc)
  then show ?case by (auto simp: clear_page_def printk_def)
qed

lemma free_phys_block_frame:
  "\<exists>l b. free_phys_block a n s = s\<lparr>klog := l, mm_bitmap := b\<rparr>"
proof (induction n arbitrary: a s)
  case 0
  show ?case by (rule exI [of _ "klog s"], rule exI [of _ "mm_bitmap s"]) simp
next
  case (Suc n)
  then obtain l b where
    "free_phys_block a (Suc n) s = (set_page (page_of_addr a) s)\<lparr>klog := l, mm_bitmap := b\<rparr>"
    by (metis free_phys_block_Suc)
  then show ?case by (auto simp: set_page_def printk_def)
qed

text \<open>Consecutive pages: the address after a page that is not the last is the next page's.\<close>

lemma page_step:
  "page_of_addr a + Suc n \<le> 1048576 \<Longrightarrow> n \<noteq> 0 \<Longrightarrow> page_of_addr (a + 4096) = page_of_addr a + 1"
  by (rule page_of_add_4096) simp

lemma page_bit_alloc_phys_block:
  assumes "page_of_addr a + n \<le> 1048576"
  shows "page_bit (mm_bitmap (alloc_phys_block a n s)) q \<longleftrightarrow>
         page_bit (mm_bitmap s) q \<and> q \<notin> {page_of_addr a..<page_of_addr a + n}"
  using assms
proof (induction n arbitrary: a s)
  case (Suc n)
  then show ?case
    by (cases "n = 0") (auto simp: alloc_phys_block_Suc page_step)
qed simp

lemma page_bit_free_phys_block:
  assumes "page_of_addr a + n \<le> 1048576"
  shows "page_bit (mm_bitmap (free_phys_block a n s)) q \<longleftrightarrow>
         page_bit (mm_bitmap s) q \<or> q \<in> {page_of_addr a..<page_of_addr a + n}"
  using assms
proof (induction n arbitrary: a s)
  case (Suc n)
  then show ?case
    by (cases "n = 0") (auto simp: free_phys_block_Suc page_step)
qed simp

lemma klog_alloc_phys_block:
  assumes "page_of_addr a + n \<le> 1048576" "free_run (page_bit (mm_bitmap s)) (page_of_addr a) n"
  shows "klog (alloc_phys_block a n s) = klog s"
  using assms
proof (induction n arbitrary: a s)
  case (Suc n)
  have 1: "page_bit (mm_bitmap s) (page_of_addr a)"
    and 2: "free_run (page_bit (mm_bitmap s)) (page_of_addr a + 1) n"
    using Suc.prems(2) by (simp_all add: free_run_Suc)
  show ?case
  proof (cases "n = 0")
    case True
    with 1 show ?thesis by (simp add: alloc_phys_block_Suc)
  next
    case False
    note nxt = page_step [OF Suc.prems(1) False]
    have "klog (alloc_phys_block (a + 4096) n (clear_page (page_of_addr a) s)) =
          klog (clear_page (page_of_addr a) s)"
    proof (rule Suc.IH)
      show "page_of_addr (a + 4096) + n \<le> 1048576" using Suc.prems(1) by (simp add: nxt)
      show "free_run (page_bit (mm_bitmap (clear_page (page_of_addr a) s))) (page_of_addr (a + 4096)) n"
        using 2 by (auto simp: free_run_iff nxt)
    qed
    with 1 show ?thesis by (simp add: alloc_phys_block_Suc)
  qed
qed simp

subsection \<open>The allocator computes on the set of free pages\<close>

lemma get_phys_block_Some:
  assumes "get_phys_block n s = (a, s')" "a \<noteq> 0"
  shows "1272 \<le> page_of_addr a" "page_of_addr a + n < 1048576" "unat a mod 4096 = 0"
    "free_run (page_bit (mm_bitmap s)) (page_of_addr a) n"
    "s' = alloc_phys_block a n s"
    "\<And>q. 1272 \<le> q \<Longrightarrow> q < page_of_addr a \<Longrightarrow> \<not> free_run (page_bit (mm_bitmap s)) q n"
proof -
  from assms obtain p where
    p: "bitmap_scan (mm_bitmap s) (MAX_RAM_PAGE div 8) n (LOW_MEMORY_SIZE div 4096) 0 = Some p"
    and a: "a = push_bit 12 (of_nat p)" and s': "s' = alloc_phys_block a n s"
    by (auto simp: get_phys_block_def Let_def split: option.splits)
  note sc = bitmap_scan_Some [OF p, unfolded MAX_RAM_PAGE_def LOW_MEMORY_SIZE_def, simplified]
  have u: "unat a = p * 4096" using sc(2) by (simp add: a unat_page_addr)
  then have pa: "page_of_addr a = p" by simp
  show "1272 \<le> page_of_addr a" "page_of_addr a + n < 1048576" "unat a mod 4096 = 0"
    "free_run (page_bit (mm_bitmap s)) (page_of_addr a) n" "s' = alloc_phys_block a n s"
    "\<And>q. 1272 \<le> q \<Longrightarrow> q < page_of_addr a \<Longrightarrow> \<not> free_run (page_bit (mm_bitmap s)) q n"
    using sc s' u by (auto simp: pa)
qed

lemma get_phys_block_NULL:
  assumes "get_phys_block n s = (0, s')"
  shows "s' = s"
    "\<And>q. 1272 \<le> q \<Longrightarrow> q + n < 1048576 \<Longrightarrow> \<not> free_run (page_bit (mm_bitmap s)) q n"
proof -
  have none: "bitmap_scan (mm_bitmap s) (MAX_RAM_PAGE div 8) n (LOW_MEMORY_SIZE div 4096) 0 = None"
  proof (rule ccontr)
    assume "bitmap_scan (mm_bitmap s) (MAX_RAM_PAGE div 8) n (LOW_MEMORY_SIZE div 4096) 0 \<noteq> None"
    then obtain p where
      p: "bitmap_scan (mm_bitmap s) (MAX_RAM_PAGE div 8) n (LOW_MEMORY_SIZE div 4096) 0 = Some p"
      by blast
    with bitmap_scan_Some(1,2) [OF p] assms page_addr_0_iff [of p] show False
      by (simp add: get_phys_block_def Let_def MAX_RAM_PAGE_def LOW_MEMORY_SIZE_def)
  qed
  with assms show "s' = s" by (simp add: get_phys_block_def)
  show "\<And>q. 1272 \<le> q \<Longrightarrow> q + n < 1048576 \<Longrightarrow> \<not> free_run (page_bit (mm_bitmap s)) q n"
    using bitmap_scan_None [OF none] by (simp add: MAX_RAM_PAGE_def LOW_MEMORY_SIZE_def)
qed

lemma free_pages_alloc:
  "page_of_addr a + n \<le> 1048576 \<Longrightarrow>
   free_pages (alloc_phys_block a n s) = free_pages s - {page_of_addr a..<page_of_addr a + n}"
  by (auto simp: free_pages_def page_bit_alloc_phys_block)

lemma free_pages_free:
  "page_of_addr a + n \<le> 1048576 \<Longrightarrow>
   free_pages (free_phys_block a n s) = free_pages s \<union> {page_of_addr a..<page_of_addr a + n}"
  by (auto simp: free_pages_def page_bit_free_phys_block)

interpretation phys: block_allocator get_phys_block free_phys_block page_of_addr free_pages
  1048576 "\<lambda>s. True"
proof unfold_locales
  fix n a and s s' :: "'a phys_st_scheme"
  assume *: "get_phys_block n s = (a, s')" "a \<noteq> 0"
  note g = get_phys_block_Some [OF *]
  show "{page_of_addr a..<page_of_addr a + n} \<subseteq> free_pages s \<and>
      free_pages s' = free_pages s - {page_of_addr a..<page_of_addr a + n} \<and>
      page_of_addr a + n \<le> 1048576"
  proof (intro conjI)
    show "{page_of_addr a..<page_of_addr a + n} \<subseteq> free_pages s"
      using g(2,4) by (auto simp: free_pages_def free_run_iff)
  qed (use g in \<open>simp_all add: free_pages_alloc\<close>)
qed (auto simp: free_pages_free dest: get_phys_block_NULL)

subsection \<open>Properties\<close>

lemma subset_free_pages_iff:
  "q + n \<le> 1048576 \<Longrightarrow> {q..<q + n} \<subseteq> free_pages s \<longleftrightarrow> free_run (page_bit (mm_bitmap s)) q n"
  by (auto simp: free_pages_def free_run_iff)

text \<open>
  C1. \<^verbatim>\<open>get_phys_block\<close> is first fit over the pages from 0x4F8000 on: a non-null result is the
  address of the lowest run of \<open>n\<close> free pages that ends before the last page of memory; those pages,
  and no others, become used, and no warning is printed. A null result changes nothing
  and means there is no such run.
\<close>

theorem get_phys_block_first_fit:
  assumes "get_phys_block n s = (a, s')"
  shows "if a = 0
    then s' = s \<and> (\<forall>q \<ge> 1272. q + n < 1048576 \<longrightarrow> \<not> {q..<q + n} \<subseteq> free_pages s)
    else unat a mod 4096 = 0 \<and> 1272 \<le> page_of_addr a \<and> page_of_addr a + n < 1048576 \<and>
      {page_of_addr a..<page_of_addr a + n} \<subseteq> free_pages s \<and>
      free_pages s' = free_pages s - {page_of_addr a..<page_of_addr a + n} \<and>
      klog s' = klog s \<and>
      (\<forall>q. 1272 \<le> q \<and> q < page_of_addr a \<longrightarrow> \<not> {q..<q + n} \<subseteq> free_pages s)"
proof (cases "a = 0")
  case True
  with assms get_phys_block_NULL [of n s s'] show ?thesis
    by (simp add: subset_free_pages_iff)
next
  case False
  note g = get_phys_block_Some [OF assms False]
  from g have le: "page_of_addr a + n \<le> 1048576" by simp
  show ?thesis
    using False g(1,2,3,4,6) klog_alloc_phys_block [OF le g(4)] phys.alloc_takes [OF _ assms False]
    by (simp add: g(5) subset_free_pages_iff)
qed

definition demo_phys :: phys_st where
  "demo_phys = \<lparr>klog = [], mm_bitmap = (\<lambda>_. - 1)\<rparr>"

lemma demo_phys_get: "n < 8 \<Longrightarrow> get_phys_block n demo_phys = (0x4F8000, alloc_phys_block 0x4F8000 n demo_phys)"
proof -
  assume "n < 8"
  then have "free_run (page_bit (mm_bitmap demo_phys)) (8 * 159) n"
    by (simp add: free_run_def page_bit_def demo_phys_def bit_set_simps)
  from bitmap_scan_here [OF this, of 131072] \<open>n < 8\<close> show ?thesis
    by (simp add: get_phys_block_def MAX_RAM_PAGE_def LOW_MEMORY_SIZE_def Let_def)
qed

theorem get_phys_block_first_fit_witness:
  "fst (get_phys_block 3 demo_phys) = 0x4F8000 \<and>
   free_pages (snd (get_phys_block 3 demo_phys)) = free_pages demo_phys - {1272..<1275}"
  using get_phys_block_first_fit [OF demo_phys_get [of 3]] by (simp add: demo_phys_get)

text \<open>
  Releasing a block that was just allocated restores exactly the free pages there were.
\<close>

theorem phys_block_roundtrip:
  assumes "get_phys_block n s = (a, s')" "a \<noteq> 0"
  shows "free_pages (free_phys_block a n s') = free_pages s"
  using phys.alloc_takes [OF _ assms] phys.release_gives [where s = s' and a = a and n = n] by auto

theorem phys_block_roundtrip_witness:
  "free_pages (free_phys_block 0x4F8000 3 (snd (get_phys_block 3 demo_phys))) = free_pages demo_phys"
  using phys_block_roundtrip [OF demo_phys_get [of 3]] by (simp add: demo_phys_get)

text \<open>
  C4. Whatever sequence of allocations and releases the kernel performs, the blocks of
  physical pages it holds never overlap, none of their pages is free, and no page is lost.
\<close>

theorem phys_blocks_never_overlap:
  assumes "client_run get_phys_block free_phys_block es (s, []) = (s', live)"
  shows "blocks_disjoint page_of_addr live \<and>
         free_pages s' \<union> \<Union> (block_pages page_of_addr ` set live) = free_pages s \<and>
         (\<forall>b \<in> set live. block_pages page_of_addr b \<inter> free_pages s' = {})"
  using phys.client_run_disjoint [OF TrueI assms] .

theorem phys_blocks_never_overlap_witness:
  "\<exists>s'. client_run get_phys_block free_phys_block [Get 3] (demo_phys, []) = (s', [(0x4F8000, 3)]) \<and>
     free_pages s' \<union> {1272..<1275} = free_pages demo_phys"
proof -
  have *: "client_run get_phys_block free_phys_block [Get 3] (demo_phys, []) =
      (snd (get_phys_block 3 demo_phys), [(0x4F8000, 3)])"
    by (simp add: client_run_def demo_phys_get)
  from phys_blocks_never_overlap [OF *] * show ?thesis by (auto simp: block_pages_def)
qed

end
