(* ===== verification/Address_Space.thy ===== *)
theory Address_Space
  imports Kernel_Prelude
begin

text \<open>
  The contract of an address space, as the callers of \<^verbatim>\<open>page_map\<close> and \<^verbatim>\<open>page_unmap\<close> use it:
  mapping a page makes it translate and disturbs no page that already translates, and a failed
  call disturbs none at all. The loops over ranges of pages, \<^verbatim>\<open>page_map_range\<close> with its undoing
  on an error, are verified once from these laws.
\<close>

text \<open>
  The loops \<^verbatim>\<open>for (i = 0; i < size; i++) if ((err = f(i))) goto error;\<close> run \<open>f\<close> until it
  reports an error; the index where they stop is returned too.
\<close>

function until_error :: "(nat \<Rightarrow> 's \<Rightarrow> int \<times> 's) \<Rightarrow> nat \<Rightarrow> nat \<Rightarrow> 's \<Rightarrow> int \<times> nat \<times> 's" where
  "until_error f i n s =
     (if i < n
      then (case f i s of (err, s') \<Rightarrow> if err \<noteq> 0 then (err, i, s') else until_error f (i + 1) n s')
      else (0, i, s))"
  by pat_completeness auto
termination
  by (relation "measure (\<lambda>(f, i, n, s). n - i)") auto

declare until_error.simps [simp del]

abbreviation nth_page :: "u32 \<Rightarrow> nat \<Rightarrow> u32" where
  "nth_page a i \<equiv> a + push_bit 12 (of_nat i)"

fun unmap_back :: "(u32 \<Rightarrow> 's \<Rightarrow> int \<times> 's) \<Rightarrow> u32 \<Rightarrow> nat \<Rightarrow> 's \<Rightarrow> 's" where
  "unmap_back unmap virt_addr 0 s = s"
| "unmap_back unmap virt_addr (Suc i) s =
     unmap_back unmap virt_addr i (snd (unmap (nth_page virt_addr i) s))"


lemma until_error_stops:
  assumes "until_error f i n s = (e, j, t)" "e \<noteq> 0"
  shows "j < n"
  using assms
proof (induction "n - i" arbitrary: i s)
  case 0
  then show ?case by (subst (asm) until_error.simps) (auto split: if_splits)
next
  case (Suc m)
  show ?case
    using Suc.prems Suc.hyps(1) [of "i + 1" "snd (f i s)"] Suc.hyps(2)
    by (subst (asm) until_error.simps) (auto split: if_splits prod.splits)
qed

text \<open>A loop that stops early has run without an error up to the call that failed.\<close>

lemma until_error_splits:
  assumes "until_error f i n s = (e, j, t)" "e \<noteq> 0" "i \<le> n"
  shows "i \<le> j \<and> j < n \<and> (\<exists>t0. until_error f i j s = (0, j, t0) \<and> f j t0 = (e, t))"
  using assms
proof (induction "n - i" arbitrary: i s)
  case 0
  then show ?case by (subst (asm) until_error.simps) (auto split: if_splits)
next
  case (Suc m)
  then have i: "i < n" by simp
  obtain e1 s1 where step: "f i s = (e1, s1)" by fastforce
  show ?case
  proof (cases "e1 = 0")
    case True
    have "until_error f (i + 1) n s1 = (e, j, t)"
      using Suc.prems(1) step i True by (subst (asm) until_error.simps) simp
    from Suc.hyps(1) [OF _ this Suc.prems(2)] Suc.hyps(2) i
    have "i + 1 \<le> j \<and> j < n \<and> (\<exists>t0. until_error f (i + 1) j s1 = (0, j, t0) \<and> f j t0 = (e, t))" by simp
    then show ?thesis using step True by (subst until_error.simps) auto
  next
    case False
    then have "e = e1" "j = i" "t = s1"
      using Suc.prems(1) step i by (auto simp: until_error.simps [of _ i])
    then show ?thesis using i step by (auto simp: until_error.simps [of _ i])
  qed
qed

lemma nth_page_0 [simp]: "nth_page a 0 = a"
  by simp

lemma nth_page_inj:
  assumes "nth_page a i = nth_page a j" "i < 1048576" "j < 1048576"
  shows "i = j"
proof -
  have "(push_bit 12 (of_nat i) :: u32) = push_bit 12 (of_nat j)" using assms(1) by (simp only: add_left_cancel)
  then have "i * 4096 = j * 4096" using unat_page_addr assms(2,3) by metis
  then show ?thesis by simp
qed

locale address_space =
  fixes map_page :: "u32 \<Rightarrow> u32 \<Rightarrow> u32 \<Rightarrow> 's \<Rightarrow> int \<times> 's"
    and unmap_page :: "u32 \<Rightarrow> 's \<Rightarrow> int \<times> 's"
    and lookup :: "'s \<Rightarrow> u32 \<Rightarrow> u32 option"
    and user :: "u32 \<Rightarrow> bool"
    and present :: "u32 \<Rightarrow> bool"
    and invar :: "'s \<Rightarrow> bool"
  assumes map_ok: "\<lbrakk>map_page p v flag s = (0, s'); invar s; user v; present flag\<rbrakk> \<Longrightarrow>
      invar s' \<and> lookup s' v = Some p"
    and map_keeps: "\<lbrakk>map_page p v flag s = (err, s'); invar s; user v; user w; present flag;
      w \<noteq> v \<or> err \<noteq> 0; lookup s w = Some q\<rbrakk> \<Longrightarrow> lookup s' w = Some q"
    and map_fail: "\<lbrakk>map_page p v flag s = (err, s'); invar s; user v; present flag; err \<noteq> 0\<rbrakk> \<Longrightarrow> invar s'"
    and unmap_ok: "\<lbrakk>invar s; user v; lookup s v \<noteq> None\<rbrakk> \<Longrightarrow>
      invar (snd (unmap_page v s)) \<and> lookup (snd (unmap_page v s)) v = None \<and>
      (\<forall>w. user w \<and> w \<noteq> v \<longrightarrow> lookup (snd (unmap_page v s)) w = lookup s w)"
begin

text \<open>The mapping loop, from page \<open>i\<close> on: what it has mapped, whether or not it ends early.\<close>

lemma map_loop:
  assumes "until_error (\<lambda>i. map_page (nth_page p i) (nth_page v i) flag) i n s = (err, j, s')"
    "invar s" "present flag" "i \<le> n" "n \<le> 1048576" "\<And>k. k < n \<Longrightarrow> user (nth_page v k)"
    "\<And>k. k < i \<Longrightarrow> lookup s (nth_page v k) = Some (nth_page p k)"
  shows "invar s' \<and> i \<le> j \<and> j \<le> n \<and> (err = 0 \<longrightarrow> j = n) \<and>
    (\<forall>k < j. lookup s' (nth_page v k) = Some (nth_page p k)) \<and>
    (\<forall>w q. user w \<and> (\<forall>k < j. w \<noteq> nth_page v k) \<and> lookup s w = Some q \<longrightarrow> lookup s' w = Some q)"
  using assms
proof (induction "n - i" arbitrary: i s)
  case 0
  then show ?case by (subst (asm) until_error.simps) (auto split: if_splits)
next
  case (Suc m)
  then have i: "i < n" by simp
  obtain e t where step: "map_page (nth_page p i) (nth_page v i) flag s = (e, t)" by fastforce
  have ui: "user (nth_page v i)" using Suc.prems(6) i by blast
  have keep: "lookup t w = Some q" if "user w" "w \<noteq> nth_page v i \<or> e \<noteq> 0" "lookup s w = Some q" for w q
    using map_keeps [OF step Suc.prems(2) ui that(1) Suc.prems(3)] that by blast
  have earlier: "lookup t (nth_page v k) = Some (nth_page p k)" if "k < i" for k
    using keep [of "nth_page v k"] nth_page_inj [of v k i] Suc.prems(5-7) i that by force
  show ?case
  proof (cases "e = 0")
    case True
    have ok: "invar t" "lookup t (nth_page v i) = Some (nth_page p i)"
      using map_ok step True Suc.prems(2,3) ui by blast+
    have "until_error (\<lambda>i. map_page (nth_page p i) (nth_page v i) flag) (i + 1) n t = (err, j, s')"
      using Suc.prems(1) step i True by (subst (asm) until_error.simps) simp
    note IH = Suc.hyps(1) [OF _ this ok(1) Suc.prems(3) _ Suc.prems(5,6)]
    have "lookup t (nth_page v k) = Some (nth_page p k)" if "k < i + 1" for k
      using earlier ok(2) that by (cases "k = i") auto
    then have "invar s' \<and> i + 1 \<le> j \<and> j \<le> n \<and> (err = 0 \<longrightarrow> j = n) \<and>
        (\<forall>k < j. lookup s' (nth_page v k) = Some (nth_page p k)) \<and>
        (\<forall>w q. user w \<and> (\<forall>k < j. w \<noteq> nth_page v k) \<and> lookup t w = Some q \<longrightarrow> lookup s' w = Some q)"
      using IH Suc.hyps(2) i by simp
    moreover from this have "w \<noteq> nth_page v i" if "\<forall>k < j. w \<noteq> nth_page v k" for w using that by simp
    ultimately show ?thesis using keep by (metis Suc_eq_plus1 Suc_leD)
  next
    case False
    then have "err = e" "j = i" "s' = t"
      using Suc.prems(1) step i by (auto simp: until_error.simps [of _ i])
    then show ?thesis
      using map_fail [OF step Suc.prems(2) ui Suc.prems(3) False] False i keep earlier by auto
  qed
qed

text \<open>The undoing loop unmaps the pages it is given and no others.\<close>

lemma undo_loop:
  assumes "invar s" "j \<le> 1048576" "\<And>k. k < j \<Longrightarrow> user (nth_page v k) \<and> lookup s (nth_page v k) \<noteq> None"
  shows "invar (unmap_back unmap_page v j s) \<and>
    (\<forall>k < j. lookup (unmap_back unmap_page v j s) (nth_page v k) = None) \<and>
    (\<forall>w. user w \<and> (\<forall>k < j. w \<noteq> nth_page v k) \<longrightarrow>
       lookup (unmap_back unmap_page v j s) w = lookup s w)"
  using assms
proof (induction j arbitrary: s)
  case (Suc j)
  let ?t = "snd (unmap_page (nth_page v j) s)"
  have u: "invar ?t" "lookup ?t (nth_page v j) = None"
      "\<And>w. user w \<Longrightarrow> w \<noteq> nth_page v j \<Longrightarrow> lookup ?t w = lookup s w"
    using unmap_ok [of s "nth_page v j"] Suc.prems by auto
  have ne: "nth_page v k \<noteq> nth_page v j" if "k < j" for k
    using nth_page_inj [of v k j] Suc.prems(2) that by auto
  have IH: "invar (unmap_back unmap_page v j ?t) \<and>
    (\<forall>k < j. lookup (unmap_back unmap_page v j ?t) (nth_page v k) = None) \<and>
    (\<forall>w. user w \<and> (\<forall>k < j. w \<noteq> nth_page v k) \<longrightarrow>
       lookup (unmap_back unmap_page v j ?t) w = lookup ?t w)"
    using Suc.IH [OF u(1)] Suc.prems u(3) ne by (metis Suc_leD less_SucI)
  moreover have "lookup (unmap_back unmap_page v j ?t) (nth_page v j) = None"
    using IH u(2) ne Suc.prems(3) [of j] by (metis lessI)
  ultimately show ?case using u(3) by (auto simp: less_Suc_eq)
qed simp

end

end
