(* ===== verification/Paging.thy ===== *)
theory Paging
  imports Phys_Mem Address_Space
begin

text \<open>
  The two-level x86 page tables (\<^verbatim>\<open>kernel/x86/page.c\<close>, \<^verbatim>\<open>kernel/x86/page_debug.c\<close>,
  \<^verbatim>\<open>kernel/x86/init_page.c\<close>). The state holds the page directory and the physical memory,
  by page and 32-bit word. Page tables are physical pages: the kernel reaches them through
  the windows \<^verbatim>\<open>page_swap\<close> and \<^verbatim>\<open>page_swap2\<close>, two virtual pages of its image whose entries
  in \<^verbatim>\<open>kernel_page\<close> it redirects (\<^verbatim>\<open>access_table_with_physical\<close>). Where the image lies is
  decided by the linker and kept in the field \<open>lay\<close>. The translation caches are not part of the
  state: \<^verbatim>\<open>invlpg\<close> and \<^verbatim>\<open>page_directory_reset\<close> have no effect on it.
\<close>

record layout =
  page_directory_at :: u32
  kernel_page :: u32
  page_swap :: u32
  page_swap2 :: u32
  kernel_start :: u32
  kernel_end :: u32
  kernel_text_start :: u32
  kernel_text_end :: u32
  kernel_rodata_start :: u32
  kernel_rodata_end :: u32
  kernel_data_start :: u32
  kernel_data_end :: u32
  kernel_bss_start :: u32
  kernel_bss_end :: u32

type_synonym table = "nat \<Rightarrow> u32"

record vm_st = phys_st +
  lay :: layout
  page_directory :: table
  pmem :: "u32 \<Rightarrow> table"

definition KERNEL_POS :: u32 where "KERNEL_POS = 0xC0000000"
definition KERNEL_GET_REAL :: "u32 \<Rightarrow> u32" where "KERNEL_GET_REAL p = p - KERNEL_POS"

definition PAGE_FLAG :: u32 where "PAGE_FLAG = 0xFFF"
definition PAGE_ADDR :: u32 where "PAGE_ADDR = NOT PAGE_FLAG"
definition PAGE_SIZE :: u32 where "PAGE_SIZE = 0x80"
definition PAGE_USER_SUPERVISOR :: u32 where "PAGE_USER_SUPERVISOR = 4"
definition PAGE_WRITE :: u32 where "PAGE_WRITE = 2"
definition PAGE_PRESENT :: u32 where "PAGE_PRESENT = 1"
definition PAGE_NOTHING :: u32 where "PAGE_NOTHING = 0"

definition PAGE_GET_ADDR :: "u32 \<Rightarrow> u32" where "PAGE_GET_ADDR p = p AND PAGE_ADDR"
definition TABLE_ENTRY :: "u32 \<Rightarrow> u32" where "TABLE_ENTRY p = drop_bit 12 (p AND 0x003FF000)"

subsection \<open>Table entries\<close>

definition page_entry_clear :: "table \<Rightarrow> table" where
  "page_entry_clear tab = (\<lambda>i. if i < 1024 then 0 else tab i)"

definition page_entry_set :: "u32 \<Rightarrow> u32 \<Rightarrow> u32 \<Rightarrow> table \<Rightarrow> int \<times> table" where
  "page_entry_set index ptr flag tab =
     (if ptr AND PAGE_FLAG \<noteq> 0 then (- EINVAL, tab)
      else if flag AND PAGE_ADDR \<noteq> 0 then (- EINVAL, tab)
      else if index \<ge> 1024 then (- EINVAL, tab)
      else (0, tab(unat index := ptr OR flag)))"

definition page_entry_remove :: "u32 \<Rightarrow> table \<Rightarrow> int \<times> table" where
  "page_entry_remove index tab = page_entry_set index 0 PAGE_NOTHING tab"

function page_entry_set_range :: "u32 \<Rightarrow> u32 \<Rightarrow> u32 \<Rightarrow> table \<Rightarrow> int \<times> table" where
  "page_entry_set_range i to flag tab =
     (if i < to
      then (case page_entry_set i (push_bit 12 i) flag tab of (err, tab') \<Rightarrow>
              if err \<noteq> 0 then (err, tab') else page_entry_set_range (i + 1) to flag tab')
      else (0, tab))"
  by pat_completeness auto
termination
  by (relation "measure (\<lambda>(i, to, flag, tab). unat to - unat i)")
     (auto simp: unat_Suc_less word_less_nat_alt)

declare page_entry_set_range.simps [simp del]

subsection \<open>The windows\<close>

abbreviation kernel_page_frame :: "'a vm_st_scheme \<Rightarrow> u32" where
  "kernel_page_frame s \<equiv> KERNEL_GET_REAL (kernel_page (lay s))"

definition window_index :: "u32 \<Rightarrow> u32" where
  "window_index static_page = drop_bit 12 (KERNEL_GET_REAL static_page)"

definition access_table_with_physical ::
  "u32 \<Rightarrow> u32 \<Rightarrow> 'a vm_st_scheme \<Rightarrow> int \<times> 'a vm_st_scheme" where
  "access_table_with_physical static_page physical s =
     (case page_entry_set (window_index static_page) physical (PAGE_WRITE OR PAGE_PRESENT)
             (pmem s (kernel_page_frame s)) of
        (err, tab) \<Rightarrow> (err, s\<lparr>pmem := (pmem s)(kernel_page_frame s := tab)\<rparr>))"

text \<open>The physical page that a window shows: reads and writes of \<^verbatim>\<open>page_swap[i]\<close> go there.\<close>

definition window_frame :: "u32 \<Rightarrow> 'a vm_st_scheme \<Rightarrow> u32" where
  "window_frame static_page s =
     PAGE_GET_ADDR (pmem s (kernel_page_frame s) (unat (window_index static_page)))"

definition window_read :: "u32 \<Rightarrow> nat \<Rightarrow> 'a vm_st_scheme \<Rightarrow> u32" where
  "window_read static_page i s = pmem s (window_frame static_page s) i"

definition window_entry_set ::
  "u32 \<Rightarrow> u32 \<Rightarrow> u32 \<Rightarrow> u32 \<Rightarrow> 'a vm_st_scheme \<Rightarrow> int \<times> 'a vm_st_scheme" where
  "window_entry_set static_page index ptr flag s =
     (let f = window_frame static_page s in
      case page_entry_set index ptr flag (pmem s f) of
        (err, tab) \<Rightarrow> (err, s\<lparr>pmem := (pmem s)(f := tab)\<rparr>))"

subsection \<open>Mapping and unmapping one page\<close>

definition dir_index :: "u32 \<Rightarrow> nat" where
  "dir_index v = unat (drop_bit 22 v)"

definition table_index :: "u32 \<Rightarrow> u32" where
  "table_index v = drop_bit 12 v AND 0x03FF"

definition page_unmap :: "u32 \<Rightarrow> u32 \<Rightarrow> 'a vm_st_scheme \<Rightarrow> int \<times> 'a vm_st_scheme" where
  "page_unmap virt_addr flag s =
     (let d = dir_index virt_addr; entry = page_directory s d; win = page_swap (lay s) in
      if virt_addr AND PAGE_FLAG \<noteq> 0 then (- EINVAL, s)
      else if entry AND PAGE_SIZE \<noteq> 0 then (- EINVAL, s)
      else if entry AND PAGE_PRESENT = 0 then (- EINVAL, s)
      else case access_table_with_physical win (PAGE_GET_ADDR entry) s of (err, s1) \<Rightarrow>
        if err \<noteq> 0 then (err, s1)
        else case window_entry_set win (table_index virt_addr) 0 PAGE_NOTHING s1 of (err, s2) \<Rightarrow>
          if err \<noteq> 0 then (err, s2)
          else if list_ex (\<lambda>i. window_read win i s2 AND PAGE_PRESENT \<noteq> 0) [0..<1024] then (err, s2)
          else let entry' = page_directory s2 d AND NOT PAGE_PRESENT;
                   s3 = free_phys_block (PAGE_GET_ADDR entry') 1 s2
               in (err, s3\<lparr>page_directory := (page_directory s3)(d := flag)\<rparr>))"

definition page_map :: "u32 \<Rightarrow> u32 \<Rightarrow> u32 \<Rightarrow> 'a vm_st_scheme \<Rightarrow> int \<times> 'a vm_st_scheme" where
  "page_map phy_addr virt_addr flag s =
     (let d = dir_index virt_addr; win = page_swap (lay s) in
      if virt_addr AND PAGE_FLAG \<noteq> 0 then (- EINVAL, s)
      else if phy_addr AND PAGE_FLAG \<noteq> 0 then (- EINVAL, s)
      else if flag AND PAGE_ADDR \<noteq> 0 then (- EINVAL, s)
      else if flag AND PAGE_PRESENT = 0 then page_unmap virt_addr flag s
      else if page_directory s d AND PAGE_SIZE \<noteq> 0 then (- EINVAL, s)
      else
        let (oom, s1) =
          (if page_directory s d AND PAGE_PRESENT = 0
           then case get_phys_block 1 s of (frame, t) \<Rightarrow>
             if frame = 0 then (True, t\<lparr>page_directory := (page_directory t)(d := 0)\<rparr>)
             else (False, t\<lparr>page_directory := (page_directory t)
                     (d := frame OR (PAGE_PRESENT OR PAGE_WRITE OR PAGE_USER_SUPERVISOR))\<rparr>)
           else (False, s))
        in if oom then (- ENOMEM, s1)
           else case access_table_with_physical win (PAGE_GET_ADDR (page_directory s1 d)) s1 of
             (err, s2) \<Rightarrow>
               if err \<noteq> 0 then (err, s2)
               else window_entry_set win (table_index virt_addr) phy_addr flag s2)"

subsection \<open>Ranges\<close>

definition page_map_range ::
  "u32 \<Rightarrow> u32 \<Rightarrow> u32 \<Rightarrow> nat \<Rightarrow> 'a vm_st_scheme \<Rightarrow> int \<times> 'a vm_st_scheme" where
  "page_map_range phy_addr virt_addr flags n s =
     (case until_error (\<lambda>i. page_map (nth_page phy_addr i) (nth_page virt_addr i) flags) 0 n s of
        (err, i, s') \<Rightarrow>
          if err \<noteq> 0 then (err, unmap_back (\<lambda>v. page_unmap v PAGE_NOTHING) virt_addr i s')
          else (err, s'))"

definition page_map_at :: "u32 \<Rightarrow> u32 \<Rightarrow> nat \<Rightarrow> 'a vm_st_scheme \<Rightarrow> int \<times> 'a vm_st_scheme" where
  "page_map_at virt_addr flags nb_page s =
     (if flags AND PAGE_PRESENT = 0 then (- EINVAL, s)
      else if flags AND PAGE_ADDR \<noteq> 0 then (- EINVAL, s)
      else if virt_addr AND PAGE_FLAG \<noteq> 0 then (- EINVAL, s)
      else case get_phys_block nb_page s of (new_page, s1) \<Rightarrow>
        if new_page = 0 then (- ENOMEM, s1)
        else case page_map_range new_page virt_addr flags nb_page s1 of (err, s2) \<Rightarrow>
          if err \<noteq> 0 then (err, free_phys_block new_page nb_page s2) else (0, s2))"

subsection \<open>Looking up\<close>

record page_info_data =
  target :: u32
  target_page :: u32
  info_error :: int
  info_directory :: u32
  info_directory_entry :: u32
  have_page_entry :: bool
  info_page_table :: u32
  page_table_entry :: u32

definition page_info :: "u32 \<Rightarrow> 'a vm_st_scheme \<Rightarrow> int \<times> page_info_data \<times> 'a vm_st_scheme" where
  "page_info v s =
     (let virt_addr = push_bit 12 (drop_bit 12 v);
          win = page_swap (lay s);
          entry = page_directory s (dir_index virt_addr);
          ret = \<lparr>target = v, target_page = virt_addr, info_error = 0,
                 info_directory = page_directory_at (lay s), info_directory_entry = entry,
                 have_page_entry = False, info_page_table = 0, page_table_entry = 0\<rparr>
      in if entry AND PAGE_PRESENT = 0 \<or> entry AND PAGE_SIZE \<noteq> 0 then (0, ret, s)
         else case access_table_with_physical win (PAGE_GET_ADDR entry) s of (err, s1) \<Rightarrow>
           if err \<noteq> 0 then (err, ret, s1)
           else (err, ret\<lparr>have_page_entry := True, info_page_table := win,
                   page_table_entry := window_read win (unat (table_index virt_addr)) s1\<rparr>, s1))"

definition page_get_phys :: "u32 \<Rightarrow> 'a vm_st_scheme \<Rightarrow> u32 \<times> 'a vm_st_scheme" where
  "page_get_phys virt_addr s =
     (case page_info virt_addr s of (_, info, s1) \<Rightarrow>
        if \<not> have_page_entry info then (0, s1)
        else if page_table_entry info AND PAGE_PRESENT \<noteq> 0
             then (PAGE_GET_ADDR (page_table_entry info), s1)
        else (0, s1))"

definition page_is_present :: "u32 \<Rightarrow> 'a vm_st_scheme \<Rightarrow> int \<times> 'a vm_st_scheme" where
  "page_is_present virt_addr s =
     (case page_info virt_addr s of (_, info, s1) \<Rightarrow>
        if \<not> have_page_entry info then (0, s1)
        else if page_table_entry info AND PAGE_PRESENT \<noteq> 0 then (1, s1)
        else (0, s1))"

text \<open>
  The three loops of \<^verbatim>\<open>page_unmap_at\<close>, which the source starts at \<^verbatim>\<open>i = nb_page\<close>.
\<close>

definition page_unmap_at :: "u32 \<Rightarrow> u32 \<Rightarrow> nat \<Rightarrow> 'a vm_st_scheme \<Rightarrow> int \<times> 'a vm_st_scheme" where
  "page_unmap_at virt_addr flags nb_page s =
     (if flags AND PAGE_PRESENT \<noteq> 0 then (- EINVAL, s)
      else if flags AND PAGE_ADDR \<noteq> 0 then (- EINVAL, s)
      else if virt_addr AND PAGE_FLAG \<noteq> 0 then (- EINVAL, s)
      else case until_error (\<lambda>i t. case page_info (nth_page virt_addr i) t of (_, info, t1) \<Rightarrow>
               if page_table_entry info AND PAGE_PRESENT = 0 then (- EINVAL, t1) else (0, t1))
             nb_page nb_page s of (err, _, s1) \<Rightarrow>
        if err \<noteq> 0 then (err, s1)
        else case until_error (\<lambda>i t. case page_info (nth_page virt_addr i) t of (_, info, t1) \<Rightarrow>
                 (0, free_phys_block (PAGE_GET_ADDR (page_table_entry info)) 1 t1))
               nb_page nb_page s1 of (_, _, s2) \<Rightarrow>
          case until_error (\<lambda>i. page_unmap (nth_page virt_addr i) flags) nb_page nb_page s2 of
            (err, _, s3) \<Rightarrow> (err, s3))"

definition phys_bzero :: "u32 \<Rightarrow> nat \<Rightarrow> 'a vm_st_scheme \<Rightarrow> int \<times> 'a vm_st_scheme" where
  "phys_bzero addr nb_page s =
     (case until_error (\<lambda>i t.
          case access_table_with_physical (page_swap (lay t)) (nth_page addr i) t of (err, t1) \<Rightarrow>
            if err \<noteq> 0 then (err, t1)
            else (err, t1\<lparr>pmem := (pmem t1)(window_frame (page_swap (lay t)) t1 :=
                    (\<lambda>w. if w < 1024 then 0 else pmem t1 (window_frame (page_swap (lay t)) t1) w))\<rparr>))
        0 nb_page s of (err, _, s') \<Rightarrow> (err, s'))"

subsection \<open>The kernel's own page table\<close>

definition set_range_frame :: "u32 \<Rightarrow> u32 \<Rightarrow> u32 \<Rightarrow> table \<Rightarrow> table" where
  "set_range_frame from to flag tab =
     snd (page_entry_set_range (TABLE_ENTRY from) (TABLE_ENTRY to) flag tab)"

definition clear_bit_at :: "u32 \<Rightarrow> nat \<Rightarrow> bitmap \<Rightarrow> bitmap" where
  "clear_bit_at a k bm =
     bm(ACCESS_BITMAP_BY_ADDR a := bm (ACCESS_BITMAP_BY_ADDR a) AND NOT (push_bit k 1))"

definition page_setup_kernel_section :: "'a vm_st_scheme \<Rightarrow> 'a vm_st_scheme" where
  "page_setup_kernel_section s =
     (let L = lay s; W = PAGE_WRITE OR PAGE_PRESENT; real = KERNEL_GET_REAL;
          t0 = page_entry_clear (pmem s (kernel_page_frame s));
          t1 = snd (page_entry_set (TABLE_ENTRY 0) 0 W t0);
          t2 = snd (page_entry_set (TABLE_ENTRY 0xB8000) 0xB8000 W t1);
          t3 = snd (page_entry_set (TABLE_ENTRY 0xE0000) 0xE0000 W t2);
          t4 = set_range_frame 0xE0000 0x100000 PAGE_PRESENT t3;
          t5 = set_range_frame (real (kernel_start L)) (PAGE_ALIGN (real (kernel_end L))) W t4;
          t6 = set_range_frame (real (kernel_text_start L)) (PAGE_ALIGN (real (kernel_text_end L))) PAGE_PRESENT t5;
          t7 = set_range_frame (real (kernel_rodata_start L)) (PAGE_ALIGN (real (kernel_rodata_end L))) PAGE_PRESENT t6;
          t8 = set_range_frame (real (kernel_data_start L)) (PAGE_ALIGN (real (kernel_data_end L))) W t7;
          t9 = set_range_frame (real (kernel_bss_start L)) (PAGE_ALIGN (real (kernel_bss_end L))) W t8;
          b = clear_bit_at 0x0000E000 (0x000E0000 mod 8)
                (clear_bit_at 0x000B8000 (0x000B8000 mod 8) (clear_bit_at 0 (0 mod 8) (mm_bitmap s)))
      in s\<lparr>mm_bitmap := b, pmem := (pmem s)(kernel_page_frame s := t9)\<rparr>)"

subsection \<open>Bits of entries and parts of addresses\<close>

lemma and_present [simp]: "e AND PAGE_PRESENT = 0 \<longleftrightarrow> \<not> bit e 0"
  using and_exp_0 [of e 0] by (simp add: PAGE_PRESENT_def)

lemma and_page_size [simp]: "e AND PAGE_SIZE = 0 \<longleftrightarrow> \<not> bit e 7"
  using and_exp_0 [of e 7] by (simp add: PAGE_SIZE_def)

lemma page_flag_mask: "PAGE_FLAG = mask 12"
  by (simp add: PAGE_FLAG_def mask_eq_exp_minus_1)

lemma bit_page_addr [bit_set_simps]: "bit (e AND PAGE_ADDR) n \<longleftrightarrow> bit e n \<and> 12 \<le> n"
  by (auto simp: PAGE_ADDR_def page_flag_mask bit_simps dest: bit_imp_le_length)

lemma bit_page_flag [bit_set_simps]: "bit (e AND PAGE_FLAG) n \<longleftrightarrow> bit e n \<and> n < 12"
  by (auto simp: page_flag_mask bit_simps)

lemma aligned_iff: "a AND PAGE_FLAG = 0 \<longleftrightarrow> unat a mod 4096 = 0"
proof -
  have "a AND PAGE_FLAG = take_bit 12 a" by (simp add: page_flag_mask take_bit_eq_mask)
  then have "unat (a AND PAGE_FLAG) = unat a mod 4096"
    by (simp add: take_bit_eq_mod unat_mod)
  then show ?thesis by (metis unat_eq_zero)
qed

lemma entry_addr [simp]:
  assumes "p AND PAGE_FLAG = 0" "f AND PAGE_ADDR = 0"
  shows "PAGE_GET_ADDR (p OR f) = p"
proof (rule bit_word_eqI)
  fix n assume "n < LENGTH(32)"
  have "\<not> bit (p AND PAGE_FLAG) n" "\<not> bit (f AND PAGE_ADDR) n" using assms by simp_all
  then show "bit (PAGE_GET_ADDR (p OR f)) n = bit p n"
    by (auto simp: PAGE_GET_ADDR_def bit_set_simps bit_or_iff)
qed

lemma entry_bit [simp]:
  assumes "p AND PAGE_FLAG = 0" "n < 12"
  shows "bit (p OR f) n = bit f n"
proof -
  have "\<not> bit (p AND PAGE_FLAG) n" using assms by simp
  with assms(2) show ?thesis by (auto simp: bit_set_simps bit_or_iff)
qed

lemma page_get_addr_aligned [simp]: "PAGE_GET_ADDR e AND PAGE_FLAG = 0"
  by (rule bit_word_eqI) (auto simp: PAGE_GET_ADDR_def bit_set_simps)

lemma unat_table_index: "unat (table_index v) = unat v div 4096 mod 1024"
proof -
  have "table_index v = take_bit 10 (drop_bit 12 v)"
    by (simp add: table_index_def take_bit_eq_mask mask_eq_exp_minus_1)
  then show ?thesis by (simp add: take_bit_eq_mod unat_mod unat_drop_bit)
qed

lemma table_index_less: "table_index v < 1024"
  by (simp add: word_less_nat_alt unat_table_index)

lemma dir_index_less: "dir_index v < 1024"
  using unat_less_32 [of v] by (simp add: dir_index_def unat_drop_bit less_mult_imp_div_less)

text \<open>Two page-aligned addresses with the same indices are the same page.\<close>

lemma same_page:
  assumes "dir_index v = dir_index w" "table_index v = table_index w"
    "v AND PAGE_FLAG = 0" "w AND PAGE_FLAG = 0"
  shows "v = w"
proof -
  have "unat v div 4194304 = unat w div 4194304"
    using assms(1) by (simp add: dir_index_def unat_drop_bit)
  moreover have "unat v div 4096 mod 1024 = unat w div 4096 mod 1024"
    using assms(2) by (metis unat_table_index)
  moreover have "unat v mod 4096 = 0" "unat w mod 4096 = 0"
    using assms(3,4) by (simp_all add: aligned_iff)
  moreover have "x div 4194304 = x div 4096 div 1024" for x :: nat
    by (simp add: div_mult2_eq [symmetric])
  ultimately have "unat v = unat w"
    by (metis div_mult_mod_eq add.right_neutral)
  then show ?thesis by (simp add: word_unat_eq_iff)
qed

subsection \<open>Address translation and the invariant\<close>

text \<open>
  What the hardware does with an address: the page table of its directory slot, the entry
  in it, the page it maps to.
\<close>

definition table_frame :: "'a vm_st_scheme \<Rightarrow> nat \<Rightarrow> u32 option" where
  "table_frame s d =
     (if bit (page_directory s d) 0 \<and> \<not> bit (page_directory s d) 7
      then Some (PAGE_GET_ADDR (page_directory s d)) else None)"

definition pte :: "'a vm_st_scheme \<Rightarrow> u32 \<Rightarrow> u32 option" where
  "pte s v = map_option (\<lambda>f. pmem s f (unat (table_index v))) (table_frame s (dir_index v))"

definition translate :: "'a vm_st_scheme \<Rightarrow> u32 \<Rightarrow> u32 option" where
  "translate s v =
     (case pte s v of None \<Rightarrow> None | Some e \<Rightarrow> if bit e 0 then Some (PAGE_GET_ADDR e) else None)"

text \<open>
  The invariant: the kernel slot 768 holds \<^verbatim>\<open>kernel_page\<close>, the window is one of its entries,
  no two slots share a page table, and no page table lies in a free page.
\<close>

definition vm_wf :: "'a vm_st_scheme \<Rightarrow> bool" where
  "vm_wf s \<longleftrightarrow>
     window_index (page_swap (lay s)) < 1024 \<and>
     table_frame s 768 = Some (kernel_page_frame s) \<and>
     (\<forall>d < 1024. \<forall>d' < 1024. \<forall>f. table_frame s d = Some f \<and> table_frame s d' = Some f \<longrightarrow> d = d') \<and>
     (\<forall>d < 1024. \<forall>f. table_frame s d = Some f \<longrightarrow> page_of_addr f \<notin> free_pages s)"

text \<open>The address of the window itself, whose entry every operation redirects.\<close>

definition is_window :: "'a vm_st_scheme \<Rightarrow> u32 \<Rightarrow> bool" where
  "is_window s v \<longleftrightarrow> dir_index v = 768 \<and> table_index v = window_index (page_swap (lay s))"

lemma table_frame_aligned [simp]: "table_frame s d = Some f \<Longrightarrow> f AND PAGE_FLAG = 0"
  by (auto simp: table_frame_def split: if_splits)

lemma rw_flags_ok [simp]: "(PAGE_WRITE OR PAGE_PRESENT) AND PAGE_ADDR = 0"
  "(PAGE_PRESENT OR PAGE_WRITE OR PAGE_USER_SUPERVISOR) AND PAGE_ADDR = 0"
  by (simp_all add: PAGE_WRITE_def PAGE_PRESENT_def PAGE_USER_SUPERVISOR_def PAGE_ADDR_def PAGE_FLAG_def)

lemma new_table_flags [simp]:
  "bit (PAGE_PRESENT OR PAGE_WRITE OR PAGE_USER_SUPERVISOR) 0"
  "\<not> bit (PAGE_PRESENT OR PAGE_WRITE OR PAGE_USER_SUPERVISOR) 7"
  by (simp_all add: PAGE_WRITE_def PAGE_PRESENT_def PAGE_USER_SUPERVISOR_def bit_simps)

end
