(* ===== verification/Vm_Frame.thy ===== *)
theory Vm_Frame
  imports Paging
begin

text \<open>
  What the operations on physical pages and page tables leave alone. The state records of the
  layers above extend \<open>vm_st\<close>; \<open>vm_frame s s'\<close> says that \<open>s'\<close> differs from \<open>s\<close> only in the
  console, the physical bitmap, the page directory and the physical memory.
\<close>

definition vm_frame :: "'a vm_st_scheme \<Rightarrow> 'a vm_st_scheme \<Rightarrow> bool" where
  "vm_frame s s' \<longleftrightarrow> (\<exists>k b d m. s' = s\<lparr>klog := k, mm_bitmap := b, page_directory := d, pmem := m\<rparr>)"

named_theorems vm_frames

lemma vm_frame_refl [simp, intro]: "vm_frame s s"
  unfolding vm_frame_def by (rule exI [of _ "klog s"], rule exI [of _ "mm_bitmap s"],
      rule exI [of _ "page_directory s"], rule exI [of _ "pmem s"]) simp

lemma vm_frame_trans: "vm_frame s t \<Longrightarrow> vm_frame t u \<Longrightarrow> vm_frame s u"
  unfolding vm_frame_def by force

lemma vm_frame_lay: "vm_frame s s' \<Longrightarrow> lay s' = lay s"
  by (auto simp: vm_frame_def)

lemma vm_frame_more: "vm_frame s s' \<Longrightarrow> vm_st.more s' = vm_st.more s"
  by (auto simp: vm_frame_def)

lemma vm_frame_pmem [simp]: "vm_frame s (s\<lparr>pmem := m\<rparr>)"
  unfolding vm_frame_def by (rule exI [of _ "klog s"], rule exI [of _ "mm_bitmap s"],
      rule exI [of _ "page_directory s"], rule exI [of _ m]) simp

lemma vm_frame_page_directory [simp]: "vm_frame s (s\<lparr>page_directory := d\<rparr>)"
  unfolding vm_frame_def by (rule exI [of _ "klog s"], rule exI [of _ "mm_bitmap s"],
      rule exI [of _ d], rule exI [of _ "pmem s"]) simp

lemma vm_frame_bitmap [simp]: "vm_frame s (s\<lparr>klog := l, mm_bitmap := b\<rparr>)"
  unfolding vm_frame_def by (rule exI [of _ l], rule exI [of _ b],
      rule exI [of _ "page_directory s"], rule exI [of _ "pmem s"]) simp

lemma vm_frame_alloc_phys_block [simp]: "vm_frame s (alloc_phys_block a n s)"
  using alloc_phys_block_frame [of a n s] by auto

lemma vm_frame_free_phys_block [simp]: "vm_frame s (free_phys_block a n s)"
  using free_phys_block_frame [of a n s] by auto

lemma vm_frame_stepI [intro]:
  "vm_frame s t \<Longrightarrow> vm_frame s (t\<lparr>page_directory := d\<rparr>)"
  "vm_frame s t \<Longrightarrow> vm_frame s (free_phys_block a n t)"
  by (rule vm_frame_trans, assumption, simp)+

lemma vm_frame_get_phys_block: "get_phys_block n s = (a, s') \<Longrightarrow> vm_frame s s'"
  by (auto simp: get_phys_block_def Let_def split: option.splits)

lemma vm_frame_access: "access_table_with_physical w f s = (e, s') \<Longrightarrow> vm_frame s s'"
  by (auto simp: access_table_with_physical_def split: prod.splits)

lemma vm_frame_entry_set: "window_entry_set w i p f s = (e, s') \<Longrightarrow> vm_frame s s'"
  by (auto simp: window_entry_set_def Let_def split: prod.splits)

lemma vm_frame_page_unmap: "page_unmap v flag s = (e, s') \<Longrightarrow> vm_frame s s'"
  unfolding page_unmap_def Let_def
  by (auto split: if_splits prod.splits dest!: vm_frame_access vm_frame_entry_set
      intro: vm_frame_trans)

lemma vm_frame_page_map: "page_map p v flag s = (e, s') \<Longrightarrow> vm_frame s s'"
  unfolding page_map_def Let_def
  by (auto split: if_splits prod.splits dest!: vm_frame_access vm_frame_entry_set vm_frame_get_phys_block
      dest: vm_frame_page_unmap intro: vm_frame_trans)

lemma vm_frame_until_error:
  assumes f: "\<And>i t e t'. f i t = (e, t') \<Longrightarrow> vm_frame t t'"
    and run: "until_error f i n s = (e, j, s')"
  shows "vm_frame s s'"
  using run
proof (induction "n - i" arbitrary: i s)
  case 0
  then show ?case by (subst (asm) until_error.simps) (auto split: if_splits)
next
  case (Suc m)
  obtain e1 t where st: "f i s = (e1, t)" by fastforce
  show ?case
    using Suc.prems Suc.hyps(1) [of "i + 1" t] Suc.hyps(2) st f [OF st]
    by (subst (asm) until_error.simps) (auto split: if_splits intro: vm_frame_trans)
qed

lemma vm_frame_unmap_back: "vm_frame s (unmap_back (\<lambda>v. page_unmap v flag) v n s)"
proof (induction n arbitrary: s)
  case (Suc n)
  show ?case
    using vm_frame_trans [OF vm_frame_page_unmap Suc, OF prod.collapse [symmetric]] by simp
qed simp

lemma vm_frame_page_map_range:
  assumes "page_map_range p v flag n s = (e, s')"
  shows "vm_frame s s'"
proof -
  obtain e1 j t where run:
    "until_error (\<lambda>i. page_map (nth_page p i) (nth_page v i) flag) 0 n s = (e1, j, t)"
    by (rule prod_cases3)
  have "vm_frame s t" using vm_frame_until_error [OF _ run] vm_frame_page_map by blast
  with assms run show ?thesis
    using vm_frame_trans [OF _ vm_frame_unmap_back] by (auto simp: page_map_range_def split: if_splits)
qed

lemma vm_frame_page_info: "page_info v s = (e, i, s') \<Longrightarrow> vm_frame s s'"
  unfolding page_info_def Let_def
  by (auto split: if_splits prod.splits dest: vm_frame_access)

lemma vm_frame_page_get_phys: "page_get_phys v s = (a, s') \<Longrightarrow> vm_frame s s'"
  unfolding page_get_phys_def
  by (auto split: if_splits prod.splits dest: vm_frame_page_info)

lemma vm_frame_page_map_at: "page_map_at v flag n s = (e, s') \<Longrightarrow> vm_frame s s'"
  unfolding page_map_at_def
  by (auto split: if_splits prod.splits dest!: vm_frame_get_phys_block vm_frame_page_map_range
      intro: vm_frame_trans)

lemmas [vm_frames] = vm_frame_get_phys_block vm_frame_page_unmap vm_frame_page_map
  vm_frame_page_map_range vm_frame_page_info vm_frame_page_get_phys vm_frame_page_map_at

end
