(* ===== verification/Kmalloc.thy ===== *)
theory Kmalloc
  imports Vm_Frame
begin

text \<open>
  The kernel heap (\<^verbatim>\<open>kernel/mem/heap_setup.c\<close>). The heap is a list of areas, each a run of
  virtual pages that starts with a \<^verbatim>\<open>struct heap_list\<close> (32 bytes) and is tiled by blocks, each
  with a \<^verbatim>\<open>struct alloc_header\<close> (16 bytes) in front. The state keeps the area list in the
  order of the C list, the headers by the address they lie at, and the bitmap of the free
  virtual pages of the heap. Heap addresses are natural numbers: pointer arithmetic that wraps is
  undefined in C. Sizes that wrap do so in the model: \<^verbatim>\<open>size_t\<close> is \<open>u32\<close> and the 31-bit fields
  are stored modulo \<open>2\<^sup>3\<^sup>1\<close>. A result \<open>None\<close> is \<^verbatim>\<open>NULL\<close>.
\<close>

record heap_list =
  page_size :: nat
  virtual :: bool

record alloc_header =
  hsize :: nat
  hfree :: bool

record heap_st = vm_st +
  mm_virt_heap :: bitmap
  heap :: "(nat \<times> heap_list) list"
  headers :: "nat \<Rightarrow> alloc_header"

definition HEAP_SIZE :: nat where "HEAP_SIZE = 0x1000000"

definition HEAP_START :: "'a vm_st_scheme \<Rightarrow> nat" where
  "HEAP_START s = unat (0x400000 + PAGE_ALIGN (kernel_end (lay s)))"

definition MALLOC_ALIGN :: "u32 \<Rightarrow> u32" where
  "MALLOC_ALIGN p = (if p mod 16 \<noteq> 0 then p - p mod 16 + 16 else p)"

definition bits31 :: "nat \<Rightarrow> nat" where
  "bits31 n = n mod 2147483648"

definition sizeof_heap_list :: nat where "sizeof_heap_list = 32"
definition sizeof_alloc_header :: nat where "sizeof_alloc_header = 16"

lemmas sizeof_defs = sizeof_heap_list_def sizeof_alloc_header_def

subsection \<open>Virtual pages\<close>

fun alloc_virt_block :: "nat \<Rightarrow> nat \<Rightarrow> 'a heap_st_scheme \<Rightarrow> 'a heap_st_scheme" where
  "alloc_virt_block start_virt_addr 0 s = s"
| "alloc_virt_block start_virt_addr (Suc n) s =
     (let i = (start_virt_addr - HEAP_START s) div 32768;
          m = push_bit ((start_virt_addr - HEAP_START s) div 4096 mod 8) 1
      in alloc_virt_block (start_virt_addr + 4096) n
           (s\<lparr>mm_virt_heap := (mm_virt_heap s)(i := mm_virt_heap s i AND NOT m)\<rparr>))"

fun free_virt_block :: "nat \<Rightarrow> nat \<Rightarrow> 'a heap_st_scheme \<Rightarrow> 'a heap_st_scheme" where
  "free_virt_block start_virt_addr 0 s = s"
| "free_virt_block start_virt_addr (Suc n) s =
     (let i = (start_virt_addr - HEAP_START s) div 32768;
          m = push_bit ((start_virt_addr - HEAP_START s) div 4096 mod 8) 1;
          s1 = (if mm_virt_heap s i AND m \<noteq> 0
                then printk ''try to free already unallocated block'' s else s)
      in free_virt_block (start_virt_addr + 4096) n
           (s1\<lparr>mm_virt_heap := (mm_virt_heap s1)(i := mm_virt_heap s1 i OR m)\<rparr>))"

definition find_free_virt_addr :: "u32 \<Rightarrow> 'a heap_st_scheme \<Rightarrow> nat option \<times> 'a heap_st_scheme" where
  "find_free_virt_addr len s =
     (let n = unat (drop_bit 12 (PAGE_ALIGN len)) in
      case bitmap_scan (mm_virt_heap s) (HEAP_SIZE div (8 * 4096)) n 0 0 of
        None \<Rightarrow> (None, s)
      | Some page \<Rightarrow> let addr = HEAP_START s + page * 4096 in
          (Some addr, alloc_virt_block addr n s))"

subsection \<open>Areas\<close>

definition init_new_allocated_block ::
  "nat \<Rightarrow> nat \<Rightarrow> bool \<Rightarrow> 'a heap_st_scheme \<Rightarrow> 'a heap_st_scheme" where
  "init_new_allocated_block virt_addr n virt s =
     s\<lparr>heap := (virt_addr, \<lparr>page_size = bits31 (n + 4294967296 - sizeof_heap_list), virtual = virt\<rparr>) # heap s,
       headers := (headers s)(virt_addr + sizeof_heap_list :=
         \<lparr>hsize = bits31 (n + 4294967296 - sizeof_heap_list - sizeof_alloc_header), hfree = True\<rparr>)\<rparr>"

text \<open>
  The loop of \<^verbatim>\<open>try_allocate\<close>: first fit among the headers below \<open>bound\<close>; the block is cut when
  it is larger than a header and 16 bytes.
\<close>

function try_walk :: "(nat \<Rightarrow> alloc_header) \<Rightarrow> nat \<Rightarrow> nat \<Rightarrow> nat \<Rightarrow> (nat \<times> (nat \<Rightarrow> alloc_header)) option" where
  "try_walk h head bound alloc_size =
     (if head < bound
      then if alloc_size < hsize (h head) \<and> hfree (h head)
           then let new_head = head + sizeof_alloc_header + alloc_size;
                    h' = (if hsize (h head) > sizeof_alloc_header + 16
                          then h(new_head := \<lparr>hsize = bits31 (hsize (h head) + 4294967296 -
                                                  (sizeof_alloc_header + alloc_size)), hfree = True\<rparr>,
                                 head := (h head)\<lparr>hsize := alloc_size\<rparr>)
                          else h)
                in Some (head + sizeof_alloc_header, h'(head := (h' head)\<lparr>hfree := False\<rparr>))
           else try_walk h (head + sizeof_alloc_header + hsize (h head)) bound alloc_size
      else None)"
  by pat_completeness auto
termination
  by (relation "measure (\<lambda>(h, head, bound, n). bound - head)") (auto simp: sizeof_alloc_header_def)

declare try_walk.simps [simp del]

definition try_allocate ::
  "nat \<times> heap_list \<Rightarrow> u32 \<Rightarrow> 'a heap_st_scheme \<Rightarrow> nat option \<times> 'a heap_st_scheme" where
  "try_allocate entry alloc_size s =
     (case try_walk (headers s) (fst entry + sizeof_heap_list) (fst entry + page_size (snd entry))
             (unat (MALLOC_ALIGN alloc_size)) of
        None \<Rightarrow> (None, s)
      | Some (p, h) \<Rightarrow> (Some p, s\<lparr>headers := h\<rparr>))"

text \<open>The loop over the areas that \<^verbatim>\<open>kmalloc\<close> (areas that are not virtual) and \<^verbatim>\<open>vmalloc\<close> share.\<close>

fun try_areas ::
  "bool \<Rightarrow> (nat \<times> heap_list) list \<Rightarrow> u32 \<Rightarrow> 'a heap_st_scheme \<Rightarrow> nat option \<times> 'a heap_st_scheme" where
  "try_areas virt [] n s = (None, s)"
| "try_areas virt (e # es) n s =
     (if virtual (snd e) = virt \<and> page_size (snd e) \<noteq> 0
      then case try_allocate e n s of
             (None, s') \<Rightarrow> try_areas virt es n s'
           | (Some p, s') \<Rightarrow> (Some p, s')
      else try_areas virt es n s)"

subsection \<open>kmalloc and vmalloc\<close>

abbreviation area_size :: "u32 \<Rightarrow> u32" where
  "area_size n \<equiv> PAGE_ALIGN (n + of_nat sizeof_heap_list + of_nat sizeof_alloc_header)"

abbreviation pages_of :: "u32 \<Rightarrow> nat" where
  "pages_of n \<equiv> unat (drop_bit 12 n)"

definition kmalloc :: "u32 \<Rightarrow> 'a heap_st_scheme \<Rightarrow> nat option \<times> 'a heap_st_scheme" where
  "kmalloc n s =
     (if n = 0 then (None, s)
      else case try_areas False (heap s) n s of
        (Some ret, s1) \<Rightarrow> (Some ret, s1)
      | (None, s1) \<Rightarrow>
        (case find_free_virt_addr (area_size n) s1 of
           (None, s2) \<Rightarrow> (None, s2)
         | (Some new_virt_addr, s2) \<Rightarrow>
           (case get_phys_block (pages_of (area_size n)) s2 of (new_phys_addr, s3) \<Rightarrow>
              if new_phys_addr = 0
              then (None, free_virt_block new_virt_addr (pages_of (PAGE_ALIGN n)) s3)
              else case page_map_range new_phys_addr (of_nat new_virt_addr)
                          (PAGE_WRITE OR PAGE_PRESENT) (pages_of (area_size n)) s3 of (err, s4) \<Rightarrow>
                if err \<noteq> 0
                then (None, free_virt_block new_virt_addr (pages_of (PAGE_ALIGN n))
                              (free_phys_block new_phys_addr (pages_of (PAGE_ALIGN n)) s4))
                else let s5 = init_new_allocated_block new_virt_addr (unat (area_size n)) False s4
                     in try_allocate (hd (heap s5)) n s5)))"

datatype vmap_result = Vmapped | Vno_phys | Vmap_failed u32

function vmap_loop ::
  "nat \<Rightarrow> nat \<Rightarrow> nat \<Rightarrow> 'a heap_st_scheme \<Rightarrow> vmap_result \<times> nat \<times> 'a heap_st_scheme" where
  "vmap_loop tmp_virt_addr stop last_mapped s =
     (if tmp_virt_addr < stop
      then case get_phys_block 1 s of (new_phys_addr, s1) \<Rightarrow>
        if new_phys_addr = 0 then (Vno_phys, last_mapped, s1)
        else case page_map new_phys_addr (of_nat tmp_virt_addr) (PAGE_WRITE OR PAGE_PRESENT) s1 of
          (err, s2) \<Rightarrow>
            if err \<noteq> 0 then (Vmap_failed new_phys_addr, last_mapped, s2)
            else vmap_loop (tmp_virt_addr + 4096) stop tmp_virt_addr s2
      else (Vmapped, last_mapped, s))"
  by pat_completeness auto
termination
  by (relation "measure (\<lambda>(tmp, stop, l, s). stop - tmp)") auto

declare vmap_loop.simps [simp del]

function free_mapped_pages :: "nat \<Rightarrow> nat \<Rightarrow> 'a heap_st_scheme \<Rightarrow> 'a heap_st_scheme" where
  "free_mapped_pages tmp_virt_addr stop s =
     (if tmp_virt_addr < stop
      then case page_get_phys (of_nat tmp_virt_addr) s of (phys, s1) \<Rightarrow>
             free_mapped_pages (tmp_virt_addr + 4096) stop (free_phys_block phys 1 s1)
      else s)"
  by pat_completeness auto
termination
  by (relation "measure (\<lambda>(tmp, stop, s). stop - tmp)") auto

declare free_mapped_pages.simps [simp del]

definition vmalloc :: "u32 \<Rightarrow> 'a heap_st_scheme \<Rightarrow> nat option \<times> 'a heap_st_scheme" where
  "vmalloc n s =
     (if n = 0 then (None, s)
      else case try_areas True (heap s) n s of
        (Some ret, s1) \<Rightarrow> (Some ret, s1)
      | (None, s1) \<Rightarrow>
        (case find_free_virt_addr (area_size n) s1 of
           (None, s2) \<Rightarrow> (None, s2)
         | (Some new_virt_addr, s2) \<Rightarrow>
           (case vmap_loop new_virt_addr (new_virt_addr + unat (area_size n)) new_virt_addr s2 of
              (Vmapped, _, s3) \<Rightarrow>
                (let s4 = init_new_allocated_block new_virt_addr (unat (area_size n)) True s3
                 in try_allocate (hd (heap s4)) n s4)
            | (Vno_phys, last_mapped, s3) \<Rightarrow>
                (None, free_virt_block new_virt_addr (pages_of (PAGE_ALIGN n))
                         (free_mapped_pages new_virt_addr last_mapped s3))
            | (Vmap_failed new_phys_addr, last_mapped, s3) \<Rightarrow>
                (None, free_virt_block new_virt_addr (pages_of (PAGE_ALIGN n))
                         (free_mapped_pages new_virt_addr last_mapped
                            (free_phys_block new_phys_addr 1 s3))))))"

subsection \<open>kfree and vfree\<close>

text \<open>The inner loop of the defragmentation: \<open>head\<close> takes in the free blocks that follow.\<close>

function merge_free :: "(nat \<Rightarrow> alloc_header) \<Rightarrow> nat \<Rightarrow> nat \<Rightarrow> nat \<Rightarrow> (nat \<Rightarrow> alloc_header)" where
  "merge_free h head tmp bound =
     (if tmp < bound \<and> hfree (h tmp)
      then let h' = h(head := (h head)\<lparr>hsize := bits31 (hsize (h head) + (hsize (h tmp) + sizeof_alloc_header))\<rparr>)
           in merge_free h' head (tmp + sizeof_alloc_header + hsize (h' tmp)) bound
      else h)"
  by pat_completeness auto
termination
  by (relation "measure (\<lambda>(h, head, tmp, bound). bound - tmp)") (auto simp: sizeof_alloc_header_def)

function defrag_loop :: "(nat \<Rightarrow> alloc_header) \<Rightarrow> nat \<Rightarrow> nat \<Rightarrow> (nat \<Rightarrow> alloc_header)" where
  "defrag_loop h head bound =
     (if head < bound
      then if \<not> hfree (h head)
           then defrag_loop h (head + sizeof_alloc_header + hsize (h head)) bound
           else let h' = merge_free h head (head + sizeof_alloc_header + hsize (h head)) bound
                in defrag_loop h' (head + sizeof_alloc_header + hsize (h' head)) bound
      else h)"
  by pat_completeness auto
termination
  by (relation "measure (\<lambda>(h, head, bound). bound - head)") (auto simp: sizeof_alloc_header_def)

declare merge_free.simps [simp del] defrag_loop.simps [simp del]

definition remove_area :: "nat \<Rightarrow> 'a heap_st_scheme \<Rightarrow> 'a heap_st_scheme" where
  "remove_area a s = s\<lparr>heap := filter (\<lambda>e. fst e \<noteq> a) (heap s)\<rparr>"

abbreviation defragged :: "nat \<times> heap_list \<Rightarrow> 'a heap_st_scheme \<Rightarrow> 'a heap_st_scheme" where
  "defragged entry s \<equiv> s\<lparr>headers :=
     defrag_loop (headers s) (fst entry + sizeof_heap_list) (fst entry + page_size (snd entry))\<rparr>"

definition all_free :: "nat \<times> heap_list \<Rightarrow> (nat \<Rightarrow> alloc_header) \<Rightarrow> bool" where
  "all_free entry h \<longleftrightarrow> (let start = h (fst entry + sizeof_heap_list) in
     page_size (snd entry) = hsize start + sizeof_alloc_header \<and> hfree start)"

definition kdefrag :: "nat \<times> heap_list \<Rightarrow> 'a heap_st_scheme \<Rightarrow> 'a heap_st_scheme" where
  "kdefrag entry s =
     (let s1 = defragged entry s;
          n = pages_of (PAGE_ALIGN (of_nat (page_size (snd entry))))
      in if all_free entry (headers s1)
         then let s2 = free_virt_block (fst entry) n (remove_area (fst entry) s1)
              in case page_get_phys (of_nat (fst entry)) s2 of (phys, s3) \<Rightarrow> free_phys_block phys n s3
         else s1)"

definition vdefrag :: "nat \<times> heap_list \<Rightarrow> 'a heap_st_scheme \<Rightarrow> 'a heap_st_scheme" where
  "vdefrag entry s =
     (let s1 = defragged entry s;
          len = PAGE_ALIGN (of_nat (page_size (snd entry)))
      in if all_free entry (headers s1)
         then free_virt_block (fst entry) (pages_of len)
                (free_mapped_pages (fst entry) (fst entry + unat len) (remove_area (fst entry) s1))
         else s1)"

text \<open>The header walk of \<^verbatim>\<open>_free\<close> and \<^verbatim>\<open>ksize\<close>: the header in front of \<open>ptr\<close>, if the area has it.\<close>

function find_header :: "(nat \<Rightarrow> alloc_header) \<Rightarrow> nat \<Rightarrow> nat \<Rightarrow> nat \<Rightarrow> nat option" where
  "find_header h head bound ptr =
     (if head < bound
      then if ptr = head + sizeof_alloc_header then Some head
           else find_header h (head + sizeof_alloc_header + hsize (h head)) bound ptr
      else None)"
  by pat_completeness auto
termination
  by (relation "measure (\<lambda>(h, head, bound, ptr). bound - head)") (auto simp: sizeof_alloc_header_def)

declare find_header.simps [simp del]

fun free_in ::
  "(nat \<times> heap_list) list \<Rightarrow> nat \<Rightarrow> (nat \<times> heap_list \<Rightarrow> 'a heap_st_scheme \<Rightarrow> 'a heap_st_scheme) \<Rightarrow>
   'a heap_st_scheme \<Rightarrow> 'a heap_st_scheme" where
  "free_in [] ptr defrag s = s"
| "free_in (e # es) ptr defrag s =
     (if ptr > fst e
      then case find_header (headers s) (fst e + sizeof_heap_list) (fst e + page_size (snd e)) ptr of
             Some head \<Rightarrow>
               defrag e (s\<lparr>headers := (headers s)(head := (headers s head)\<lparr>hfree := True\<rparr>)\<rparr>)
           | None \<Rightarrow> free_in es ptr defrag s
      else free_in es ptr defrag s)"

definition free_with ::
  "nat \<Rightarrow> (nat \<times> heap_list \<Rightarrow> 'a heap_st_scheme \<Rightarrow> 'a heap_st_scheme) \<Rightarrow>
   'a heap_st_scheme \<Rightarrow> 'a heap_st_scheme" where
  "free_with ptr defrag s = (if ptr = 0 then s else free_in (heap s) ptr defrag s)"

definition kfree :: "nat \<Rightarrow> 'a heap_st_scheme \<Rightarrow> 'a heap_st_scheme" where
  "kfree ptr s = free_with ptr kdefrag s"

definition vfree :: "nat \<Rightarrow> 'a heap_st_scheme \<Rightarrow> 'a heap_st_scheme" where
  "vfree ptr s = free_with ptr vdefrag s"

fun size_in :: "(nat \<times> heap_list) list \<Rightarrow> nat \<Rightarrow> (nat \<Rightarrow> alloc_header) \<Rightarrow> nat" where
  "size_in [] ptr h = 0"
| "size_in (e # es) ptr h =
     (if ptr > fst e
      then case find_header h (fst e + sizeof_heap_list) (fst e + page_size (snd e)) ptr of
             Some head \<Rightarrow> hsize (h head)
           | None \<Rightarrow> size_in es ptr h
      else size_in es ptr h)"

definition ksize :: "nat \<Rightarrow> 'a heap_st_scheme \<Rightarrow> nat" where
  "ksize ptr s = size_in (heap s) ptr (headers s)"

definition vsize :: "nat \<Rightarrow> 'a heap_st_scheme \<Rightarrow> nat" where
  "vsize ptr s = ksize ptr s"

subsection \<open>Setting up\<close>

definition heap_setup :: "'a heap_st_scheme \<Rightarrow> 'a heap_st_scheme" where
  "heap_setup s = s\<lparr>heap := [],
     mm_virt_heap := (\<lambda>i. if i < HEAP_SIZE div 8 then - 1 else mm_virt_heap s i)\<rparr>"

definition page_setup :: "'a heap_st_scheme \<Rightarrow> 'a heap_st_scheme" where
  "page_setup s =
     (let s1 = s\<lparr>page_directory := snd (page_entry_remove (drop_bit 22 0) (page_directory s))\<rparr>;
          s2 = page_setup_kernel_section s1;
          s3 = s2\<lparr>page_directory := snd (page_entry_set (drop_bit 22 0xC0000000)
                   (KERNEL_GET_REAL (kernel_page (lay s2))) PAGE_PRESENT (page_directory s2))\<rparr>
      in heap_setup s3)"

end
