(* ===== verification/Heap_Chain.thy ===== *)
theory Heap_Chain
  imports Kmalloc
begin

text \<open>
  The header chains of the heap as lists. An area is tiled by blocks when walking from header
  to header reaches its end exactly; the walks of \<^verbatim>\<open>try_allocate\<close>, \<^verbatim>\<open>kdefrag\<close> and \<^verbatim>\<open>_free\<close> then are
  operations on the list of blocks: cutting or taking a block, joining neighbours, finding one.
\<close>

type_synonym blocks = "(nat \<times> alloc_header) list"

primrec seg :: "nat \<Rightarrow> nat \<Rightarrow> blocks \<Rightarrow> bool" where
  "seg p e [] \<longleftrightarrow> p = e"
| "seg p e (x # xs) \<longleftrightarrow> fst x = p \<and> 16 dvd hsize (snd x) \<and> seg (p + 16 + hsize (snd x)) e xs"

definition matches :: "(nat \<Rightarrow> alloc_header) \<Rightarrow> blocks \<Rightarrow> bool" where
  "matches h xs \<longleftrightarrow> (\<forall>x \<in> set xs. h (fst x) = snd x)"

function chain :: "(nat \<Rightarrow> alloc_header) \<Rightarrow> nat \<Rightarrow> nat \<Rightarrow> blocks" where
  "chain h p e = (if p < e then (p, h p) # chain h (p + 16 + hsize (h p)) e else [])"
  by pat_completeness auto
termination
  by (relation "measure (\<lambda>(h, p, e). e - p)") auto

declare chain.simps [simp del]

lemma matches_simps [simp]:
  "matches h []" "matches h (x # xs) \<longleftrightarrow> h (fst x) = snd x \<and> matches h xs"
  "matches h (xs @ ys) \<longleftrightarrow> matches h xs \<and> matches h ys"
  by (auto simp: matches_def)

lemma matches_cong: "(\<And>x. x \<in> set xs \<Longrightarrow> h' (fst x) = h (fst x)) \<Longrightarrow> matches h' xs = matches h xs"
  by (auto simp: matches_def)

lemma seg_append: "seg p e (xs @ ys) \<longleftrightarrow> (\<exists>m. seg p m xs \<and> seg m e ys)"
  by (induction xs arbitrary: p) auto

lemma seg_le: "seg p e xs \<Longrightarrow> p \<le> e"
  by (induction xs arbitrary: p) (auto, fastforce)

lemma seg_mem:
  assumes "seg p e xs" "x \<in> set xs"
  shows "p \<le> fst x" "fst x + 16 + hsize (snd x) \<le> e" "16 dvd hsize (snd x)" "16 dvd fst x - p"
proof -
  obtain ys zs where xs: "xs = ys @ x # zs" using assms(2) by (meson split_list)
  with assms(1) have s: "seg p (fst x) ys" "16 dvd hsize (snd x)" "seg (fst x + 16 + hsize (snd x)) e zs"
    by (auto simp: seg_append)
  show "p \<le> fst x" "fst x + 16 + hsize (snd x) \<le> e" "16 dvd hsize (snd x)"
    using s seg_le by auto
  have "16 dvd q - p" if "seg p q ws" for q ws
    using that
  proof (induction ws arbitrary: p)
    case (Cons w ws)
    then have "16 dvd q - (p + 16 + hsize (snd w))" "p + 16 + hsize (snd w) \<le> q" "16 dvd hsize (snd w)"
      using seg_le by auto
    then obtain k l where "q - (p + 16 + hsize (snd w)) = 16 * k" "hsize (snd w) = 16 * l"
      by (auto elim!: dvdE)
    then have "q - p = 16 * (k + l + 1)" using \<open>p + 16 + hsize (snd w) \<le> q\<close> by simp
    then show ?case by (metis dvd_triv_left)
  qed simp
  with s(1) show "16 dvd fst x - p" by blast
qed

lemma seg_sorted: "seg p e xs \<Longrightarrow> sorted_wrt (\<lambda>x y. fst x + 16 + hsize (snd x) \<le> fst y) xs"
proof (induction xs arbitrary: p)
  case (Cons x xs)
  then show ?case using seg_mem(1) [of "p + 16 + hsize (snd x)" e xs] by auto
qed simp

lemma chain_eq: "seg p e xs \<Longrightarrow> matches h xs \<Longrightarrow> chain h p e = xs"
proof (induction xs arbitrary: p)
  case Nil
  then show ?case by (subst chain.simps) simp
next
  case (Cons x xs)
  moreover from Cons.prems have "p < e" using seg_le by fastforce
  ultimately show ?case by (subst chain.simps) (cases x, simp)
qed

lemma chain_matches: "matches h (chain h p e)"
proof (induction "e - p" arbitrary: p rule: less_induct)
  case less
  then show ?case by (subst chain.simps) simp
qed

lemma chain_cong:
  assumes "seg p e (chain h p e)" "\<And>a. p \<le> a \<Longrightarrow> a < e \<Longrightarrow> h' a = h a"
  shows "chain h' p e = chain h p e"
proof (rule chain_eq [OF assms(1)])
  have "matches h' (chain h p e) = matches h (chain h p e)"
    using seg_mem(1,2) [OF assms(1)] assms(2) by (intro matches_cong) fastforce
  then show "matches h' (chain h p e)" using chain_matches by simp
qed

subsection \<open>First fit\<close>

definition fits :: "nat \<Rightarrow> nat \<Rightarrow> nat \<times> alloc_header \<Rightarrow> bool" where
  "fits bound n x \<longleftrightarrow> fst x < bound \<and> n < hsize (snd x) \<and> hfree (snd x)"

definition take_block :: "nat \<Rightarrow> nat \<times> alloc_header \<Rightarrow> blocks" where
  "take_block n x =
     (if hsize (snd x) > 32
      then [(fst x, \<lparr>hsize = n, hfree = False\<rparr>),
            (fst x + 16 + n, \<lparr>hsize = hsize (snd x) - 16 - n, hfree = True\<rparr>)]
      else [(fst x, \<lparr>hsize = hsize (snd x), hfree = False\<rparr>)])"

definition write_blocks :: "blocks \<Rightarrow> (nat \<Rightarrow> alloc_header) \<Rightarrow> (nat \<Rightarrow> alloc_header)" where
  "write_blocks bs h = fold (\<lambda>(a, b) h. h(a := b)) bs h"

lemma try_walk_step:
  assumes "head < bound" "hsize (h head) < 2147483648" "16 dvd n" "16 dvd hsize (h head)"
  shows "try_walk h head bound n =
     (if n < hsize (h head) \<and> hfree (h head)
      then Some (head + 16, write_blocks (take_block n (head, h head)) h)
      else try_walk h (head + 16 + hsize (h head)) bound n)"
proof -
  have cut: "bits31 (hsize (h head) + 4294967296 - (16 + n)) = hsize (h head) - 16 - n"
    if "n < hsize (h head)"
  proof -
    have "n + 16 \<le> hsize (h head)"
      using that assms(3,4) by (auto elim!: dvdE)
    then have "hsize (h head) + 4294967296 - (16 + n) = hsize (h head) - 16 - n + 2147483648 * 2" by simp
    then show ?thesis
      using assms(2) by (simp only: bits31_def mod_mult_self2) simp
  qed
  show ?thesis
    using assms cut
    by (subst try_walk.simps)
       (auto simp: Let_def sizeof_defs write_blocks_def take_block_def fun_upd_def fun_eq_iff)
qed

text \<open>The walk finds the first block that fits, or there is none.\<close>

lemma try_walk_find:
  assumes "seg p e xs" "matches h xs" "bound \<le> e" "e < p + 2147483648" "16 dvd n"
  shows "try_walk h p bound n =
    (case find (fits bound n) xs of
       None \<Rightarrow> None
     | Some x \<Rightarrow> Some (fst x + 16, write_blocks (take_block n x) h))"
  using assms
proof (induction xs arbitrary: p)
  case Nil
  then show ?case by (subst try_walk.simps) simp
next
  case (Cons x xs)
  then have x: "fst x = p" "h p = snd x" "16 dvd hsize (snd x)" "seg (p + 16 + hsize (snd x)) e xs" "matches h xs"
    by auto
  have small: "hsize (snd x) < 2147483648" using seg_le [OF x(4)] Cons.prems(4) by simp
  have IH: "try_walk h (p + 16 + hsize (snd x)) bound n =
    (case find (fits bound n) xs of None \<Rightarrow> None
     | Some x \<Rightarrow> Some (fst x + 16, write_blocks (take_block n x) h))"
    using Cons.IH [OF x(4,5) Cons.prems(3)] Cons.prems(4,5) by simp
  show ?case
  proof (cases "p < bound")
    case True
    then have "fits bound n x \<longleftrightarrow> n < hsize (snd x) \<and> hfree (snd x)" using x(1) by (simp add: fits_def)
    with True show ?thesis
      using try_walk_step [OF True, of h n] small Cons.prems(5) x IH by (cases x) simp
  next
    case False
    have "\<not> fits bound n y" if "y \<in> set (x # xs)" for y
      using seg_mem(1) [OF Cons.prems(1) that] False by (simp add: fits_def)
    then have "find (fits bound n) (x # xs) = None" by (subst find_None_iff) blast
    with False show ?thesis by (subst try_walk.simps) simp
  qed
qed

lemma take_block_ok:
  assumes "seg p e (ys @ x # zs)" "matches h (ys @ x # zs)" "n < hsize (snd x)" "16 dvd n"
  shows "seg p e (ys @ take_block n x @ zs)"
    "matches (write_blocks (take_block n x) h) (ys @ take_block n x @ zs)"
    "\<And>a. a < p \<or> e \<le> a \<Longrightarrow> write_blocks (take_block n x) h a = h a"
proof -
  from assms(1) have s: "seg p (fst x) ys" "16 dvd hsize (snd x)" "seg (fst x + 16 + hsize (snd x)) e zs"
    by (auto simp: seg_append)
  have le: "n + 16 \<le> hsize (snd x)" using assms(3,4) s(2) by (auto elim!: dvdE)
  then have d: "16 dvd hsize (snd x) - 16 - n" using s(2) assms(4) by (simp add: dvd_diff_nat)
  have new: "seg (fst x) (fst x + 16 + hsize (snd x)) (take_block n x)"
    using le d s(2) assms(4) by (simp add: take_block_def)
  then show "seg p e (ys @ take_block n x @ zs)" using s by (auto simp: seg_append)
  have in_x: "write_blocks (take_block n x) h a = h a" if "a < fst x \<or> fst x + 16 + hsize (snd x) \<le> a" for a
    using that le by (auto simp: write_blocks_def take_block_def)
  have "matches (write_blocks (take_block n x) h) ys = matches h ys"
    using seg_mem(2) [OF s(1)] in_x by (intro matches_cong) fastforce
  moreover have "matches (write_blocks (take_block n x) h) zs = matches h zs"
    using seg_mem(1) [OF s(3)] in_x by (intro matches_cong) auto
  moreover have "matches (write_blocks (take_block n x) h) (take_block n x)"
    by (simp add: write_blocks_def take_block_def)
  ultimately show "matches (write_blocks (take_block n x) h) (ys @ take_block n x @ zs)"
    using assms(2) by simp
  show "\<And>a. a < p \<or> e \<le> a \<Longrightarrow> write_blocks (take_block n x) h a = h a"
    using in_x seg_le [OF s(1)] seg_le [OF s(3)] by force
qed

subsection \<open>Joining free blocks\<close>

abbreviation used :: "blocks \<Rightarrow> blocks" where
  "used xs \<equiv> filter (\<lambda>x. \<not> hfree (snd x)) xs"

lemma merge_free_step:
  assumes "tmp < bound" "hfree (h tmp)" "tmp \<noteq> head"
  shows "merge_free h head tmp bound =
    merge_free (h(head := (h head)\<lparr>hsize := bits31 (hsize (h head) + (hsize (h tmp) + 16))\<rparr>))
      head (tmp + 16 + hsize (h tmp)) bound"
  using assms by (subst merge_free.simps) (simp add: Let_def sizeof_defs)

lemma merge_free_stop: "\<not> (tmp < bound \<and> hfree (h tmp)) \<Longrightarrow> merge_free h head tmp bound = h"
  by (subst merge_free.simps, subst if_not_P) simp_all

lemma merge_free_chain:
  assumes "seg p e ((p, b) # ys)" "matches h ((p, b) # ys)" "hfree b" "bound \<le> e" "e < p + 2147483648"
  shows "\<exists>b' zs. seg p e ((p, b') # zs) \<and>
    matches (merge_free h p (p + 16 + hsize b) bound) ((p, b') # zs) \<and> hfree b' \<and>
    used zs = used ys \<and> length zs \<le> length ys \<and>
    (\<forall>a. a \<noteq> p \<longrightarrow> merge_free h p (p + 16 + hsize b) bound a = h a)"
  using assms
proof (induction ys arbitrary: b h)
  case Nil
  then have "\<not> p + 16 + hsize b < bound" by simp
  then show ?case using Nil.prems by (intro exI [of _ b] exI [of _ "[]"]) (simp add: merge_free_stop)
next
  case (Cons y ys)
  let ?t = "p + 16 + hsize b"
  have y: "fst y = ?t" "h ?t = snd y" "16 dvd hsize (snd y)" "16 dvd hsize b" "h p = b"
    "seg (?t + 16 + hsize (snd y)) e ys" "matches h ys"
    using Cons.prems(1,2) by auto
  show ?case
  proof (cases "?t < bound \<and> hfree (h ?t)")
    case False
    then show ?thesis using Cons.prems by (intro exI [of _ b] exI [of _ "y # ys"]) (simp add: merge_free_stop)
  next
    case True
    let ?b = "b\<lparr>hsize := hsize b + (hsize (snd y) + 16)\<rparr>" and ?h = "h(p := b\<lparr>hsize := hsize b + (hsize (snd y) + 16)\<rparr>)"
    have "hsize b + (hsize (snd y) + 16) < 2147483648"
      using seg_le [OF y(6)] Cons.prems(5) by simp
    then have m: "merge_free h p ?t bound = merge_free ?h p (p + 16 + hsize ?b) bound"
      using merge_free_step [of ?t bound h p] True y(2,5) by (simp add: bits31_def add_ac)
    have S: "seg p e ((p, ?b) # ys)" using y(3,4,6) by (simp add: add_ac)
    have M: "matches ?h ((p, ?b) # ys)"
    proof -
      have "matches ?h ys = matches h ys"
        using seg_mem(1) [OF y(6)] by (intro matches_cong) fastforce
      then show ?thesis using y(7) by simp
    qed
    have "hfree ?b" using Cons.prems(3) by simp
    from Cons.IH [OF S M this Cons.prems(4,5)] obtain b' zs where
      ih: "seg p e ((p, b') # zs)" "matches (merge_free ?h p (p + 16 + hsize ?b) bound) ((p, b') # zs)"
        "hfree b'" "used zs = used ys" "length zs \<le> length ys"
        "\<And>a. a \<noteq> p \<Longrightarrow> merge_free ?h p (p + 16 + hsize ?b) bound a = ?h a"
      by blast
    show ?thesis
      unfolding m using ih True y(2)
      by (intro exI [of _ b'] exI [of _ zs] conjI allI impI) simp_all
  qed
qed

lemma defrag_loop_stop: "\<not> head < bound \<Longrightarrow> defrag_loop h head bound = h"
  by (subst defrag_loop.simps) simp

lemma defrag_loop_used: "head < bound \<Longrightarrow> \<not> hfree (h head) \<Longrightarrow>
    defrag_loop h head bound = defrag_loop h (head + 16 + hsize (h head)) bound"
  by (subst defrag_loop.simps) (simp add: sizeof_defs)

lemma defrag_loop_free: "head < bound \<Longrightarrow> hfree (h head) \<Longrightarrow>
    merge_free h head (head + 16 + hsize (h head)) bound = h' \<Longrightarrow>
    defrag_loop h head bound = defrag_loop h' (head + 16 + hsize (h' head)) bound"
  by (subst defrag_loop.simps) (auto simp: sizeof_defs Let_def)

lemma defrag_loop_chain:
  assumes "seg p e xs" "matches h xs" "bound \<le> e" "e < p + 2147483648"
  shows "\<exists>ys. seg p e ys \<and> matches (defrag_loop h p bound) ys \<and> used ys = used xs \<and>
    (\<forall>a. a < p \<or> e \<le> a \<longrightarrow> defrag_loop h p bound a = h a)"
  using assms
proof (induction xs arbitrary: p h rule: length_induct)
  case (1 xs)
  show ?case
  proof (cases "p < bound")
    case False
    with 1 show ?thesis by (auto simp: defrag_loop_stop)
  next
    case True
    then have "xs \<noteq> []" using 1(2,4) by auto
    then obtain b ys where xs: "xs = (p, b) # ys" "h p = b"
      using 1(2,3) by (cases xs) auto
    have small: "e < p + 16 + hsize c + 2147483648" for c using 1(5) by simp
    show ?thesis
    proof (cases "hfree b")
      case False
      let ?q = "p + 16 + hsize b"
      have s: "seg ?q e ys" "matches h ys" "length ys < length xs" using 1(2,3) xs by auto
      obtain zs where zs: "seg ?q e zs" "matches (defrag_loop h ?q bound) zs" "used zs = used ys"
        "\<And>a. a < ?q \<or> e \<le> a \<Longrightarrow> defrag_loop h ?q bound a = h a"
        using 1(1) s 1(4) small by blast
      have d: "defrag_loop h p bound = defrag_loop h ?q bound"
        using defrag_loop_used [OF True] False xs(2) by simp
      show ?thesis
        using zs xs False 1(2) unfolding d by (intro exI [of _ "(p, b) # zs"]) auto
    next
      case free: True
      let ?h = "merge_free h p (p + 16 + hsize b) bound"
      obtain c ws where ws: "seg p e ((p, c) # ws)" "matches ?h ((p, c) # ws)" "hfree c" "used ws = used ys"
        "length ws \<le> length ys" "\<And>a. a \<noteq> p \<Longrightarrow> ?h a = h a"
        using merge_free_chain [of p e b ys h bound] 1(2-5) xs free by auto
      let ?q = "p + 16 + hsize c"
      have s: "seg ?q e ws" "matches ?h ws" "length ws < length xs" using ws(1,2,5) xs by auto
      obtain zs where zs: "seg ?q e zs" "matches (defrag_loop ?h ?q bound) zs" "used zs = used ws"
        "\<And>a. a < ?q \<or> e \<le> a \<Longrightarrow> defrag_loop ?h ?q bound a = ?h a"
        using 1(1) s 1(4) small by blast
      have d: "defrag_loop h p bound = defrag_loop ?h ?q bound"
        using defrag_loop_free [OF True, of h ?h] free xs(2) ws(2) by simp
      show ?thesis
        using zs xs free ws seg_le [OF 1(2)] seg_le [OF s(1)] unfolding d
        by (intro exI [of _ "(p, c) # zs"]) (auto simp: zs(4))
    qed
  qed
qed

subsection \<open>Finding a header\<close>

lemma find_header_chain:
  assumes "seg p e xs" "matches h xs" "bound \<le> e"
  shows "find_header h p bound (q + 16) =
    (if q \<in> fst ` set xs \<and> q < bound then Some q else None)"
  using assms
proof (induction xs arbitrary: p)
  case Nil
  then show ?case by (subst find_header.simps) simp
next
  case (Cons x xs)
  then have x: "fst x = p" "h p = snd x" "seg (p + 16 + hsize (snd x)) e xs" "matches h xs" by auto
  have "p < fst y" if "y \<in> set xs" for y using seg_mem(1) [OF x(3) that] by simp
  then have "p \<notin> fst ` set xs" "\<not> p < bound \<Longrightarrow> q \<in> fst ` set xs \<Longrightarrow> \<not> q < bound" by force+
  then show ?case
    using Cons.IH [OF x(3,4) Cons.prems(3)] x(1,2)
    by (subst find_header.simps) (auto simp: sizeof_defs)
qed

end
