(* ===== verification/Heap_Allocator.thy ===== *)
theory Heap_Allocator
  imports Kernel_Prelude
begin

text \<open>
  The contract of a heap: \<open>live\<close> is the set of blocks handed out, each with its address and
  length. The lemma of the locale is what a client relies on: over any sequence of its
  allocations and releases the memory it asked for never overlaps.
\<close>

datatype heap_op = Malloc u32 | Free nat

text \<open>
  A client that keeps the pointers it got, with the sizes it asked for; \<open>Free i\<close> releases the
  \<open>i\<close>-th of them and forgets it.
\<close>

fun heap_client_step ::
  "(u32 \<Rightarrow> 's \<Rightarrow> nat option \<times> 's) \<Rightarrow> (nat \<Rightarrow> 's \<Rightarrow> 's) \<Rightarrow> heap_op \<Rightarrow>
   's \<times> (nat \<times> nat) list \<Rightarrow> 's \<times> (nat \<times> nat) list" where
  "heap_client_step malloc release (Malloc n) (s, ps) =
     (case malloc n s of (None, s') \<Rightarrow> (s', ps) | (Some p, s') \<Rightarrow> (s', (p, unat n) # ps))"
| "heap_client_step malloc release (Free i) (s, ps) =
     (if i < length ps then (release (fst (ps ! i)) s, take i ps @ drop (Suc i) ps) else (s, ps))"

definition heap_client_run ::
  "(u32 \<Rightarrow> 's \<Rightarrow> nat option \<times> 's) \<Rightarrow> (nat \<Rightarrow> 's \<Rightarrow> 's) \<Rightarrow> heap_op list \<Rightarrow>
   's \<times> (nat \<times> nat) list \<Rightarrow> 's \<times> (nat \<times> nat) list" where
  "heap_client_run malloc release ops c = fold (heap_client_step malloc release) ops c"

definition apart :: "nat \<times> nat \<Rightarrow> nat \<times> nat \<Rightarrow> bool" where
  "apart x y \<longleftrightarrow> fst x + snd x < fst y \<or> fst y + snd y < fst x"

definition op_ok :: "heap_op \<Rightarrow> bool" where
  "op_ok e = (case e of Malloc n \<Rightarrow> unat n < 1073741824 | Free i \<Rightarrow> True)"

locale heap_allocator =
  fixes malloc :: "u32 \<Rightarrow> 's \<Rightarrow> nat option \<times> 's"
    and release :: "nat \<Rightarrow> 's \<Rightarrow> 's"
    and live :: "'s \<Rightarrow> (nat \<times> nat) set"
    and invar :: "'s \<Rightarrow> bool"
  assumes live_apart: "invar s \<Longrightarrow> x \<in> live s \<Longrightarrow> y \<in> live s \<Longrightarrow> x \<noteq> y \<Longrightarrow> apart x y"
    and malloc_some: "invar s \<Longrightarrow> unat n < 1073741824 \<Longrightarrow> malloc n s = (Some p, s') \<Longrightarrow>
      \<exists>m \<ge> unat n. p \<notin> fst ` live s \<and> live s' = insert (p, m) (live s)"
    and malloc_none: "invar s \<Longrightarrow> unat n < 1073741824 \<Longrightarrow> malloc n s = (None, s') \<Longrightarrow> live s' = live s"
    and malloc_invar: "invar s \<Longrightarrow> unat n < 1073741824 \<Longrightarrow> malloc n s = (r, s') \<Longrightarrow> invar s'"
    and release_live: "invar s \<Longrightarrow> (p, m) \<in> live s \<Longrightarrow>
      live (release p s) = live s - {(p, m)} \<and> invar (release p s)"
begin

text \<open>What the client holds is covered by distinct live blocks.\<close>

definition covered :: "'s \<times> (nat \<times> nat) list \<Rightarrow> bool" where
  "covered c \<longleftrightarrow> invar (fst c) \<and> distinct (map fst (snd c)) \<and>
     (\<forall>x \<in> set (snd c). \<exists>m \<ge> snd x. (fst x, m) \<in> live (fst c))"

lemma live_functional: "invar s \<Longrightarrow> (p, m) \<in> live s \<Longrightarrow> (p, k) \<in> live s \<Longrightarrow> m = k"
  using live_apart [of s "(p, m)" "(p, k)"] by (auto simp: apart_def)

lemma covered_step:
  assumes "covered c" "op_ok e"
  shows "covered (heap_client_step malloc release e c)"
proof (cases e)
  case (Malloc n)
  obtain s ps where c: "c = (s, ps)" by (cases c)
  obtain r s' where r: "malloc n s = (r, s')" by (cases "malloc n s")
  have n: "unat n < 1073741824" using assms(2) Malloc by (simp add: op_ok_def)
  have inv: "invar s" "invar s'" using assms(1) c malloc_invar [OF _ n r] by (auto simp: covered_def)
  show ?thesis
  proof (cases r)
    case None
    with r malloc_none [OF inv(1) n] assms(1) inv c Malloc show ?thesis by (simp add: covered_def)
  next
    case (Some p)
    obtain m where m: "m \<ge> unat n" "p \<notin> fst ` live s" "live s' = insert (p, m) (live s)"
      using malloc_some [OF inv(1) n r [unfolded Some]] by blast
    have "fst x \<in> fst ` live s" if x: "x \<in> set ps" for x
    proof -
      have "\<forall>x \<in> set ps. \<exists>m \<ge> snd x. (fst x, m) \<in> live s" using assms(1) c by (simp add: covered_def)
      then obtain k where "(fst x, k) \<in> live s" using x by blast
      then show ?thesis by (rule image_eqI [rotated]) simp
    qed
    then have "p \<notin> fst ` set ps" using m(2) by blast
    with m assms(1) inv c Malloc r Some show ?thesis by (auto simp: covered_def)
  qed
next
  case (Free i)
  obtain s ps where c: "c = (s, ps)" by (cases c)
  show ?thesis
  proof (cases "i < length ps")
    case False
    with c Free assms(1) show ?thesis by simp
  next
    case True
    have inv: "invar s" "distinct (map fst ps)" and cov: "\<And>x. x \<in> set ps \<Longrightarrow> \<exists>m \<ge> snd x. (fst x, m) \<in> live s"
      using assms(1) c by (auto simp: covered_def)
    have ps: "ps = take i ps @ ps ! i # drop (Suc i) ps" using True by (rule id_take_nth_drop)
    let ?qs = "take i ps @ drop (Suc i) ps"
    have "distinct (map fst (take i ps @ ps ! i # drop (Suc i) ps))" using inv(2) ps by simp
    then have qs: "distinct (map fst ?qs)" "fst (ps ! i) \<notin> fst ` set ?qs" by auto
    have sub: "set ?qs \<subseteq> set ps" by (auto dest: in_set_takeD in_set_dropD)
    obtain m where m: "(fst (ps ! i), m) \<in> live s" using cov [OF nth_mem [OF True]] by blast
    have rel: "live (release (fst (ps ! i)) s) = live s - {(fst (ps ! i), m)}" "invar (release (fst (ps ! i)) s)"
      using release_live [OF inv(1) m] by auto
    have "\<exists>m \<ge> snd x. (fst x, m) \<in> live (release (fst (ps ! i)) s)" if x: "x \<in> set ?qs" for x
    proof -
      have "fst x \<noteq> fst (ps ! i)" using x qs(2) by (metis image_eqI)
      then show ?thesis using cov [of x] x sub by (auto simp: rel(1))
    qed
    then show ?thesis using c Free True rel(2) qs(1) by (auto simp: covered_def)
  qed
qed

lemma covered_apart:
  assumes "covered (s, ps)" "i < j" "j < length ps"
  shows "apart (ps ! i) (ps ! j)"
proof -
  have ne: "fst (ps ! i) \<noteq> fst (ps ! j)"
    using assms by (simp add: covered_def distinct_conv_nth)
  have cov: "\<exists>m \<ge> snd x. (fst x, m) \<in> live s" if "x \<in> set ps" for x
    using assms(1) that by (simp add: covered_def)
  obtain m k where "m \<ge> snd (ps ! i)" "(fst (ps ! i), m) \<in> live s" "k \<ge> snd (ps ! j)" "(fst (ps ! j), k) \<in> live s"
    using cov [of "ps ! i"] cov [of "ps ! j"] assms(2,3) by auto
  with ne live_apart [of s "(fst (ps ! i), m)" "(fst (ps ! j), k)"] assms(1) show ?thesis
    by (auto simp: covered_def apart_def)
qed

lemma client_apart:
  assumes "invar s" "list_all op_ok ops" "heap_client_run malloc release ops (s, []) = (s', ps)"
  shows "sorted_wrt apart ps"
proof -
  have "covered (heap_client_run malloc release ops c)" if "covered c" for c
    using that assms(2) by (induction ops arbitrary: c) (auto simp: heap_client_run_def covered_step)
  from this [of "(s, [])"] have "covered (s', ps)" using assms by (simp add: covered_def)
  then show ?thesis using covered_apart by (simp add: sorted_wrt_iff_nth_less)
qed

end

end
