(* ===== verification/Paging_Correct.thy ===== *)
theory Paging_Correct
  imports Paging
begin

text \<open>
  Correctness of the page table operations with respect to address translation: what
  mapping and unmapping a page changes of \<open>translate\<close>, that the invariant \<open>vm_wf\<close> is kept,
  and that looking an address up in software computes the translation. The contract that
  the callers of \<^verbatim>\<open>page_map\<close> use is the locale \<open>address_space\<close>, in which the range loop is
  verified; the page tables interpret it.
\<close>

subsection \<open>Writing one entry through the window\<close>

definition put_pte :: "u32 \<Rightarrow> nat \<Rightarrow> u32 \<Rightarrow> 'a vm_st_scheme \<Rightarrow> 'a vm_st_scheme" where
  "put_pte f i e s = s\<lparr>pmem := (pmem s)
     (kernel_page_frame s := (pmem s (kernel_page_frame s))
        (unat (window_index (page_swap (lay s))) := f OR (PAGE_WRITE OR PAGE_PRESENT)),
      f := (pmem s f)(i := e))\<rparr>"

lemma access_table_ok:
  assumes "window_index (page_swap (lay s)) < 1024" "f AND PAGE_FLAG = 0"
  shows "access_table_with_physical (page_swap (lay s)) f s =
    (0, s\<lparr>pmem := (pmem s)(kernel_page_frame s := (pmem s (kernel_page_frame s))
       (unat (window_index (page_swap (lay s))) := f OR (PAGE_WRITE OR PAGE_PRESENT)))\<rparr>)"
  using assms by (simp add: access_table_with_physical_def page_entry_set_def not_le [symmetric])

lemma access_then_set:
  assumes "window_index (page_swap (lay s)) < 1024" "f AND PAGE_FLAG = 0"
    "f \<noteq> kernel_page_frame s" "i < 1024" "p AND PAGE_FLAG = 0" "flag AND PAGE_ADDR = 0"
    "access_table_with_physical (page_swap (lay s)) f s = (err, s1)"
  shows "err = 0" "window_entry_set (page_swap (lay s)) i p flag s1 = (0, put_pte f (unat i) (p OR flag) s)"
    "window_frame (page_swap (lay s)) (put_pte f (unat i) (p OR flag) s) = f"
  using assms
  by (auto simp: access_table_ok window_entry_set_def window_frame_def page_entry_set_def
      Let_def put_pte_def not_le [symmetric])

lemma put_pte_frame [simp]:
  "klog (put_pte f i e s) = klog s" "mm_bitmap (put_pte f i e s) = mm_bitmap s"
  "lay (put_pte f i e s) = lay s" "page_directory (put_pte f i e s) = page_directory s"
  "free_pages (put_pte f i e s) = free_pages s" "table_frame (put_pte f i e s) = table_frame s"
  by (auto simp: put_pte_def free_pages_def table_frame_def fun_eq_iff)

lemma pmem_put_pte:
  "pmem (put_pte f i e s) = (pmem s)
     (kernel_page_frame s := (pmem s (kernel_page_frame s))
        (unat (window_index (page_swap (lay s))) := f OR (PAGE_WRITE OR PAGE_PRESENT)),
      f := (pmem s f)(i := e))"
  by (simp add: put_pte_def)

lemma vm_wf_put_pte [simp]: "vm_wf (put_pte f i e s) = vm_wf s"
  by (simp add: vm_wf_def)

lemma vm_wf_frame_unique:
  "vm_wf s \<Longrightarrow> table_frame s d = Some f \<Longrightarrow> table_frame s d' = Some f \<Longrightarrow> d < 1024 \<Longrightarrow> d' < 1024 \<Longrightarrow> d = d'"
  by (auto simp: vm_wf_def)

lemma vm_wfI:
  assumes "window_index (page_swap (lay s)) < 1024" "table_frame s 768 = Some (kernel_page_frame s)"
    "\<And>d d' f. table_frame s d = Some f \<Longrightarrow> table_frame s d' = Some f \<Longrightarrow> d < 1024 \<Longrightarrow> d' < 1024 \<Longrightarrow> d = d'"
    "\<And>d f. table_frame s d = Some f \<Longrightarrow> d < 1024 \<Longrightarrow> page_of_addr f \<notin> free_pages s"
  shows "vm_wf s"
  using assms unfolding vm_wf_def by blast

lemma vm_wf_not_free:
  "vm_wf s \<Longrightarrow> table_frame s d = Some f \<Longrightarrow> d < 1024 \<Longrightarrow> page_of_addr f \<notin> free_pages s"
  by (auto simp: vm_wf_def)

lemma vm_wf_kernel_slot: "vm_wf s \<Longrightarrow> table_frame s 768 = Some (kernel_page_frame s)"
  by (simp add: vm_wf_def)

lemma vm_wf_not_kernel_page:
  assumes "vm_wf s" "table_frame s d = Some f" "d < 1024" "d \<noteq> 768"
  shows "f \<noteq> kernel_page_frame s"
  using assms vm_wf_frame_unique [of s d f 768] by (auto simp: vm_wf_def)

lemma vm_wf_window [simp]: "vm_wf s \<Longrightarrow> window_index (page_swap (lay s)) < 1024"
  by (simp add: vm_wf_def)

lemma vm_wf_window_nat [simp]: "vm_wf s \<Longrightarrow> unat (window_index (page_swap (lay s))) < 1024"
  using vm_wf_window [of s] by (simp add: word_less_nat_alt)

text \<open>The entry is seen at its address and nowhere else, but for the window.\<close>

lemma pte_put_pte:
  assumes wf: "vm_wf s" and f: "table_frame s (dir_index v) = Some f" and d: "dir_index v \<noteq> 768"
    and al: "v AND PAGE_FLAG = 0" "w AND PAGE_FLAG = 0" and win: "\<not> is_window s w"
  shows "pte (put_pte f (unat (table_index v)) e s) w = (if w = v then Some e else pte s w)"
proof -
  have kp: "table_frame s 768 = Some (kernel_page_frame s)" using wf by (simp add: vm_wf_def)
  have fk: "f \<noteq> kernel_page_frame s"
    using vm_wf_not_kernel_page [OF wf f dir_index_less d] .
  show ?thesis
  proof (cases "w = v")
    case True
    with f show ?thesis by (simp add: pte_def pmem_put_pte)
  next
    case False
    have i: "unat (table_index w) \<noteq> unat (table_index v)" if "table_frame s (dir_index w) = Some f"
      using vm_wf_frame_unique [OF wf f that dir_index_less dir_index_less]
        same_page [of w v] al False by (auto simp: word_unat_eq_iff)
    have k: "unat (table_index w) \<noteq> unat (window_index (page_swap (lay s)))"
      if "table_frame s (dir_index w) = Some (kernel_page_frame s)"
      using vm_wf_frame_unique [OF wf kp that _ dir_index_less] win
      by (auto simp: is_window_def word_unat_eq_iff)
    show ?thesis
      using False fk i k by (cases "table_frame s (dir_index w)") (auto simp: pte_def pmem_put_pte)
  qed
qed

lemma translate_put_pte:
  assumes "vm_wf s" "table_frame s (dir_index v) = Some f" "dir_index v \<noteq> 768"
    "v AND PAGE_FLAG = 0" "w AND PAGE_FLAG = 0" "\<not> is_window s w"
  shows "translate (put_pte f (unat (table_index v)) e s) w =
    (if w = v then (if bit e 0 then Some (PAGE_GET_ADDR e) else None) else translate s w)"
  using pte_put_pte [OF assms, of e] by (simp add: translate_def)

subsection \<open>A new page table\<close>

definition add_table :: "nat \<Rightarrow> u32 \<Rightarrow> 'a vm_st_scheme \<Rightarrow> 'a vm_st_scheme" where
  "add_table d f s = (let t = alloc_phys_block f 1 s in
     t\<lparr>page_directory := (page_directory t)
        (d := f OR (PAGE_PRESENT OR PAGE_WRITE OR PAGE_USER_SUPERVISOR))\<rparr>)"

lemma alloc_phys_block_vm [simp]:
  "lay (alloc_phys_block a n s) = lay s" "page_directory (alloc_phys_block a n s) = page_directory s"
  "pmem (alloc_phys_block a n s) = pmem s"
  using alloc_phys_block_frame [of a n s] by auto

lemma free_phys_block_vm [simp]:
  "lay (free_phys_block a n s) = lay s" "page_directory (free_phys_block a n s) = page_directory s"
  "pmem (free_phys_block a n s) = pmem s"
  using free_phys_block_frame [of a n s] by auto

lemma add_table_simps [simp]:
  "lay (add_table d f s) = lay s" "pmem (add_table d f s) = pmem s"
  "page_directory (add_table d f s) = (page_directory s)
     (d := f OR (PAGE_PRESENT OR PAGE_WRITE OR PAGE_USER_SUPERVISOR))"
  by (simp_all add: add_table_def Let_def)

lemma table_frame_add_table:
  "f AND PAGE_FLAG = 0 \<Longrightarrow>
   table_frame (add_table d f s) d' = (if d' = d then Some f else table_frame s d')"
  by (simp add: table_frame_def)

lemma fresh_frame:
  assumes "get_phys_block 1 s = (f, t)" "f \<noteq> 0"
  shows "f AND PAGE_FLAG = 0" "page_of_addr f \<in> free_pages s" "page_of_addr f + 1 \<le> 1048576"
    "t = alloc_phys_block f 1 s"
  using get_phys_block_Some [OF assms] by (auto simp: aligned_iff free_pages_def free_run_Suc)

lemma free_pages_page_directory [simp]: "free_pages (s\<lparr>page_directory := x\<rparr>) = free_pages s"
  by (simp add: free_pages_def)

lemma free_pages_add_table:
  "page_of_addr f + 1 \<le> 1048576 \<Longrightarrow> free_pages (add_table d f s) = free_pages s - {page_of_addr f}"
  using free_pages_alloc [of f 1 s] by (auto simp: add_table_def Let_def)

lemma vm_wf_add_table:
  assumes wf: "vm_wf s" and d: "d \<noteq> 768" "d < 1024" and none: "table_frame s d = None"
    and f: "f AND PAGE_FLAG = 0" "page_of_addr f \<in> free_pages s" "page_of_addr f + 1 \<le> 1048576"
  shows "vm_wf (add_table d f s)"
proof -
  have "table_frame s d' \<noteq> Some f" if "d' < 1024" for d'
    using wf f(2) that by (auto simp: vm_wf_def)
  with wf d none f(1) show ?thesis
    unfolding vm_wf_def
    by (auto simp: table_frame_add_table free_pages_add_table [OF f(3)] split: if_splits)
qed

subsection \<open>The outcomes of mapping and unmapping\<close>

lemma page_entry_split:
  "table_frame s d = Some f \<longleftrightarrow>
   bit (page_directory s d) 0 \<and> \<not> bit (page_directory s d) 7 \<and> f = PAGE_GET_ADDR (page_directory s d)"
  by (auto simp: table_frame_def)

lemma page_map_backed:
  assumes wf: "vm_wf s" and f: "table_frame s (dir_index v) = Some f" and d: "dir_index v \<noteq> 768"
    and al: "v AND PAGE_FLAG = 0" "p AND PAGE_FLAG = 0" "flag AND PAGE_ADDR = 0" and pr: "bit flag 0"
  shows "page_map p v flag s = (0, put_pte f (unat (table_index v)) (p OR flag) s)"
proof -
  obtain err s1 where acc: "access_table_with_physical (page_swap (lay s)) f s = (err, s1)" by fastforce
  note set = access_then_set [OF vm_wf_window [OF wf] table_frame_aligned [OF f]
      vm_wf_not_kernel_page [OF wf f dir_index_less d] table_index_less [of v] al(2,3) acc]
  show ?thesis
    using f al pr acc set by (simp add: page_map_def Let_def page_entry_split)
qed

lemma page_map_fresh:
  assumes wf: "vm_wf s" and e: "\<not> bit (page_directory s (dir_index v)) 0"
      "\<not> bit (page_directory s (dir_index v)) 7" and d: "dir_index v \<noteq> 768"
    and al: "v AND PAGE_FLAG = 0" "p AND PAGE_FLAG = 0" "flag AND PAGE_ADDR = 0" and pr: "bit flag 0"
    and g: "get_phys_block 1 s = (f, t)" "f \<noteq> 0"
  shows "page_map p v flag s =
    (0, put_pte f (unat (table_index v)) (p OR flag) (add_table (dir_index v) f s))"
proof -
  note fr = fresh_frame [OF g]
  let ?a = "add_table (dir_index v) f s"
  have tf: "table_frame ?a (dir_index v) = Some f" using fr by (simp add: table_frame_add_table)
  have wfa: "vm_wf ?a"
    using vm_wf_add_table [OF wf d dir_index_less _ fr(1-3)] e by (simp add: table_frame_def)
  have "page_map p v flag s = page_map p v flag ?a"
    using e al pr g fr(1,4) tf
    by (simp add: page_map_def Let_def add_table_def page_entry_split)
  also have "\<dots> = (0, put_pte f (unat (table_index v)) (p OR flag) ?a)"
    by (rule page_map_backed [OF wfa tf d al pr])
  finally show ?thesis .
qed

lemma page_map_success_cases:
  assumes ok: "page_map p v flag s = (0, s')" and wf: "vm_wf s" and d: "dir_index v \<noteq> 768"
    and pr: "bit flag 0"
  obtains (backed) f where "table_frame s (dir_index v) = Some f"
      "s' = put_pte f (unat (table_index v)) (p OR flag) s"
    | (fresh) f where "table_frame s (dir_index v) = None" "f AND PAGE_FLAG = 0"
      "page_of_addr f \<in> free_pages s" "page_of_addr f + 1 \<le> 1048576"
      "s' = put_pte f (unat (table_index v)) (p OR flag) (add_table (dir_index v) f s)"
      "get_phys_block 1 s = (f, alloc_phys_block f 1 s)" "f \<noteq> 0"
proof -
  have al: "v AND PAGE_FLAG = 0" "p AND PAGE_FLAG = 0" "flag AND PAGE_ADDR = 0"
    and e7: "\<not> bit (page_directory s (dir_index v)) 7"
    using ok pr by (auto simp: page_map_def Let_def errno_defs split: if_splits)
  show thesis
  proof (cases "table_frame s (dir_index v)")
    case None
    with e7 have e0: "\<not> bit (page_directory s (dir_index v)) 0"
      by (simp add: table_frame_def split: if_splits)
    obtain f t where g: "get_phys_block 1 s = (f, t)" by fastforce
    have "f \<noteq> 0"
      using ok e0 e7 al pr g by (auto simp: page_map_def Let_def errno_defs)
    with page_map_fresh [OF wf e0 e7 d al pr g] fresh_frame [OF g] g None ok fresh show thesis by auto
  next
    case (Some f)
    with page_map_backed [OF wf Some d al pr] ok backed show thesis by auto
  qed
qed

definition drop_table :: "nat \<Rightarrow> u32 \<Rightarrow> u32 \<Rightarrow> 'a vm_st_scheme \<Rightarrow> 'a vm_st_scheme" where
  "drop_table d f flag s = (let t = free_phys_block f 1 s in
     t\<lparr>page_directory := (page_directory t)(d := flag)\<rparr>)"

definition table_empty :: "u32 \<Rightarrow> 'a vm_st_scheme \<Rightarrow> bool" where
  "table_empty f s \<longleftrightarrow> (\<forall>i < 1024. \<not> bit (pmem s f i) 0)"

lemma page_get_addr_clear_present:
  "PAGE_GET_ADDR (e AND NOT PAGE_PRESENT) = PAGE_GET_ADDR e"
proof (rule bit_word_eqI)
  fix n assume "n < LENGTH(32)"
  show "bit (PAGE_GET_ADDR (e AND NOT PAGE_PRESENT)) n = bit (PAGE_GET_ADDR e) n"
    using bit_and_not_exp [of e 0 n] by (auto simp: PAGE_GET_ADDR_def bit_set_simps PAGE_PRESENT_def)
qed

lemma page_unmap_present:
  assumes wf: "vm_wf s" and f: "table_frame s (dir_index v) = Some f" and d: "dir_index v \<noteq> 768"
    and al: "v AND PAGE_FLAG = 0"
  shows "page_unmap v flag s =
    (let t = put_pte f (unat (table_index v)) 0 s in
     (0, if table_empty f t then drop_table (dir_index v) f flag t else t))"
proof -
  obtain err s1 where acc: "access_table_with_physical (page_swap (lay s)) f s = (err, s1)" by fastforce
  have flags: "(0 :: u32) AND PAGE_FLAG = 0" "PAGE_NOTHING AND PAGE_ADDR = 0"
    by (simp_all add: PAGE_NOTHING_def)
  note set = access_then_set [OF vm_wf_window [OF wf] table_frame_aligned [OF f]
      vm_wf_not_kernel_page [OF wf f dir_index_less d] table_index_less [of v] flags acc]
  have win: "list_ex (\<lambda>i. bit (window_read (page_swap (lay s)) i
       (put_pte f (unat (table_index v)) 0 s)) 0) [0..<1024] \<longleftrightarrow>
     \<not> table_empty f (put_pte f (unat (table_index v)) 0 s)"
    using set(3) by (auto simp: window_read_def table_empty_def list_ex_iff PAGE_NOTHING_def)
  show ?thesis
    using f al acc set win
    by (simp add: page_unmap_def Let_def page_entry_split PAGE_NOTHING_def drop_table_def
        page_get_addr_clear_present)
qed

lemma drop_table_simps [simp]:
  "lay (drop_table d f flag s) = lay s" "pmem (drop_table d f flag s) = pmem s"
  "page_directory (drop_table d f flag s) = (page_directory s)(d := flag)"
  "free_pages (drop_table d f flag s) = free_pages s \<union> {page_of_addr f}"
  using free_pages_free [of f 1 s] page_number_less [of f]
  by (auto simp: drop_table_def Let_def simp del: page_number_less)

lemma table_frame_drop_table:
  "\<not> bit flag 0 \<Longrightarrow>
   table_frame (drop_table d f flag s) d' = (if d' = d then None else table_frame s d')"
  by (simp add: table_frame_def)

lemma page_of_addr_inj:
  assumes "page_of_addr f = page_of_addr g" "f AND PAGE_FLAG = 0" "g AND PAGE_FLAG = 0"
  shows "f = g"
proof -
  have "unat f = unat g"
    using assms by (metis aligned_iff div_mult_mod_eq)
  then show ?thesis by (simp add: word_unat_eq_iff)
qed

lemma vm_wf_drop_table:
  assumes wf: "vm_wf s" and d: "d \<noteq> 768" "d < 1024" and f: "table_frame s d = Some f"
    and flag: "\<not> bit flag 0"
  shows "vm_wf (drop_table d f flag s)"
proof -
  have "page_of_addr g \<noteq> page_of_addr f" if "table_frame s d' = Some g" "d' < 1024" "d' \<noteq> d" for g d'
    using page_of_addr_inj [OF _ table_frame_aligned [OF f] table_frame_aligned [OF that(1)]]
      vm_wf_frame_unique [OF wf f _ d(2) that(2)] that by auto
  then show ?thesis
    using wf d flag vm_wf_not_free [OF wf] vm_wf_frame_unique [OF wf]
    by (intro vm_wfI) (auto simp: table_frame_drop_table vm_wf_kernel_slot split: if_splits)
qed

lemma translate_drop_table:
  assumes "table_frame s d = Some f" "table_empty f s" "\<not> bit flag 0"
  shows "translate (drop_table d f flag s) w = translate s w"
  using assms table_index_less [of w]
  by (auto simp: translate_def pte_def table_frame_drop_table table_empty_def word_less_nat_alt)

subsection \<open>What mapping and unmapping do to translation\<close>

lemma page_map_effect:
  assumes "page_map p v flag s = (0, s')" "vm_wf s" "dir_index v \<noteq> 768" "bit flag 0"
  shows "translate s' v = Some p \<and> vm_wf s' \<and>
    (\<exists>A. free_pages s' = free_pages s - A \<and> card A \<le> 1) \<and>
    (\<forall>w. w AND PAGE_FLAG = 0 \<and> w \<noteq> v \<and> \<not> is_window s w \<and>
       (table_frame s (dir_index v) \<noteq> None \<or> dir_index w \<noteq> dir_index v) \<longrightarrow>
       translate s' w = translate s w)"
proof -
  have al: "v AND PAGE_FLAG = 0" "p AND PAGE_FLAG = 0" "flag AND PAGE_ADDR = 0"
    using assms(1,4) by (auto simp: page_map_def Let_def errno_defs split: if_splits)
  have nw: "\<not> is_window s v" using assms(3) by (simp add: is_window_def)
  from assms show ?thesis
  proof (cases rule: page_map_success_cases)
    case (backed f)
    note t = translate_put_pte [OF assms(2) backed(1) assms(3) al(1), of _ "p OR flag"]
    have "free_pages s' = free_pages s - {} \<and> card ({} :: nat set) \<le> 1" using backed(2) by simp
    then show ?thesis
      using t nw al assms(2,4) backed(2) by (intro conjI exI [of _ "{}"] allI impI) simp_all
  next
    case (fresh f)
    let ?a = "add_table (dir_index v) f s"
    have wfa: "vm_wf ?a"
      using vm_wf_add_table [OF assms(2,3) dir_index_less fresh(1-4)] .
    have tf: "table_frame ?a (dir_index v) = Some f" using fresh(2) by (simp add: table_frame_add_table)
    have nwa: "is_window ?a = is_window s" by (simp add: is_window_def fun_eq_iff)
    note t = translate_put_pte [OF wfa tf assms(3) al(1), of _ "p OR flag", unfolded nwa]
    have other: "translate ?a w = translate s w" if "dir_index w \<noteq> dir_index v" for w
      using that fresh(2) by (simp add: translate_def pte_def table_frame_add_table)
    have "free_pages s' = free_pages s - {page_of_addr f} \<and> card {page_of_addr f} \<le> 1"
      using fresh by (simp add: free_pages_add_table)
    then show ?thesis
      using t nw al assms(4) fresh(1,5) wfa other
      by (intro conjI exI [of _ "{page_of_addr f}"] allI impI) simp_all
  qed
qed

lemma page_unmap_effect:
  assumes "vm_wf s" "table_frame s (dir_index v) = Some f" "dir_index v \<noteq> 768"
    "v AND PAGE_FLAG = 0" "\<not> bit flag 0"
  shows "\<exists>s'. page_unmap v flag s = (0, s') \<and> vm_wf s' \<and> translate s' v = None \<and>
    (\<forall>w. w AND PAGE_FLAG = 0 \<and> w \<noteq> v \<and> \<not> is_window s w \<longrightarrow> translate s' w = translate s w) \<and>
    free_pages s' =
      (if \<forall>i < 1024. i \<noteq> unat (table_index v) \<longrightarrow> \<not> bit (pmem s f i) 0
       then free_pages s \<union> {page_of_addr f} else free_pages s)"
proof -
  let ?t = "put_pte f (unat (table_index v)) 0 s"
  have tf: "table_frame ?t (dir_index v) = Some f" using assms(2) by simp
  have nw: "\<not> is_window s v" using assms(3) by (simp add: is_window_def)
  note t = translate_put_pte [OF assms(1-4), of _ 0]
  have e: "table_empty f ?t \<longleftrightarrow> (\<forall>i < 1024. i \<noteq> unat (table_index v) \<longrightarrow> \<not> bit (pmem s f i) 0)"
    using vm_wf_not_kernel_page [OF assms(1,2) dir_index_less assms(3)]
    by (auto simp: table_empty_def pmem_put_pte)
  note drop = translate_drop_table [OF tf _ assms(5)]
    vm_wf_drop_table [OF _ assms(3) dir_index_less tf assms(5)]
  show ?thesis
    unfolding page_unmap_present [OF assms(1-4)] Let_def e [symmetric]
    using t nw assms(1,4) drop by auto
qed

subsection \<open>The page tables are an address space\<close>

definition user_page :: "u32 \<Rightarrow> bool" where
  "user_page v \<longleftrightarrow> v AND PAGE_FLAG = 0 \<and> dir_index v \<noteq> 768"

lemma user_page_not_window [simp]: "user_page v \<Longrightarrow> \<not> is_window s v"
  by (simp add: user_page_def is_window_def)

lemma translate_backed: "translate s w = Some q \<Longrightarrow> table_frame s (dir_index w) \<noteq> None"
  by (auto simp: translate_def pte_def split: option.splits)

lemma page_map_ok:
  assumes "page_map p v flag s = (0, s')" "vm_wf s" "user_page v" "bit flag 0"
  shows "vm_wf s' \<and> translate s' v = Some p"
    "user_page w \<Longrightarrow> w \<noteq> v \<Longrightarrow> translate s w = Some q \<Longrightarrow> translate s' w = Some q"
  using page_map_effect [OF assms(1,2) _ assms(4)] assms(3) translate_backed [of s w q]
  by (fastforce simp: user_page_def is_window_def)+

lemma page_map_error:
  assumes err: "page_map p v flag s = (err, s')" "err \<noteq> 0" and wf: "vm_wf s" and u: "user_page v"
    and pr: "bit flag 0"
  shows "s' = s \<or> (\<not> bit (page_directory s (dir_index v)) 0 \<and>
    (\<exists>t. get_phys_block 1 s = (0, t) \<and> s' = t\<lparr>page_directory := (page_directory t)(dir_index v := 0)\<rparr>))"
proof (cases "v AND PAGE_FLAG = 0 \<and> p AND PAGE_FLAG = 0 \<and> flag AND PAGE_ADDR = 0 \<and>
    \<not> bit (page_directory s (dir_index v)) 7")
  case True
  then have al: "v AND PAGE_FLAG = 0" "p AND PAGE_FLAG = 0" "flag AND PAGE_ADDR = 0"
    and e7: "\<not> bit (page_directory s (dir_index v)) 7" by simp_all
  have d: "dir_index v \<noteq> 768" using u by (simp add: user_page_def)
  obtain f t where g: "get_phys_block 1 s = (f, t)" by fastforce
  show ?thesis
  proof (cases "bit (page_directory s (dir_index v)) 0")
    case True
    then show ?thesis
      using page_map_backed [OF wf _ d al pr] err e7 by (auto simp: page_entry_split)
  next
    case False
    then show ?thesis
      using page_map_fresh [OF wf False e7 d al pr g] err al e7 pr g
      by (cases "f = 0") (auto simp: page_map_def Let_def)
  qed
next
  case False
  then show ?thesis using err pr by (auto simp: page_map_def Let_def split: if_splits)
qed

lemma vm_frame_cong:
  assumes "lay s' = lay s" "pmem s' = pmem s" "table_frame s' = table_frame s" "mm_bitmap s' = mm_bitmap s"
  shows "vm_wf s' = vm_wf s" "translate s' = translate s"
  unfolding vm_wf_def translate_def [abs_def] pte_def free_pages_def assms by (rule refl)+

lemma page_map_error_keeps:
  assumes "page_map p v flag s = (err, s')" "err \<noteq> 0" "vm_wf s" "user_page v" "bit flag 0"
  shows "vm_wf s' = vm_wf s" "translate s' = translate s"
proof -
  have *: "lay s' = lay s \<and> pmem s' = pmem s \<and> table_frame s' = table_frame s \<and> mm_bitmap s' = mm_bitmap s"
    using page_map_error [OF assms]
  proof
    assume "\<not> bit (page_directory s (dir_index v)) 0 \<and> (\<exists>t. get_phys_block 1 s = (0, t) \<and>
      s' = t\<lparr>page_directory := (page_directory t)(dir_index v := 0)\<rparr>)"
    then obtain t where e: "\<not> bit (page_directory s (dir_index v)) 0" and g: "get_phys_block 1 s = (0, t)"
      and s': "s' = t\<lparr>page_directory := (page_directory t)(dir_index v := 0)\<rparr>" by blast
    show ?thesis
      using get_phys_block_NULL [OF g] e by (auto simp: s' table_frame_def fun_eq_iff)
  qed simp
  then show "vm_wf s' = vm_wf s" "translate s' = translate s" using vm_frame_cong by blast+
qed

interpretation vm: address_space page_map "\<lambda>v. page_unmap v PAGE_NOTHING" translate user_page
    "\<lambda>flag. bit flag 0" vm_wf
proof unfold_locales
  fix s :: "'a vm_st_scheme" and v
  assume "vm_wf s" "user_page v" "translate s v \<noteq> None"
  then obtain f where "table_frame s (dir_index v) = Some f" using translate_backed by blast
  moreover have "\<not> bit PAGE_NOTHING 0" by (simp add: PAGE_NOTHING_def)
  ultimately show "vm_wf (snd (page_unmap v PAGE_NOTHING s)) \<and>
      translate (snd (page_unmap v PAGE_NOTHING s)) v = None \<and>
      (\<forall>w. user_page w \<and> w \<noteq> v \<longrightarrow> translate (snd (page_unmap v PAGE_NOTHING s)) w = translate s w)"
    using page_unmap_effect [of s v f PAGE_NOTHING] \<open>vm_wf s\<close> \<open>user_page v\<close>
    by (auto simp: user_page_def is_window_def)
qed (use page_map_ok page_map_error_keeps in \<open>blast | metis\<close>)+

subsection \<open>Looking addresses up\<close>

definition show_frame :: "u32 \<Rightarrow> 'a vm_st_scheme \<Rightarrow> 'a vm_st_scheme" where
  "show_frame f s = s\<lparr>pmem := (pmem s)(kernel_page_frame s := (pmem s (kernel_page_frame s))
       (unat (window_index (page_swap (lay s))) := f OR (PAGE_WRITE OR PAGE_PRESENT)))\<rparr>"

lemma show_frame_simps [simp]:
  "lay (show_frame f s) = lay s" "page_directory (show_frame f s) = page_directory s"
  "mm_bitmap (show_frame f s) = mm_bitmap s" "klog (show_frame f s) = klog s"
  "table_frame (show_frame f s) = table_frame s" "free_pages (show_frame f s) = free_pages s"
  by (auto simp: show_frame_def table_frame_def free_pages_def fun_eq_iff)

lemma pmem_show_frame:
  "pmem (show_frame f s) = (pmem s)(kernel_page_frame s := (pmem s (kernel_page_frame s))
       (unat (window_index (page_swap (lay s))) := f OR (PAGE_WRITE OR PAGE_PRESENT)))"
  by (simp add: show_frame_def)

lemma vm_wf_show_frame [simp]: "vm_wf (show_frame f s) = vm_wf s"
  by (simp add: vm_wf_def)

lemma pte_show_frame:
  assumes wf: "vm_wf s" and w: "\<not> is_window s w"
  shows "pte (show_frame f s) w = pte s w"
proof -
  have "unat (table_index w) \<noteq> unat (window_index (page_swap (lay s)))"
    if "table_frame s (dir_index w) = Some (kernel_page_frame s)"
    using vm_wf_frame_unique [OF wf vm_wf_kernel_slot [OF wf] that _ dir_index_less] w
    by (auto simp: is_window_def word_unat_eq_iff)
  then show ?thesis
    by (cases "table_frame s (dir_index w)") (auto simp: pte_def pmem_show_frame)
qed

lemma page_start_index [simp]:
  "dir_index (push_bit 12 (drop_bit 12 v)) = dir_index v"
  "table_index (push_bit 12 (drop_bit 12 v)) = table_index v"
proof -
  have "drop_bit 12 (push_bit 12 (drop_bit 12 v)) = drop_bit 12 v"
    by (rule bit_word_eqI) (auto simp: bit_simps dest: bit_imp_le_length)
  moreover have "drop_bit 22 (push_bit 12 (drop_bit 12 v)) = drop_bit 22 v"
    by (rule bit_word_eqI) (auto simp: bit_simps dest: bit_imp_le_length)
  ultimately show "dir_index (push_bit 12 (drop_bit 12 v)) = dir_index v"
    "table_index (push_bit 12 (drop_bit 12 v)) = table_index v"
    by (simp_all add: dir_index_def table_index_def)
qed

lemma page_info_pte:
  assumes wf: "vm_wf s" and v: "\<not> is_window s v" and i: "page_info v s = (err, info, s')"
  shows "err = 0 \<and> (case pte s v of
      None \<Rightarrow> \<not> have_page_entry info \<and> s' = s
    | Some e \<Rightarrow> have_page_entry info \<and> page_table_entry info = e \<and> (\<exists>f. s' = show_frame f s))"
proof (cases "table_frame s (dir_index v)")
  case None
  then show ?thesis
    using i by (auto simp: page_info_def Let_def pte_def table_frame_def split: if_splits)
next
  case (Some f)
  have acc: "access_table_with_physical (page_swap (lay s)) f s = (0, show_frame f s)"
    using access_table_ok [OF vm_wf_window [OF wf] table_frame_aligned [OF Some]]
    by (simp add: show_frame_def)
  have "window_frame (page_swap (lay s)) (show_frame f s) = f"
    using table_frame_aligned [OF Some] by (simp add: window_frame_def show_frame_def)
  moreover have "pte s v = Some (pmem (show_frame f s) f (unat (table_index v)))"
    using pte_show_frame [OF wf v, of f] Some by (simp add: pte_def)
  moreover have "bit (page_directory s (dir_index v)) 0 \<and> \<not> bit (page_directory s (dir_index v)) 7 \<and>
      PAGE_GET_ADDR (page_directory s (dir_index v)) = f"
    using Some by (simp add: page_entry_split)
  ultimately show ?thesis
    using i acc by (auto simp: page_info_def Let_def window_read_def intro: sym)
qed

subsection \<open>Properties\<close>

text \<open>
  A machine state to apply the properties to: \<^verbatim>\<open>kernel_page\<close> in slot 768, an empty page
  table in slot 1, and all pages from 0x4F8000 on free.
\<close>

definition demo_layout :: layout where
  "demo_layout = \<lparr>page_directory_at = 0xC0100000, kernel_page = 0xC0103000, page_swap = 0xC0101000,
     page_swap2 = 0xC0102000, kernel_start = 0xC0100000, kernel_end = 0xC0110000,
     kernel_text_start = 0xC0104000, kernel_text_end = 0xC0106000,
     kernel_rodata_start = 0xC0106000, kernel_rodata_end = 0xC0108000,
     kernel_data_start = 0xC0108000, kernel_data_end = 0xC010A000,
     kernel_bss_start = 0xC010A000, kernel_bss_end = 0xC0110000\<rparr>"

definition demo_vm :: vm_st where
  "demo_vm = \<lparr>klog = [], mm_bitmap = (\<lambda>i. if i < 159 then 0 else - 1), lay = demo_layout,
     page_directory = (\<lambda>d. if d = 768 then 0x103003 else if d = 1 then 0x4F7007 else 0),
     pmem = (\<lambda>_ _. 0)\<rparr>"

lemma demo_vm_frames: "table_frame demo_vm d =
    (if d = 768 then Some 0x103000 else if d = 1 then Some 0x4F7000 else None)"
  by (simp add: table_frame_def demo_vm_def PAGE_GET_ADDR_def PAGE_ADDR_def PAGE_FLAG_def bit_simps)

lemma demo_vm_simps:
  "lay demo_vm = demo_layout" "mm_bitmap demo_vm = (\<lambda>i. if i < 159 then 0 else - 1)"
  "pmem demo_vm = (\<lambda>_ _. 0)"
  by (simp_all add: demo_vm_def)

lemma demo_vm_wf: "vm_wf demo_vm"
  by (intro vm_wfI)
     (auto simp: demo_vm_frames demo_vm_simps demo_layout_def window_index_def KERNEL_GET_REAL_def
       KERNEL_POS_def free_pages_def page_bit_def split: if_splits)

lemma demo_vm_dir [simp]: "dir_index 0x400000 = 1" "dir_index 0x401000 = 1" "dir_index 0x402000 = 1"
  by (simp_all add: dir_index_def)

lemma demo_vm_user [simp]: "user_page 0x400000" "user_page 0x401000"
  by (simp_all add: user_page_def PAGE_FLAG_def)

lemma demo_vm_map:
  "page_map 0x800000 0x400000 7 demo_vm = (0, put_pte 0x4F7000 0 0x800007 demo_vm)"
  using page_map_backed [OF demo_vm_wf, where v = "0x400000" and f = "0x4F7000" and p = "0x800000" and flag = 7]
  by (simp add: demo_vm_frames PAGE_FLAG_def PAGE_ADDR_def bit_simps table_index_def)

text \<open>C5. A successful \<^verbatim>\<open>page_map\<close> of a user page makes the address translate to the physical page,
  keeps the invariant, takes at most one page from the physical allocator (for a new page table),
  and leaves the translation of every other page alone, as far as its directory slot already had
  a page table or is another slot. The window page is left out: its entry is redirected.\<close>

theorem page_map_translates:
  assumes "page_map p v flag s = (0, s')" "vm_wf s" "dir_index v \<noteq> 768" "bit flag 0"
  shows "translate s' v = Some p \<and> vm_wf s' \<and>
    (\<exists>A. free_pages s' = free_pages s - A \<and> card A \<le> 1) \<and>
    (\<forall>w. w AND PAGE_FLAG = 0 \<and> w \<noteq> v \<and> \<not> is_window s w \<and>
       (table_frame s (dir_index v) \<noteq> None \<or> dir_index w \<noteq> dir_index v) \<longrightarrow>
       translate s' w = translate s w)"
  using page_map_effect [OF assms] .

theorem page_map_translates_witness:
  "translate (snd (page_map 0x800000 0x400000 7 demo_vm)) 0x400000 = Some 0x800000 \<and>
   translate (snd (page_map 0x800000 0x400000 7 demo_vm)) 0x401000 = translate demo_vm 0x401000"
  using page_map_translates [OF demo_vm_map demo_vm_wf]
  by (simp add: demo_vm_map demo_vm_frames bit_simps PAGE_FLAG_def is_window_def)

text \<open>C6. Unmapping a user page whose slot has a page table always succeeds: the address no
  longer translates, every other page translates as before, the invariant is kept, and the page
  table is given back to the physical allocator exactly when no present entry is left in it.\<close>

theorem page_unmap_translates:
  assumes "vm_wf s" "table_frame s (dir_index v) = Some f" "dir_index v \<noteq> 768"
    "v AND PAGE_FLAG = 0" "\<not> bit flag 0"
  shows "\<exists>s'. page_unmap v flag s = (0, s') \<and> vm_wf s' \<and> translate s' v = None \<and>
    (\<forall>w. w AND PAGE_FLAG = 0 \<and> w \<noteq> v \<and> \<not> is_window s w \<longrightarrow> translate s' w = translate s w) \<and>
    free_pages s' =
      (if \<forall>i < 1024. i \<noteq> unat (table_index v) \<longrightarrow> \<not> bit (pmem s f i) 0
       then free_pages s \<union> {page_of_addr f} else free_pages s)"
  using page_unmap_effect [OF assms] .

theorem page_unmap_translates_witness:
  "\<exists>s'. page_unmap 0x400000 0 demo_vm = (0, s') \<and> translate s' 0x400000 = None \<and>
     free_pages s' = free_pages demo_vm \<union> {1271}"
  using page_unmap_translates [OF demo_vm_wf, where v = "0x400000" and f = "0x4F7000" and flag = 0]
  by (auto simp: demo_vm_frames PAGE_FLAG_def demo_vm_simps)

text \<open>Looking a virtual address up in software (\<^verbatim>\<open>page_get_phys\<close>, over \<^verbatim>\<open>page_info\<close>) gives the
  physical page that the hardware translation gives, and NULL when there is none; it
  changes no translation but that of the window.\<close>

theorem page_get_phys_translates:
  assumes "vm_wf s" "\<not> is_window s v"
  shows "\<exists>s'. page_get_phys v s = (case translate s v of None \<Rightarrow> 0 | Some p \<Rightarrow> p, s') \<and>
    vm_wf s' \<and> free_pages s' = free_pages s \<and> page_directory s' = page_directory s \<and>
    (\<forall>w. \<not> is_window s w \<longrightarrow> translate s' w = translate s w)"
proof -
  obtain err info s' where i: "page_info v s = (err, info, s')" by (metis prod_cases3)
  note pi = page_info_pte [OF assms i]
  have keep: "translate (show_frame f s) w = translate s w" if "\<not> is_window s w" for f w
    using pte_show_frame [OF assms(1) that] by (simp add: translate_def)
  show ?thesis
    using pi i assms(1) keep
    by (cases "pte s v") (auto simp: page_get_phys_def translate_def)
qed

theorem page_get_phys_translates_witness:
  "fst (page_get_phys 0x400ABC (snd (page_map 0x800000 0x400000 7 demo_vm))) = 0x800000"
proof -
  let ?s = "put_pte 0x4F7000 0 0x800007 demo_vm"
  have "\<not> is_window ?s 0x400ABC" by (simp add: is_window_def dir_index_def)
  moreover have "translate ?s 0x400ABC = Some 0x800000"
    by (simp add: translate_def pte_def dir_index_def demo_vm_frames pmem_put_pte table_index_def
        PAGE_GET_ADDR_def PAGE_ADDR_def PAGE_FLAG_def bit_simps)
  ultimately show ?thesis
    using page_get_phys_translates [of ?s "0x400ABC"] demo_vm_wf by (auto simp: demo_vm_map)
qed

lemma page_map_range_effect:
  assumes "page_map_range p v flag n s = (err, s')" "vm_wf s" "bit flag 0" "n \<le> 1048576"
    "\<forall>k < n. user_page (nth_page v k)"
  shows "vm_wf s' \<and>
    (if err = 0 then \<forall>k < n. translate s' (nth_page v k) = Some (nth_page p k)
     else \<exists>j < n. \<exists>t0 t. page_map_range p v flag j s = (0, t0) \<and>
       page_map (nth_page p j) (nth_page v j) flag t0 = (err, t) \<and>
       (\<forall>k < j. translate t (nth_page v k) = Some (nth_page p k) \<and> translate s' (nth_page v k) = None) \<and>
       (\<forall>w. user_page w \<and> (\<forall>k < j. w \<noteq> nth_page v k) \<longrightarrow> translate s' w = translate t w) \<and>
       (\<forall>w q. user_page w \<and> (\<forall>k < j. w \<noteq> nth_page v k) \<and> translate s w = Some q \<longrightarrow>
          translate s' w = Some q)) \<and>
    (\<forall>w q. user_page w \<and> (\<forall>k < n. w \<noteq> nth_page v k) \<and> translate s w = Some q \<longrightarrow>
       translate s' w = Some q)"
proof -
  let ?f = "\<lambda>i. page_map (nth_page p i) (nth_page v i) flag"
  obtain e j t where run: "until_error ?f 0 n s = (e, j, t)" by (rule prod_cases3)
  have lp: "vm_wf t \<and> j \<le> n \<and> (e = 0 \<longrightarrow> j = n) \<and> (\<forall>k < j. translate t (nth_page v k) = Some (nth_page p k)) \<and>
      (\<forall>w q. user_page w \<and> (\<forall>k < j. w \<noteq> nth_page v k) \<and> translate s w = Some q \<longrightarrow> translate t w = Some q)"
    using vm.map_loop [OF run assms(2,3) _ assms(4)] assms(5) by blast
  show ?thesis
  proof (cases "e = 0")
    case True
    with lp assms(1) run show ?thesis by (auto simp: page_map_range_def)
  next
    case False
    then have s': "s' = unmap_back (\<lambda>v. page_unmap v PAGE_NOTHING) v j t" "err = e"
      using assms(1) run by (auto simp: page_map_range_def)
    from until_error_splits [OF run False] obtain t0
      where jn: "j < n" and r0: "until_error ?f 0 j s = (0, j, t0)" and fail: "?f j t0 = (e, t)" by blast
    have r: "page_map_range p v flag j s = (0, t0)" using r0 by (simp add: page_map_range_def)
    have mapped: "user_page (nth_page v k) \<and> translate t (nth_page v k) \<noteq> None" if "k < j" for k
      using lp assms(5) that jn less_trans [of k j n] by (metis option.distinct(1))
    have j: "j \<le> 1048576" using jn assms(4) by simp
    note undo = vm.undo_loop [OF conjunct1 [OF lp] j mapped, folded s'(1)]
    have keep: "translate s' w = Some q" if "user_page w" "\<forall>k < j. w \<noteq> nth_page v k" "translate s w = Some q" for w q
      using undo lp that by metis
    then have "translate s' w = Some q" if "user_page w" "\<forall>k < n. w \<noteq> nth_page v k" "translate s w = Some q" for w q
      using that less_trans [OF _ jn] by blast
    moreover have "page_map_range p v flag j s = (0, t0) \<and> ?f j t0 = (err, t) \<and>
       (\<forall>k < j. translate t (nth_page v k) = Some (nth_page p k) \<and> translate s' (nth_page v k) = None) \<and>
       (\<forall>w. user_page w \<and> (\<forall>k < j. w \<noteq> nth_page v k) \<longrightarrow> translate s' w = translate t w)"
      using r fail s'(2) lp undo by simp
    ultimately show ?thesis using undo keep jn False s'(2) by auto
  qed
qed

text \<open>C7. \<^verbatim>\<open>page_map_range\<close> over at most 2^20 user pages, with the present flag and well-formed page tables. On success every page of the range translates to
  the page at the same offset of the physical range. On an error, with \<open>j\<close> the page whose \<^verbatim>\<open>page_map\<close>
  failed, after the \<open>j\<close> pages before it were mapped: these \<open>j\<close> pages, which translated when the call failed, do not
  translate any more, every other user page, the rest of the range included, translates as it did when the call failed, and
  those that translated before the call translate as before it. Either way the invariant is kept and every
  page outside the range that was mapped stays mapped to the same physical page.\<close>

theorem page_map_range_all_or_undone:
  assumes "page_map_range p v flag n s = (err, s')" "vm_wf s" "bit flag 0" "n \<le> 1048576"
    "\<forall>k < n. user_page (nth_page v k)"
  shows "vm_wf s' \<and>
    (if err = 0 then \<forall>k < n. translate s' (nth_page v k) = Some (nth_page p k)
     else \<exists>j < n. \<exists>t0 t. page_map_range p v flag j s = (0, t0) \<and>
       page_map (nth_page p j) (nth_page v j) flag t0 = (err, t) \<and>
       (\<forall>k < j. translate t (nth_page v k) = Some (nth_page p k) \<and> translate s' (nth_page v k) = None) \<and>
       (\<forall>w. user_page w \<and> (\<forall>k < j. w \<noteq> nth_page v k) \<longrightarrow> translate s' w = translate t w) \<and>
       (\<forall>w q. user_page w \<and> (\<forall>k < j. w \<noteq> nth_page v k) \<and> translate s w = Some q \<longrightarrow>
          translate s' w = Some q)) \<and>
    (\<forall>w q. user_page w \<and> (\<forall>k < n. w \<noteq> nth_page v k) \<and> translate s w = Some q \<longrightarrow>
       translate s' w = Some q)"
  using page_map_range_effect [OF assms] .

lemma demo_vm_range: "page_map_range 0x800000 0x400000 7 1 demo_vm = (0, put_pte 0x4F7000 0 0x800007 demo_vm)"
  by (simp add: page_map_range_def until_error.simps demo_vm_map)

text \<open>The same machine with a page of 4 MB in slot 2, which makes \<^verbatim>\<open>page_map\<close> fail there.\<close>

definition demo_big :: vm_st where
  "demo_big = demo_vm\<lparr>page_directory := (page_directory demo_vm)(2 := 0x81)\<rparr>"

lemma demo_big_frames: "table_frame demo_big d = table_frame demo_vm d"
  by (simp add: demo_big_def table_frame_def demo_vm_def bit_simps)

lemma demo_big_wf: "vm_wf demo_big"
  using demo_vm_wf demo_big_frames by (simp add: vm_wf_def demo_big_def free_pages_def)

lemma demo_big_dir [simp]: "dir_index 0x7FF000 = 1" "dir_index 0x800000 = 2" "unat (table_index 0x7FF000) = 1023"
  by (simp_all add: dir_index_def table_index_def)

lemma demo_big_first: "page_map 0x800000 0x7FF000 7 demo_big = (0, put_pte 0x4F7000 1023 0x800007 demo_big)"
  using page_map_backed [OF demo_big_wf, where v = "0x7FF000" and f = "0x4F7000" and p = "0x800000" and flag = 7]
  by (simp add: demo_big_frames demo_vm_frames PAGE_FLAG_def PAGE_ADDR_def bit_simps)

lemma demo_big_second: "page_map 0x801000 0x800000 7 (put_pte 0x4F7000 1023 0x800007 demo_big) =
    (- EINVAL, put_pte 0x4F7000 1023 0x800007 demo_big)"
  by (simp add: page_map_def Let_def put_pte_def demo_big_def PAGE_FLAG_def PAGE_ADDR_def PAGE_PRESENT_def PAGE_SIZE_def)

lemma demo_big_range: "fst (page_map_range 0x800000 0x7FF000 7 2 demo_big) = - EINVAL"
  by (simp add: page_map_range_def until_error.simps demo_big_first demo_big_second push_bit_eq_mult errno_defs)

theorem page_map_range_all_or_undone_witness:
  "translate (snd (page_map_range 0x800000 0x400000 7 1 demo_vm)) 0x400000 = Some 0x800000 \<and>
   fst (page_map_range 0x800000 0x7FF000 7 2 demo_big) = - EINVAL \<and>
   translate (snd (page_map_range 0x800000 0x7FF000 7 2 demo_big)) 0x7FF000 = None"
proof -
  let ?s' = "snd (page_map_range 0x800000 0x7FF000 7 2 demo_big)"
  have r: "page_map_range 0x800000 0x7FF000 7 2 demo_big = (- EINVAL, ?s')"
    using demo_big_range by (simp add: prod_eq_iff)
  have u: "\<forall>k < 2. user_page (nth_page 0x7FF000 k)"
    by (auto simp: less_2_cases_iff user_page_def PAGE_FLAG_def push_bit_eq_mult)
  from page_map_range_all_or_undone [OF r demo_big_wf _ _ u] obtain j t0 t
    where j: "j < 2" "page_map (nth_page 0x800000 j) (nth_page 0x7FF000 j) 7 t0 = (- EINVAL, t)"
      "page_map_range 0x800000 0x7FF000 7 j demo_big = (0, t0)" "\<forall>k < j. translate ?s' (nth_page 0x7FF000 k) = None"
    by (auto simp: errno_defs bit_simps)
  have "j \<noteq> 0"
  proof
    assume z: "j = 0"
    then have "t0 = demo_big" using j(3) by (simp add: page_map_range_def until_error.simps)
    then show False using j(2) demo_big_first z by (simp add: errno_defs)
  qed
  then have "translate ?s' 0x7FF000 = None" using j(4) by fastforce
  then show ?thesis
    using page_map_range_all_or_undone [OF demo_vm_range demo_vm_wf] demo_big_range
    by (simp add: demo_vm_range [simplified] bit_simps)
qed

text \<open>A successful \<^verbatim>\<open>page_map_at\<close> backs the user pages of its range with consecutive
  physical pages that were free before and are no longer free.\<close>

theorem page_map_at_backs_range:
  assumes "page_map_at v flag n s = (0, s')" "vm_wf s" "n \<le> 1048576"
    "\<forall>k < n. user_page (nth_page v k)"
  shows "vm_wf s' \<and> (\<exists>a. {page_of_addr a..<page_of_addr a + n} \<subseteq> free_pages s \<and>
    unat a mod 4096 = 0 \<and> (\<forall>k < n. translate s' (nth_page v k) = Some (nth_page a k)))"
proof -
  from assms(1) obtain a t where g: "get_phys_block n s = (a, t)" "a \<noteq> 0"
    and r: "page_map_range a v flag n t = (0, s')" and pr: "bit flag 0"
    by (auto simp: page_map_at_def errno_defs split: if_splits prod.splits)
  note gs = get_phys_block_Some [OF g]
  have "table_frame t = table_frame s" "lay t = lay s" "free_pages t \<subseteq> free_pages s"
    using free_pages_alloc [of a n s] gs(2,5) by (auto simp: table_frame_def fun_eq_iff)
  then have wft: "vm_wf t" using assms(2) by (auto simp: vm_wf_def)
  from page_map_range_effect [OF r wft pr assms(3,4)] phys.alloc_takes [OF TrueI g] gs(3)
  show ?thesis by auto
qed

lemma demo_vm_get: "get_phys_block 1 demo_vm = (0x4F8000, alloc_phys_block 0x4F8000 1 demo_vm)"
proof -
  have "free_run (page_bit (mm_bitmap demo_vm)) (8 * 159) 1"
    by (simp add: free_run_def page_bit_def demo_vm_simps bit_set_simps)
  from bitmap_scan_here [OF this, of 131072] show ?thesis
    by (simp add: get_phys_block_def MAX_RAM_PAGE_def LOW_MEMORY_SIZE_def Let_def)
qed

theorem page_map_at_backs_range_witness:
  "\<exists>s' a. page_map_at 0x400000 7 1 demo_vm = (0, s') \<and> page_of_addr a \<in> free_pages demo_vm \<and>
     translate s' 0x400000 = Some a"
proof -
  let ?t = "alloc_phys_block 0x4F8000 1 demo_vm"
  have fr: "table_frame ?t = table_frame demo_vm" "lay ?t = lay demo_vm" "free_pages ?t \<subseteq> free_pages demo_vm"
    using free_pages_alloc [of "0x4F8000" 1 demo_vm] by (auto simp: table_frame_def fun_eq_iff)
  then have wft: "vm_wf ?t" using demo_vm_wf by (auto simp: vm_wf_def)
  have m: "page_map 0x4F8000 0x400000 7 ?t = (0, put_pte 0x4F7000 0 0x4F8007 ?t)"
    using page_map_backed [OF wft, where v = "0x400000" and f = "0x4F7000" and p = "0x4F8000" and flag = 7] fr
    by (simp add: demo_vm_frames PAGE_FLAG_def PAGE_ADDR_def bit_simps table_index_def)
  have *: "page_map_at 0x400000 7 1 demo_vm = (0, put_pte 0x4F7000 0 0x4F8007 ?t)"
    using m demo_vm_get
    by (simp add: page_map_at_def page_map_range_def until_error.simps PAGE_ADDR_def PAGE_FLAG_def bit_simps)
  show ?thesis using page_map_at_backs_range [OF * demo_vm_wf] * by auto
qed

text \<open>A page table that \<^verbatim>\<open>page_map\<close> allocates is used as it is found: every other address of
  that directory slot translates according to whatever the physical page held, although it
  had no translation before.\<close>

theorem page_map_new_table_keeps_old_words:
  assumes "page_map p v flag s = (0, s')" "vm_wf s" "user_page v" "bit flag 0"
    "table_frame s (dir_index v) = None" "user_page w" "dir_index w = dir_index v" "w \<noteq> v"
  shows "translate s w = None \<and>
    translate s' w = (let e = pmem s (fst (get_phys_block 1 s)) (unat (table_index w)) in
      if bit e 0 then Some (PAGE_GET_ADDR e) else None)"
proof -
  have d: "dir_index v \<noteq> 768" "v AND PAGE_FLAG = 0" "w AND PAGE_FLAG = 0"
    using assms(3,6) by (simp_all add: user_page_def)
  from assms(1,2) d(1) assms(4) show ?thesis
  proof (cases rule: page_map_success_cases)
    case (fresh f)
    let ?a = "add_table (dir_index v) f s"
    have wfa: "vm_wf ?a" using vm_wf_add_table [OF assms(2) d(1) dir_index_less fresh(1-4)] .
    have tf: "table_frame ?a (dir_index v) = Some f" using fresh(2) by (simp add: table_frame_add_table)
    show ?thesis
      using translate_put_pte [OF wfa tf d, of "p OR flag"] user_page_not_window [OF assms(6), of ?a]
        fresh(1,5,6) assms(7,8) tf
      by (simp add: translate_def pte_def Let_def)
  qed (use assms(5) in simp)
qed

definition demo_stale :: vm_st where
  "demo_stale = demo_vm\<lparr>pmem := (\<lambda>_ _. 0xBAD007)\<rparr>"

lemma demo_stale_words: "pmem demo_stale = (\<lambda>_ _. 0xBAD007)"
  by (simp add: demo_stale_def)

theorem page_map_new_table_keeps_old_words_witness:
  "\<exists>s'. page_map 0x600000 0x800000 7 demo_stale = (0, s') \<and>
     translate demo_stale 0x801000 = None \<and> translate s' 0x801000 = Some 0xBAD000"
proof -
  have fr: "table_frame demo_stale = table_frame demo_vm" "free_pages demo_stale = free_pages demo_vm"
      "lay demo_stale = lay demo_vm" "mm_bitmap demo_stale = mm_bitmap demo_vm"
    by (simp_all add: demo_stale_def table_frame_def free_pages_def fun_eq_iff)
  then have wf: "vm_wf demo_stale" using demo_vm_wf by (simp add: vm_wf_def)
  have u: "user_page 0x800000" "user_page 0x801000" "dir_index 0x800000 = 2" "dir_index 0x801000 = 2"
    by (simp_all add: user_page_def PAGE_FLAG_def dir_index_def)
  have "free_run (page_bit (mm_bitmap demo_stale)) (8 * 159) 1"
    by (simp add: free_run_def page_bit_def demo_vm_simps bit_set_simps fr)
  from bitmap_scan_here [OF this, of 131072]
  have g: "get_phys_block 1 demo_stale = (0x4F8000, alloc_phys_block 0x4F8000 1 demo_stale)"
    by (simp add: get_phys_block_def MAX_RAM_PAGE_def LOW_MEMORY_SIZE_def Let_def)
  have "\<exists>s'. page_map 0x600000 0x800000 7 demo_stale = (0, s')"
    using page_map_fresh [OF wf _ _ _ _ _ _ _ g, where v = "0x800000" and p = "0x600000" and flag = 7]
    by (simp add: u PAGE_FLAG_def PAGE_ADDR_def bit_simps demo_stale_def demo_vm_def)
  then obtain s' where m: "page_map 0x600000 0x800000 7 demo_stale = (0, s')" by blast
  show ?thesis
    using page_map_new_table_keeps_old_words [OF m wf u(1) _ _ u(2)] m g
    by (simp add: u fr demo_vm_frames bit_simps demo_stale_words PAGE_GET_ADDR_def PAGE_ADDR_def
        PAGE_FLAG_def Let_def)
qed

text \<open>\<^verbatim>\<open>page_unmap_at\<close> never unmaps or frees anything: its loops start at their bound, so for
  every argument the state is unchanged and the result is 0 or \<^verbatim>\<open>-EINVAL\<close>.\<close>

theorem page_unmap_at_does_nothing:
  "page_unmap_at v flags n s =
     (if bit flags 0 then - EINVAL
      else if flags AND PAGE_ADDR = 0 \<and> v AND PAGE_FLAG = 0 then 0 else - EINVAL, s)"
  by (simp add: page_unmap_at_def until_error.simps)

end
