(* ===== verification/Kmalloc_Correct.thy ===== *)
theory Kmalloc_Correct
  imports Heap_Chain Heap_Allocator Paging_Correct
begin

text \<open>
  Correctness of the heap: the invariant that every area is tiled by its blocks, that areas
  do not overlap and that their virtual pages are taken; what \<^verbatim>\<open>kmalloc\<close>, \<^verbatim>\<open>vmalloc\<close>, \<^verbatim>\<open>kfree\<close>
  and \<^verbatim>\<open>vfree\<close> do to the set of live blocks; and the interpretation of the heap
  contract by both pairs of operations.
\<close>

abbreviation area_end :: "nat \<times> heap_list \<Rightarrow> nat" where
  "area_end e \<equiv> fst e + 32 + page_size (snd e)"

abbreviation area_blocks :: "(nat \<Rightarrow> alloc_header) \<Rightarrow> nat \<times> heap_list \<Rightarrow> blocks" where
  "area_blocks h e \<equiv> chain h (fst e + 32) (area_end e)"

definition block_range :: "nat \<times> alloc_header \<Rightarrow> nat \<times> nat" where
  "block_range x = (fst x + 16, hsize (snd x))"

definition live_in :: "blocks \<Rightarrow> (nat \<times> nat) set" where
  "live_in xs = block_range ` set (used xs)"

definition live :: "'a heap_st_scheme \<Rightarrow> (nat \<times> nat) set" where
  "live s = (\<Union>e \<in> set (heap s). live_in (area_blocks (headers s) e))"

definition area_pages :: "nat \<Rightarrow> bitmap \<Rightarrow> nat \<times> heap_list \<Rightarrow> bool" where
  "area_pages hs bm e \<longleftrightarrow> (\<exists>k c. fst e = hs + 4096 * k \<and> page_size (snd e) + 32 = 4096 * c \<and>
     0 < c \<and> k + c \<le> 4096 \<and> (\<forall>i. k \<le> i \<and> i < k + c \<longrightarrow> \<not> page_bit bm i))"

definition area_ok :: "(nat \<Rightarrow> alloc_header) \<Rightarrow> nat \<times> heap_list \<Rightarrow> bool" where
  "area_ok h e \<longleftrightarrow> seg (fst e + 32) (area_end e) (area_blocks h e) \<and>
     (\<forall>x \<in> set (used (area_blocks h e)). fst x < fst e + page_size (snd e))"

definition areas_apart :: "nat \<times> heap_list \<Rightarrow> nat \<times> heap_list \<Rightarrow> bool" where
  "areas_apart e f \<longleftrightarrow> area_end e \<le> fst f \<or> area_end f \<le> fst e"

definition heap_inv :: "'a heap_st_scheme \<Rightarrow> bool" where
  "heap_inv s \<longleftrightarrow>
     (\<forall>e \<in> set (heap s). area_ok (headers s) e \<and> area_pages (HEAP_START s) (mm_virt_heap s) e) \<and>
     sorted_wrt areas_apart (heap s)"

lemma areas_apart_sym: "areas_apart e f = areas_apart f e"
  by (auto simp: areas_apart_def)

lemma sorted_wrt_pair:
  assumes "sorted_wrt P xs" "\<And>x y. P x y = P y x" "x \<in> set xs" "y \<in> set xs" "x \<noteq> y"
  shows "P x y"
  using assms by (induction xs) auto

lemma heap_inv_apart: "heap_inv s \<Longrightarrow> e \<in> set (heap s) \<Longrightarrow> f \<in> set (heap s) \<Longrightarrow> e \<noteq> f \<Longrightarrow> areas_apart e f"
  using sorted_wrt_pair [of areas_apart "heap s" e f] areas_apart_sym by (auto simp: heap_inv_def)

lemma heap_inv_area: "heap_inv s \<Longrightarrow> e \<in> set (heap s) \<Longrightarrow> area_ok (headers s) e"
  by (simp add: heap_inv_def)

lemma area_small:
  assumes "heap_inv s" "e \<in> set (heap s)"
  shows "area_end e < fst e + 32 + 2147483648" "fst e + page_size (snd e) \<le> area_end e"
    "0 < page_size (snd e)"
proof -
  obtain c where "page_size (snd e) + 32 = 4096 * c" "0 < c" "c \<le> 4096"
    using assms by (fastforce simp: heap_inv_def area_pages_def)
  then have "4096 \<le> page_size (snd e) + 32" "page_size (snd e) + 32 \<le> 16777216" by simp_all
  then show "area_end e < fst e + 32 + 2147483648" "fst e + page_size (snd e) \<le> area_end e"
    "0 < page_size (snd e)" by simp_all
qed

lemma heap_cong:
  assumes "heap s' = heap s" "headers s' = headers s" "mm_virt_heap s' = mm_virt_heap s" "lay s' = lay s"
  shows "heap_inv s' = heap_inv s" "live s' = live s"
  using assms by (simp_all add: heap_inv_def live_def HEAP_START_def)

lemma heap_vm_frame:
  assumes "vm_frame s s'"
  shows "heap s' = heap s" "headers s' = headers s" "mm_virt_heap s' = mm_virt_heap s" "lay s' = lay s"
  using assms by (auto simp: vm_frame_def)

subsection \<open>Rewriting the blocks of one area\<close>

lemma blocks_other_area:
  assumes "heap_inv s" "e \<in> set (heap s)" "f \<in> set (heap s)" "e \<noteq> f"
    "\<And>a. a < fst e + 32 \<or> area_end e \<le> a \<Longrightarrow> h' a = headers s a"
  shows "area_blocks h' f = area_blocks (headers s) f"
proof (rule chain_cong)
  show "seg (fst f + 32) (area_end f) (area_blocks (headers s) f)"
    using heap_inv_area [OF assms(1,3)] by (simp add: area_ok_def)
  show "h' a = headers s a" if "fst f + 32 \<le> a" "a < area_end f" for a
    using heap_inv_apart [OF assms(1-4)] assms(5) [of a] that by (auto simp: areas_apart_def)
qed

lemma rewrite_area:
  assumes inv: "heap_inv s" and e: "e \<in> set (heap s)"
    and new: "seg (fst e + 32) (area_end e) xs" "matches h' xs"
      "\<And>x. x \<in> set (used xs) \<Longrightarrow> fst x < fst e + page_size (snd e)"
    and out: "\<And>a. a < fst e + 32 \<or> area_end e \<le> a \<Longrightarrow> h' a = headers s a"
  shows "heap_inv (s\<lparr>headers := h'\<rparr>)" "area_blocks h' e = xs"
    "live (s\<lparr>headers := h'\<rparr>) =
       live_in xs \<union> (\<Union>f \<in> set (heap s) - {e}. live_in (area_blocks (headers s) f))"
proof -
  show eq: "area_blocks h' e = xs" using chain_eq [OF new(1,2)] .
  have other: "area_blocks h' f = area_blocks (headers s) f" if "f \<in> set (heap s)" "f \<noteq> e" for f
    using blocks_other_area [OF inv e that(1)] that(2) out by metis
  have "area_ok h' f" if "f \<in> set (heap s)" for f
    using heap_inv_area [OF inv that] other [OF that] eq new by (cases "f = e") (simp_all add: area_ok_def)
  then show "heap_inv (s\<lparr>headers := h'\<rparr>)" using inv by (simp add: heap_inv_def HEAP_START_def)
  show "live (s\<lparr>headers := h'\<rparr>) =
       live_in xs \<union> (\<Union>f \<in> set (heap s) - {e}. live_in (area_blocks (headers s) f))"
  proof -
    have "live (s\<lparr>headers := h'\<rparr>) = live_in (area_blocks h' e) \<union>
        (\<Union>f \<in> set (heap s) - {e}. live_in (area_blocks h' f))"
      using e by (auto simp: live_def)
    then show ?thesis using other eq by simp
  qed
qed

lemma live_split:
  assumes "e \<in> set (heap s)"
  shows "live s = live_in (area_blocks (headers s) e) \<union>
    (\<Union>f \<in> set (heap s) - {e}. live_in (area_blocks (headers s) f))"
  using assms by (auto simp: live_def)

text \<open>Live blocks lie in their area, and apart from each other.\<close>

lemma live_in_bounds:
  assumes "area_ok h e" "(p, m) \<in> live_in (area_blocks h e)"
  shows "fst e + 48 \<le> p" "p + m \<le> area_end e"
  using assms seg_mem(1,2) [of "fst e + 32" "area_end e" "area_blocks h e"]
  by (fastforce simp: area_ok_def live_in_def block_range_def)+

lemma live_apart_in:
  assumes "seg p e xs" "x \<in> live_in xs" "y \<in> live_in xs" "x \<noteq> y"
  shows "apart x y"
proof -
  obtain u v where uv: "u \<in> set xs" "v \<in> set xs" "x = block_range u" "y = block_range v"
    using assms(2,3) by (auto simp: live_in_def)
  with assms(4) have "u \<noteq> v" by auto
  have "(fst u + 16 + hsize (snd u) \<le> fst v) \<or> (fst v + 16 + hsize (snd v) \<le> fst u)"
    using seg_sorted [OF assms(1)] uv(1,2) \<open>u \<noteq> v\<close>
    by (intro sorted_wrt_pair [of "\<lambda>x y. fst x + 16 + hsize (snd x) \<le> fst y \<or> fst y + 16 + hsize (snd y) \<le> fst x"])
       (auto intro: sorted_wrt_mono_rel [rotated])
  then show ?thesis using uv by (auto simp: apart_def block_range_def)
qed

lemma live_apart:
  assumes "heap_inv s" "x \<in> live s" "y \<in> live s" "x \<noteq> y"
  shows "apart x y"
proof -
  obtain e f where e: "e \<in> set (heap s)" "x \<in> live_in (area_blocks (headers s) e)"
    and f: "f \<in> set (heap s)" "y \<in> live_in (area_blocks (headers s) f)"
    using assms(2,3) by (auto simp: live_def)
  note ok = heap_inv_area [OF assms(1) e(1)] heap_inv_area [OF assms(1) f(1)]
  show ?thesis
  proof (cases "e = f")
    case True
    have "seg (fst e + 32) (area_end e) (area_blocks (headers s) e)" using ok(1) by (simp add: area_ok_def)
    from live_apart_in [OF this e(2) _ assms(4)] f(2) True show ?thesis by simp
  next
    case False
    from heap_inv_apart [OF assms(1) e(1) f(1) False] show ?thesis
      using live_in_bounds [OF ok(1), of "fst x" "snd x"] live_in_bounds [OF ok(2), of "fst y" "snd y"] e(2) f(2)
      by (auto simp: areas_apart_def apart_def)
  qed
qed

subsection \<open>Allocating in an area\<close>

lemma unat_malloc_align_mod: "unat (MALLOC_ALIGN n) mod 16 = 0"
proof -
  have m: "unat (n mod 16) = unat n mod 16" by (simp add: unat_mod)
  have le: "n mod 16 \<le> n" by (simp add: word_le_nat_alt m)
  have "unat (n - n mod 16 + 16) mod 16 = 0"
  proof -
    have "unat (n - n mod 16) = unat n - unat n mod 16" using le by (simp add: unat_sub m)
    then have "unat (n - n mod 16 + 16) = (unat n - unat n mod 16 + 16) mod 4294967296"
      by (simp add: unat_word_ariths)
    moreover have "(unat n - unat n mod 16 + 16) mod 4294967296 mod 16 = (unat n - unat n mod 16 + 16) mod 16"
      by (rule mod_mod_cancel) simp
    moreover have "(unat n - unat n mod 16 + 16) mod 16 = 0" by (simp add: minus_mod_eq_mult_div)
    ultimately show ?thesis by simp
  qed
  moreover have "unat n mod 16 = 0" if "n mod 16 = 0" using m that by simp
  ultimately show ?thesis by (simp add: MALLOC_ALIGN_def)
qed

lemma malloc_align_dvd [simp]: "16 dvd unat (MALLOC_ALIGN n)"
  using unat_malloc_align_mod by (simp add: dvd_eq_mod_eq_0)

lemma malloc_align_le:
  assumes "unat n < 2147483648"
  shows "unat n \<le> unat (MALLOC_ALIGN n)" "unat (MALLOC_ALIGN n) < unat n + 16"
proof -
  have m: "unat (n mod 16) = unat n mod 16" by (simp add: unat_mod)
  then have "unat (n - n mod 16) = unat n - unat n mod 16"
    by (simp add: unat_sub word_le_nat_alt)
  then have u: "unat (n - n mod 16 + 16) = unat n - unat n mod 16 + 16"
    using assms by (simp add: unat_word_ariths)
  have "unat n mod 16 < 16" by simp
  moreover have "0 < unat n mod 16" if "n mod 16 \<noteq> 0" using that m by (metis gr0I unat_eq_zero)
  ultimately show "unat n \<le> unat (MALLOC_ALIGN n)" "unat (MALLOC_ALIGN n) < unat n + 16"
    by (auto simp: MALLOC_ALIGN_def u)
qed

lemma live_in_take_block:
  assumes "hfree (snd x)" "n < hsize (snd x)"
  shows "\<exists>m \<ge> n. live_in (ys @ take_block n x @ zs) = insert (fst x + 16, m) (live_in (ys @ x # zs))"
proof -
  let ?m = "if hsize (snd x) > 32 then n else hsize (snd x)"
  have "used (take_block n x) = [(fst x, \<lparr>hsize = ?m, hfree = False\<rparr>)]" by (simp add: take_block_def)
  then have "live_in (ys @ take_block n x @ zs) = insert (fst x + 16, ?m) (live_in (ys @ x # zs))"
    using assms(1) by (simp add: live_in_def block_range_def image_Un)
  then show ?thesis using assms(2) by (intro exI [of _ ?m]) simp
qed

lemma free_block_not_live:
  assumes inv: "heap_inv s" and e: "e \<in> set (heap s)" and x: "x \<in> set (area_blocks (headers s) e)" "hfree (snd x)"
  shows "fst x + 16 \<notin> fst ` live s"
proof
  assume "fst x + 16 \<in> fst ` live s"
  then obtain f u where f: "f \<in> set (heap s)" and u: "u \<in> set (area_blocks (headers s) f)"
      "\<not> hfree (snd u)" "fst u = fst x"
    by (auto simp: live_def live_in_def block_range_def)
  have "headers s (fst x) = snd x" "headers s (fst u) = snd u"
    using chain_matches x(1) u(1) unfolding matches_def by blast+
  with x(2) u(2,3) show False by simp
qed

lemma try_walk_area:
  assumes "heap_inv s" "e \<in> set (heap s)"
  shows "try_walk (headers s) (fst e + 32) (fst e + page_size (snd e)) (unat (MALLOC_ALIGN n)) =
    (case find (fits (fst e + page_size (snd e)) (unat (MALLOC_ALIGN n))) (area_blocks (headers s) e) of
       None \<Rightarrow> None
     | Some x \<Rightarrow> Some (fst x + 16, write_blocks (take_block (unat (MALLOC_ALIGN n)) x) (headers s)))"
proof (rule try_walk_find [OF _ chain_matches])
  show "seg (fst e + 32) (area_end e) (area_blocks (headers s) e)"
    using heap_inv_area [OF assms] by (simp add: area_ok_def)
qed (use area_small [OF assms] in simp_all)

lemma try_allocate_outcome:
  assumes inv: "heap_inv s" and e: "e \<in> set (heap s)" and t: "try_allocate e n s = (r, s')"
  shows "case r of
      None \<Rightarrow> s' = s \<and> (\<forall>x \<in> set (area_blocks (headers s) e).
        \<not> fits (fst e + page_size (snd e)) (unat (MALLOC_ALIGN n)) x)
    | Some p \<Rightarrow> (\<exists>h. s' = s\<lparr>headers := h\<rparr>) \<and> heap_inv s' \<and> p \<notin> fst ` live s \<and>
        (\<exists>m \<ge> unat (MALLOC_ALIGN n). live s' = insert (p, m) (live s))"
proof -
  let ?xs = "area_blocks (headers s) e" and ?b = "fst e + page_size (snd e)" and ?n = "unat (MALLOC_ALIGN n)"
  have ok: "seg (fst e + 32) (area_end e) ?xs" "\<And>x. x \<in> set (used ?xs) \<Longrightarrow> fst x < ?b"
    using heap_inv_area [OF inv e] unfolding area_ok_def by blast+
  note w = try_walk_area [OF inv e, of n]
  show ?thesis
  proof (cases "find (fits ?b ?n) ?xs")
    case None
    then have "\<forall>x \<in> set ?xs. \<not> fits ?b ?n x" by (auto simp: find_None_iff)
    with t w None show ?thesis by (auto simp: try_allocate_def sizeof_defs)
  next
    case (Some x)
    then have x: "x \<in> set ?xs" "fst x < ?b" "?n < hsize (snd x)" "hfree (snd x)"
      by (auto simp: find_Some_iff fits_def)
    then obtain ys zs where xs: "?xs = ys @ x # zs" by (meson split_list)
    let ?h = "write_blocks (take_block ?n x) (headers s)"
    have ss: "seg (fst e + 32) (area_end e) (ys @ x # zs)" "matches (headers s) (ys @ x # zs)"
      using ok(1) chain_matches [of "headers s" "fst e + 32" "area_end e"] unfolding xs by simp_all
    note tb = take_block_ok [OF ss x(3) malloc_align_dvd]
    have bd: "fst y < ?b" if "y \<in> set (used (ys @ take_block ?n x @ zs))" for y
      using that ok(2) [of y] xs x(2,4) by (auto simp: take_block_def split: if_splits)
    note rw = rewrite_area [OF inv e tb(1,2) bd tb(3)]
    obtain m where m: "m \<ge> ?n" "live_in (ys @ take_block ?n x @ zs) = insert (fst x + 16, m) (live_in ?xs)"
      using live_in_take_block [OF x(4,3)] xs by metis
    have "live (s\<lparr>headers := ?h\<rparr>) = insert (fst x + 16, m) (live s)"
      using rw(3) m(2) live_split [OF e] by simp
    with rw(1) free_block_not_live [OF inv e x(1,4)] m(1) t w Some show ?thesis
      by (auto simp: try_allocate_def sizeof_defs)
  qed
qed

subsection \<open>Virtual pages\<close>

lemma heap_page_index:
  fixes k :: nat
  shows "(HEAP_START s + 4096 * k - HEAP_START s) div 32768 = k div 8"
    "(HEAP_START s + 4096 * k - HEAP_START s) div 4096 mod 8 = k mod 8"
proof -
  have "4096 * k div (4096 * 8) = k div 8" by (rule div_mult_mult1) simp
  then show "(HEAP_START s + 4096 * k - HEAP_START s) div 32768 = k div 8"
    "(HEAP_START s + 4096 * k - HEAP_START s) div 4096 mod 8 = k mod 8" by simp_all
qed

lemma HEAP_START_upd [simp]:
  "HEAP_START (s\<lparr>mm_virt_heap := b\<rparr>) = HEAP_START s" "HEAP_START (s\<lparr>klog := l\<rparr>) = HEAP_START s"
  "HEAP_START (s\<lparr>headers := h\<rparr>) = HEAP_START s" "HEAP_START (s\<lparr>heap := x\<rparr>) = HEAP_START s"
  "HEAP_START (printk m s) = HEAP_START s"
  by (simp_all add: HEAP_START_def printk_def)

lemma range_Suc: "k \<le> i \<and> i < k + Suc n \<longleftrightarrow> i = k \<or> (Suc k \<le> i \<and> i < Suc k + n)"
  by auto

lemma alloc_virt_block_pages:
  "\<exists>bm. alloc_virt_block (HEAP_START s + 4096 * k) n s = s\<lparr>mm_virt_heap := bm\<rparr> \<and>
     (\<forall>i. page_bit bm i \<longleftrightarrow> page_bit (mm_virt_heap s) i \<and> \<not> (k \<le> i \<and> i < k + n))"
proof (induction n arbitrary: k s)
  case 0
  show ?case by (rule exI [of _ "mm_virt_heap s"]) simp
next
  case (Suc n)
  let ?bm = "(mm_virt_heap s)(k div 8 := mm_virt_heap s (k div 8) AND NOT (2 ^ (k mod 8)))"
  let ?t = "s\<lparr>mm_virt_heap := ?bm\<rparr>"
  have st: "alloc_virt_block (HEAP_START s + 4096 * k) (Suc n) s =
      alloc_virt_block (HEAP_START ?t + 4096 * Suc k) n ?t"
    by (simp add: Let_def heap_page_index [simplified] add_ac)
  obtain bm where "alloc_virt_block (HEAP_START ?t + 4096 * Suc k) n ?t = ?t\<lparr>mm_virt_heap := bm\<rparr>"
      "\<forall>i. page_bit bm i \<longleftrightarrow> page_bit (mm_virt_heap ?t) i \<and> \<not> (Suc k \<le> i \<and> i < Suc k + n)"
    using Suc [of ?t "Suc k"] by blast
  moreover have "page_bit (mm_virt_heap ?t) i \<longleftrightarrow> page_bit (mm_virt_heap s) i \<and> i \<noteq> k" for i
    using page_bit_clear [of "mm_virt_heap s" k i] by simp
  ultimately show ?case
    unfolding st range_Suc by (intro exI [of _ bm] conjI allI) (simp, blast)
qed

lemma free_virt_block_pages:
  "\<exists>l bm. free_virt_block (HEAP_START s + 4096 * k) n s = s\<lparr>klog := l, mm_virt_heap := bm\<rparr> \<and>
     (\<forall>i. page_bit bm i \<longleftrightarrow> page_bit (mm_virt_heap s) i \<or> (k \<le> i \<and> i < k + n))"
proof (induction n arbitrary: k s)
  case 0
  show ?case by (rule exI [of _ "klog s"], rule exI [of _ "mm_virt_heap s"]) auto
next
  case (Suc n)
  let ?bm = "(mm_virt_heap s)(k div 8 := mm_virt_heap s (k div 8) OR 2 ^ (k mod 8))"
  obtain l where st: "free_virt_block (HEAP_START s + 4096 * k) (Suc n) s =
      free_virt_block (HEAP_START (s\<lparr>klog := l, mm_virt_heap := ?bm\<rparr>) + 4096 * Suc k) n
        (s\<lparr>klog := l, mm_virt_heap := ?bm\<rparr>)"
  proof
    show "free_virt_block (HEAP_START s + 4096 * k) (Suc n) s =
      free_virt_block (HEAP_START (s\<lparr>klog := if page_bit (mm_virt_heap s) k
          then klog s @ [''try to free already unallocated block''] else klog s, mm_virt_heap := ?bm\<rparr>) + 4096 * Suc k) n
        (s\<lparr>klog := if page_bit (mm_virt_heap s) k
          then klog s @ [''try to free already unallocated block''] else klog s, mm_virt_heap := ?bm\<rparr>)"
      by (simp add: Let_def heap_page_index [simplified] add_ac and_exp_0 page_bit_def printk_def)
  qed
  let ?t = "s\<lparr>klog := l, mm_virt_heap := ?bm\<rparr>"
  obtain l' bm where "free_virt_block (HEAP_START ?t + 4096 * Suc k) n ?t = ?t\<lparr>klog := l', mm_virt_heap := bm\<rparr>"
      "\<forall>i. page_bit bm i \<longleftrightarrow> page_bit (mm_virt_heap ?t) i \<or> (Suc k \<le> i \<and> i < Suc k + n)"
    using Suc [of ?t "Suc k"] by blast
  moreover have "page_bit (mm_virt_heap ?t) i \<longleftrightarrow> page_bit (mm_virt_heap s) i \<or> i = k" for i
    using page_bit_set [of "mm_virt_heap s" k i] by simp
  ultimately show ?case
    unfolding st range_Suc by (intro exI [of _ l'] exI [of _ bm] conjI allI) (simp, blast)
qed

lemma unat_PAGE_ALIGN_below:
  assumes "unat x < 4294963200"
  shows "unat x \<le> unat (PAGE_ALIGN x)" "unat (PAGE_ALIGN x) < unat x + 4096" "unat (PAGE_ALIGN x) mod 4096 = 0"
proof -
  have m: "unat (x mod 4096) = unat x mod 4096" by (simp add: unat_mod)
  then have "unat (x - x mod 4096) = unat x - unat x mod 4096"
    by (simp add: unat_sub word_le_nat_alt)
  then have u: "unat (x - x mod 4096 + 4096) = unat x - unat x mod 4096 + 4096"
    using assms by (simp add: unat_word_ariths)
  have lt: "unat x mod 4096 < 4096" by simp
  have "0 < unat x mod 4096" if "x mod 4096 \<noteq> 0" using that m by (metis gr0I unat_eq_zero)
  moreover have "unat x mod 4096 = 0" if "x mod 4096 = 0" using that m by simp
  moreover have "(unat x - unat x mod 4096 + 4096) mod 4096 = 0" by (simp add: minus_mod_eq_mult_div)
  ultimately show "unat x \<le> unat (PAGE_ALIGN x)" "unat (PAGE_ALIGN x) < unat x + 4096"
    "unat (PAGE_ALIGN x) mod 4096 = 0"
    using lt by (auto simp: PAGE_ALIGN_def u)
qed

lemma unat_PAGE_ALIGN:
  assumes "unat x < 2147483648"
  shows "unat x \<le> unat (PAGE_ALIGN x)" "unat (PAGE_ALIGN x) < unat x + 4096" "unat (PAGE_ALIGN x) mod 4096 = 0"
  using assms by (simp_all add: unat_PAGE_ALIGN_below)

subsection \<open>A new area\<close>

lemma area_size_pages:
  assumes "unat n < 1073741824"
  obtains c where "unat (area_size n) = 4096 * c" "unat n + 48 \<le> 4096 * c" "0 < c"
    "pages_of (area_size n) = c" "pages_of (PAGE_ALIGN (area_size n)) = c" "4096 * c < unat n + 4144"
proof -
  have u: "unat (n + of_nat sizeof_heap_list + of_nat sizeof_alloc_header) = unat n + 48"
    using assms by (simp add: sizeof_defs unat_word_ariths)
  then have "unat (n + of_nat sizeof_heap_list + of_nat sizeof_alloc_header) < 2147483648"
    using assms by simp
  note pa = unat_PAGE_ALIGN [OF this, unfolded u]
  let ?c = "unat (area_size n) div 4096"
  have c: "unat (area_size n) = 4096 * ?c" using pa(3) by (simp add: mult_div_mod_eq [symmetric] mod_eq_0_iff_dvd)
  have "area_size n mod 4096 = 0"
    using pa(3) by (simp add: word_unat_eq_iff unat_mod)
  then have "PAGE_ALIGN (area_size n) = area_size n" by (simp add: PAGE_ALIGN_def)
  moreover have "pages_of (area_size n) = ?c" by (simp add: unat_drop_bit)
  moreover have "0 < ?c" "unat n + 48 \<le> 4096 * ?c" "4096 * ?c < unat n + 4144"
    using pa(1,2) c by (auto intro: Nat.gr0I)
  ultimately show thesis using that [of ?c] c by simp
qed

lemma find_free_virt_addr_Some:
  assumes "find_free_virt_addr len s = (Some a, s')"
  obtains k bm where "a = HEAP_START s + 4096 * k" "k + pages_of (PAGE_ALIGN len) < 4096"
    "\<And>i. k \<le> i \<Longrightarrow> i < k + pages_of (PAGE_ALIGN len) \<Longrightarrow> page_bit (mm_virt_heap s) i"
    "s' = s\<lparr>mm_virt_heap := bm\<rparr>"
    "\<And>i. page_bit bm i \<longleftrightarrow> page_bit (mm_virt_heap s) i \<and> \<not> (k \<le> i \<and> i < k + pages_of (PAGE_ALIGN len))"
proof -
  let ?n = "pages_of (PAGE_ALIGN len)"
  obtain k where k: "bitmap_scan (mm_virt_heap s) 512 ?n 0 0 = Some k" "a = HEAP_START s + 4096 * k"
      "s' = alloc_virt_block (HEAP_START s + 4096 * k) ?n s"
    using assms by (auto simp: find_free_virt_addr_def Let_def HEAP_SIZE_def mult.commute split: option.splits)
  have sc: "k + ?n < 4096" "free_run (page_bit (mm_virt_heap s)) k ?n"
    using bitmap_scan_Some(2,3) [OF k(1)] by simp_all
  show thesis
    using alloc_virt_block_pages [of s k ?n] k sc that by (auto simp: free_run_iff)
qed

lemma find_free_virt_addr_None: "find_free_virt_addr len s = (None, s') \<Longrightarrow> s' = s"
  by (auto simp: find_free_virt_addr_def Let_def split: option.splits)

lemma add_area:
  assumes inv: "heap_inv s" and c: "0 < c" "k + c < 4096"
    and free: "\<forall>i. k \<le> i \<and> i < k + c \<longrightarrow> page_bit (mm_virt_heap s) i"
    and bm: "\<forall>i. page_bit bm i \<longleftrightarrow> page_bit (mm_virt_heap s) i \<and> \<not> (k \<le> i \<and> i < k + c)"
    and t: "heap t = heap s" "headers t = headers s" "mm_virt_heap t = bm" "lay t = lay s"
    and s': "s' = init_new_allocated_block (HEAP_START s + 4096 * k) (4096 * c) virt t"
  shows "heap_inv s'" "live s' = live s"
    "hd (heap s') \<in> set (heap s')" "page_size (snd (hd (heap s'))) = 4096 * c - 32"
    "area_blocks (headers s') (hd (heap s')) =
       [(fst (hd (heap s')) + 32, \<lparr>hsize = 4096 * c - 48, hfree = True\<rparr>)]"
proof -
  let ?a = "HEAP_START s + 4096 * k"
  let ?e = "(?a, \<lparr>page_size = 4096 * c - 32, virtual = virt\<rparr>)"
  have "4096 * c < 2147483648" "48 \<le> 4096 * c" using c by auto
  then have sz: "bits31 (4096 * c + 4294967296 - 32) = 4096 * c - 32"
      "bits31 (4096 * c + 4294967296 - 32 - 16) = 4096 * c - 48"
    by (simp_all add: bits31_def mod_if)
  have hs: "heap s' = ?e # heap s" "headers s' = (headers s)(?a + 32 := \<lparr>hsize = 4096 * c - 48, hfree = True\<rparr>)"
      "mm_virt_heap s' = bm" "HEAP_START s' = HEAP_START s"
    using t sz by (simp_all add: s' init_new_allocated_block_def sizeof_defs HEAP_START_def)
  have ap: "areas_apart ?e f" if f: "f \<in> set (heap s)" for f
  proof -
    obtain k' c' where f': "fst f = HEAP_START s + 4096 * k'" "page_size (snd f) + 32 = 4096 * c'" "0 < c'"
        "\<And>i. k' \<le> i \<Longrightarrow> i < k' + c' \<Longrightarrow> \<not> page_bit (mm_virt_heap s) i"
      using inv f by (auto simp: heap_inv_def area_pages_def)
    have "k + c \<le> k' \<or> k' + c' \<le> k"
      using free f'(4) [of k'] f'(4) [of k] f'(3) c(1) by (cases "k \<le> k'") force+
    then have "4096 * k + 4096 * c \<le> 4096 * k' \<or> 4096 * k' + 4096 * c' \<le> 4096 * k" by linarith
    then show ?thesis using f'(1,2) c by (auto simp: areas_apart_def)
  qed
  have other: "area_blocks (headers s') f = area_blocks (headers s) f" if f: "f \<in> set (heap s)" for f
  proof (rule chain_cong)
    show "seg (fst f + 32) (area_end f) (area_blocks (headers s) f)"
      using heap_inv_area [OF inv f] by (simp add: area_ok_def)
    show "headers s' x = headers s x" if "fst f + 32 \<le> x" "x < area_end f" for x
      using ap [OF f] that c by (auto simp: hs areas_apart_def)
  qed
  have new: "area_blocks (headers s') ?e = [(?a + 32, \<lparr>hsize = 4096 * c - 48, hfree = True\<rparr>)]"
    using \<open>48 \<le> 4096 * c\<close> by (intro chain_eq) (auto simp: hs dvd_diff_nat)
  show "heap_inv s'"
    unfolding heap_inv_def hs(1,3,4)
  proof (intro conjI ballI)
    fix f assume "f \<in> set (?e # heap s)"
    then consider "f = ?e" | "f \<in> set (heap s)" by auto
    then show "area_ok (headers s') f"
    proof cases
      case 1
      then show ?thesis using new \<open>48 \<le> 4096 * c\<close> by (auto simp: area_ok_def dvd_diff_nat)
    qed (use heap_inv_area [OF inv] other in \<open>simp add: area_ok_def\<close>)
    show "area_pages (HEAP_START s) bm f"
      using \<open>f \<in> set (?e # heap s)\<close> inv c bm \<open>48 \<le> 4096 * c\<close> unfolding heap_inv_def area_pages_def by fastforce
  qed (use ap inv in \<open>auto simp: heap_inv_def\<close>)
  show "live s' = live s" using new other by (auto simp: live_def hs(1) live_in_def)
  show "hd (heap s') \<in> set (heap s')" "page_size (snd (hd (heap s'))) = 4096 * c - 32"
    "area_blocks (headers s') (hd (heap s')) =
       [(fst (hd (heap s')) + 32, \<lparr>hsize = 4096 * c - 48, hfree = True\<rparr>)]"
    using new by (simp_all add: hs(1))
qed

subsection \<open>kmalloc and vmalloc\<close>

definition malloc_result :: "u32 \<Rightarrow> 'a heap_st_scheme \<Rightarrow> nat option \<Rightarrow> 'a heap_st_scheme \<Rightarrow> bool" where
  "malloc_result n s r s' \<longleftrightarrow> heap_inv s' \<and>
     (case r of None \<Rightarrow> live s' = live s
      | Some p \<Rightarrow> p \<notin> fst ` live s \<and> (\<exists>m \<ge> unat n. live s' = insert (p, m) (live s)))"

lemma try_allocate_result:
  assumes "heap_inv s" "e \<in> set (heap s)" "try_allocate e n s = (r, s')" "unat n < 1073741824"
  shows "malloc_result n s r s'" "r = None \<Longrightarrow> s' = s"
proof -
  have "unat n \<le> unat (MALLOC_ALIGN n)" using malloc_align_le assms(4) by simp
  then show "malloc_result n s r s'"
    using try_allocate_outcome [OF assms(1-3)] assms(1)
    by (cases r) (auto simp: malloc_result_def intro: order_trans)
  show "r = None \<Longrightarrow> s' = s" using try_allocate_outcome [OF assms(1-3)] by simp
qed

lemma try_areas_result:
  assumes "heap_inv s" "set es \<subseteq> set (heap s)" "try_areas virt es n s = (r, s')" "unat n < 1073741824"
  shows "malloc_result n s r s' \<and> (r = None \<longrightarrow> s' = s)"
  using assms(2,3)
proof (induction es)
  case Nil
  then show ?case using assms(1) by (simp add: malloc_result_def)
next
  case (Cons e es)
  have e: "e \<in> set (heap s)" "set es \<subseteq> set (heap s)" using Cons.prems(1) by auto
  obtain r1 s1 where t: "try_allocate e n s = (r1, s1)" by (cases "try_allocate e n s")
  note one = try_allocate_result [OF assms(1) e(1) t assms(4)]
  show ?case
    using Cons.IH [OF e(2)] Cons.prems(2) t one by (cases r1) (auto split: if_splits)
qed

lemma failed_area:
  assumes inv: "heap_inv s" and n: "unat n < 1073741824"
    and a: "find_free_virt_addr (area_size n) s = (Some a, s2)"
    and t: "vm_frame s2 t"
    and s': "s' = free_virt_block a (pages_of (PAGE_ALIGN n)) t"
  shows "malloc_result n s None s'"
proof -
  obtain c where c: "unat n + 48 \<le> 4096 * c" "pages_of (PAGE_ALIGN (area_size n)) = c"
    using area_size_pages [OF n] by metis
  obtain k bm where k: "a = HEAP_START s + 4096 * k" "s2 = s\<lparr>mm_virt_heap := bm\<rparr>"
    "\<And>i. k \<le> i \<Longrightarrow> i < k + c \<Longrightarrow> page_bit (mm_virt_heap s) i"
    "\<And>i. page_bit bm i \<longleftrightarrow> page_bit (mm_virt_heap s) i \<and> \<not> (k \<le> i \<and> i < k + c)"
    using find_free_virt_addr_Some [OF a, unfolded c(2)] by metis
  note fr = heap_vm_frame [OF t]
  have pa: "unat (PAGE_ALIGN n) < unat n + 4096" using unat_PAGE_ALIGN(2) [of n] n by simp
  have "4096 * (unat (PAGE_ALIGN n) div 4096) < 4096 * c + 4096"
    using pa c(1) div_times_less_eq_dividend [of "unat (PAGE_ALIGN n)" 4096] by (simp add: mult.commute)
  then have m: "pages_of (PAGE_ALIGN n) \<le> c" by (simp add: unat_drop_bit)
  have hs: "HEAP_START t = HEAP_START s" using fr(4) k(2) by (simp add: HEAP_START_def)
  obtain l bm' where f: "s' = t\<lparr>klog := l, mm_virt_heap := bm'\<rparr>"
    "\<forall>i. page_bit bm' i \<longleftrightarrow> page_bit (mm_virt_heap t) i \<or> (k \<le> i \<and> i < k + pages_of (PAGE_ALIGN n))"
    using free_virt_block_pages [of t k "pages_of (PAGE_ALIGN n)"] unfolding s' k(1) hs by blast
  have sub: "page_bit (mm_virt_heap s) i" if "page_bit bm' i" for i
    using that f(2) k(3,4) m fr(3) k(2) by auto
  have e: "heap s' = heap s" "headers s' = headers s" "mm_virt_heap s' = bm'" "HEAP_START s' = HEAP_START s"
    using f(1) fr k(2) by (simp_all add: HEAP_START_def)
  have "heap_inv s'"
    using inv sub unfolding heap_inv_def e area_pages_def by blast
  then show ?thesis by (simp add: malloc_result_def live_def e)
qed

lemma fresh_area:
  assumes inv: "heap_inv s" and n: "unat n < 1073741824"
    and a: "find_free_virt_addr (area_size n) s = (Some a, s2)"
    and t: "vm_frame s2 t"
    and s5: "s5 = init_new_allocated_block a (unat (area_size n)) virt t"
    and r: "try_allocate (hd (heap s5)) n s5 = (r, s')"
  shows "malloc_result n s r s'"
    "r = None \<longleftrightarrow> unat (area_size n) - 48 \<le> unat (MALLOC_ALIGN n)"
proof -
  obtain c where c: "unat (area_size n) = 4096 * c" "0 < c" "pages_of (PAGE_ALIGN (area_size n)) = c"
    using area_size_pages [OF n] by metis
  obtain k bm where k: "a = HEAP_START s + 4096 * k" "k + c < 4096" "s2 = s\<lparr>mm_virt_heap := bm\<rparr>"
    "\<forall>i. k \<le> i \<and> i < k + c \<longrightarrow> page_bit (mm_virt_heap s) i"
    "\<forall>i. page_bit bm i \<longleftrightarrow> page_bit (mm_virt_heap s) i \<and> \<not> (k \<le> i \<and> i < k + c)"
    using find_free_virt_addr_Some [OF a, unfolded c(3)] by metis
  have t': "heap t = heap s" "headers t = headers s" "mm_virt_heap t = bm" "lay t = lay s"
    using heap_vm_frame [OF t] k(3) by simp_all
  note ar = add_area [OF inv c(2) k(2,4,5) t' s5 [unfolded k(1) c(1)]]
  show "malloc_result n s r s'"
    using try_allocate_result(1) [OF ar(1,3) r n] unfolding malloc_result_def ar(2) .
  let ?x = "(fst (hd (heap s5)) + 32, \<lparr>hsize = 4096 * c - 48, hfree = True\<rparr>)"
  have fit: "fits (fst (hd (heap s5)) + page_size (snd (hd (heap s5)))) (unat (MALLOC_ALIGN n)) ?x \<longleftrightarrow>
      \<not> 4096 * c - 48 \<le> unat (MALLOC_ALIGN n)"
    using c(2) by (auto simp: fits_def ar(4))
  have "try_walk (headers s5) (fst (hd (heap s5)) + 32) (fst (hd (heap s5)) + page_size (snd (hd (heap s5))))
      (unat (MALLOC_ALIGN n)) = None \<longleftrightarrow> 4096 * c - 48 \<le> unat (MALLOC_ALIGN n)"
    using fit by (simp add: try_walk_area [OF ar(1,3)] ar(5))
  then show "r = None \<longleftrightarrow> unat (area_size n) - 48 \<le> unat (MALLOC_ALIGN n)"
    using r unfolding c(1) by (auto simp: try_allocate_def sizeof_defs split: option.splits)
qed

lemma kmalloc_result:
  assumes inv: "heap_inv s" and n: "unat n < 1073741824" and k: "kmalloc n s = (r, s')"
  shows "malloc_result n s r s'"
proof (cases "n = 0")
  case True
  then show ?thesis using k inv by (simp add: kmalloc_def malloc_result_def)
next
  case n0: False
  obtain r1 s1 where t: "try_areas False (heap s) n s = (r1, s1)" by (cases "try_areas False (heap s) n s")
  note ta = try_areas_result [OF inv order_refl t n]
  show ?thesis
  proof (cases r1)
    case (Some p)
    then show ?thesis using k n0 t ta by (simp add: kmalloc_def)
  next
    case None
    then have s1: "s1 = s" using ta by simp
    obtain a s2 where f: "find_free_virt_addr (area_size n) s = (a, s2)" by (cases "find_free_virt_addr (area_size n) s")
    show ?thesis
    proof (cases a)
      case None': None
      then show ?thesis
        using k n0 t \<open>r1 = None\<close> s1 f find_free_virt_addr_None inv
        by (auto simp: kmalloc_def malloc_result_def)
    next
      case (Some v)
      note f = f [unfolded Some]
      obtain ph s3 where g: "get_phys_block (pages_of (area_size n)) s2 = (ph, s3)" by (cases "get_phys_block (pages_of (area_size n)) s2")
      obtain err s4 where m: "page_map_range ph (of_nat v) (PAGE_WRITE OR PAGE_PRESENT) (pages_of (area_size n)) s3 = (err, s4)"
        by (cases "page_map_range ph (of_nat v) (PAGE_WRITE OR PAGE_PRESENT) (pages_of (area_size n)) s3")
      have fr: "vm_frame s2 s3" "vm_frame s2 s4"
        using vm_frame_get_phys_block [OF g] vm_frame_page_map_range [OF m] vm_frame_trans by blast+
      show ?thesis
        using k n0 t \<open>r1 = None\<close> s1 f g m failed_area [OF inv n f] fresh_area(1) [OF inv n f fr(2) refl] fr
        by (auto simp: kmalloc_def Let_def split: if_splits)
    qed
  qed
qed

lemma vm_frame_vmap_loop: "vmap_loop a stop l s = (r, l', s') \<Longrightarrow> vm_frame s s'"
proof (induction "stop - a" arbitrary: a l s rule: less_induct)
  case less
  show ?case
    using less.prems less.hyps [of "a + 4096"]
    by (subst (asm) vmap_loop.simps)
       (auto split: if_splits prod.splits dest!: vm_frame_get_phys_block vm_frame_page_map
         intro: vm_frame_trans)
qed

lemma vm_frame_free_mapped_pages: "vm_frame s (free_mapped_pages a stop s)"
proof (induction "stop - a" arbitrary: a s rule: less_induct)
  case less
  obtain ph t where g: "page_get_phys (of_nat a) s = (ph, t)" by (cases "page_get_phys (of_nat a) s")
  have "vm_frame s (free_phys_block ph 1 t)" using vm_frame_page_get_phys [OF g] by blast
  then show ?case
    using less.hyps [of "a + 4096" "free_phys_block ph 1 t"] g
    by (subst free_mapped_pages.simps) (auto intro: vm_frame_trans)
qed

lemma vmalloc_result:
  assumes inv: "heap_inv s" and n: "unat n < 1073741824" and k: "vmalloc n s = (r, s')"
  shows "malloc_result n s r s'"
proof (cases "n = 0")
  case True
  then show ?thesis using k inv by (simp add: vmalloc_def malloc_result_def)
next
  case n0: False
  obtain r1 s1 where t: "try_areas True (heap s) n s = (r1, s1)" by (cases "try_areas True (heap s) n s")
  note ta = try_areas_result [OF inv order_refl t n]
  show ?thesis
  proof (cases r1)
    case (Some p)
    then show ?thesis using k n0 t ta by (simp add: vmalloc_def)
  next
    case None
    then have s1: "s1 = s" using ta by simp
    obtain a s2 where f: "find_free_virt_addr (area_size n) s = (a, s2)" by (cases "find_free_virt_addr (area_size n) s")
    show ?thesis
    proof (cases a)
      case None': None
      then show ?thesis
        using k n0 t \<open>r1 = None\<close> s1 f find_free_virt_addr_None inv
        by (auto simp: vmalloc_def malloc_result_def)
    next
      case (Some v)
      note f = f [unfolded Some]
      obtain w l s3 where g: "vmap_loop v (v + unat (area_size n)) v s2 = (w, l, s3)" by (rule prod_cases3)
      have fr: "vm_frame s2 s3" using vm_frame_vmap_loop [OF g] .
      have undone: "malloc_result n s None (free_virt_block v (pages_of (PAGE_ALIGN n)) (free_mapped_pages v l t))"
        if "vm_frame s3 t" for t
        by (rule failed_area [OF inv n f _ refl])
           (rule vm_frame_trans [OF vm_frame_trans [OF fr that] vm_frame_free_mapped_pages])
      show ?thesis
        using k n0 t \<open>r1 = None\<close> s1 f g undone fresh_area(1) [OF inv n f fr refl]
        by (auto simp: vmalloc_def Let_def split: vmap_result.splits)
    qed
  qed
qed

subsection \<open>kfree and vfree\<close>

lemma live_block:
  assumes inv: "heap_inv s" and e: "e \<in> set (heap s)" and p: "(p, m) \<in> live_in (area_blocks (headers s) e)"
  obtains q b ys zs where "p = q + 16" "m = hsize b" "\<not> hfree b" "area_blocks (headers s) e = ys @ (q, b) # zs"
    "headers s q = b" "q < fst e + page_size (snd e)" "fst e + 32 \<le> q" "q + 16 + hsize b \<le> area_end e"
proof -
  obtain x where x: "x \<in> set (used (area_blocks (headers s) e))" "p = fst x + 16" "m = hsize (snd x)"
    using p by (auto simp: live_in_def block_range_def)
  have ok: "seg (fst e + 32) (area_end e) (area_blocks (headers s) e)" "fst x < fst e + page_size (snd e)"
    using heap_inv_area [OF inv e] x(1) unfolding area_ok_def by blast+
  have xs: "x \<in> set (area_blocks (headers s) e)" "\<not> hfree (snd x)" using x(1) by simp_all
  have "headers s (fst x) = snd x" using chain_matches xs(1) unfolding matches_def by blast
  moreover obtain ys zs where "area_blocks (headers s) e = ys @ x # zs" using xs(1) by (meson split_list)
  ultimately show thesis
    using that [of "fst x" "snd x" ys zs] x xs(2) ok(2) seg_mem(1,2) [OF ok(1) xs(1)] by simp
qed

lemma find_header_area:
  assumes "heap_inv s" "e \<in> set (heap s)"
  shows "find_header (headers s) (fst e + 32) (fst e + page_size (snd e)) (q + 16) =
    (if q \<in> fst ` set (area_blocks (headers s) e) \<and> q < fst e + page_size (snd e) then Some q else None)"
proof (rule find_header_chain [OF _ chain_matches])
  show "seg (fst e + 32) (area_end e) (area_blocks (headers s) e)"
    using heap_inv_area [OF assms] by (simp add: area_ok_def)
qed simp

lemma header_other_area:
  assumes inv: "heap_inv s" and e: "e \<in> set (heap s)" and f: "f \<in> set (heap s)" "f \<noteq> e"
    and q: "fst e + 32 \<le> q" "q < area_end e"
  shows "q \<notin> fst ` set (area_blocks (headers s) f)"
proof
  assume "q \<in> fst ` set (area_blocks (headers s) f)"
  then obtain x where x: "x \<in> set (area_blocks (headers s) f)" "fst x = q" by auto
  have "seg (fst f + 32) (area_end f) (area_blocks (headers s) f)"
    using heap_inv_area [OF inv f(1)] by (simp add: area_ok_def)
  from seg_mem(1,2) [OF this x(1)] x(2) q heap_inv_apart [OF inv e f(1)] f(2) show False
    by (auto simp: areas_apart_def)
qed

lemma free_in_finds:
  assumes inv: "heap_inv s" and es: "set es \<subseteq> set (heap s)" "e \<in> set es"
    and q: "q \<in> fst ` set (area_blocks (headers s) e)" "fst e + 32 \<le> q" "q < fst e + page_size (snd e)"
  shows "free_in es (q + 16) defrag s =
    defrag e (s\<lparr>headers := (headers s)(q := (headers s q)\<lparr>hfree := True\<rparr>)\<rparr>)"
  using es
proof (induction es)
  case (Cons f es)
  have f: "f \<in> set (heap s)" "e \<in> set (heap s)" using Cons.prems by auto
  show ?case
  proof (cases "f = e")
    case True
    then show ?thesis using q find_header_area [OF inv f(2), of q] by (simp add: sizeof_defs fun_upd_def)
  next
    case False
    have "q \<notin> fst ` set (area_blocks (headers s) f)"
      using header_other_area [OF inv f(2,1) False q(2)] q(3) by simp
    then show ?thesis using Cons False find_header_area [OF inv f(1), of q] by (simp add: sizeof_defs)
  qed
qed simp

lemma mark_free:
  assumes inv: "heap_inv s" and e: "e \<in> set (heap s)"
    and b: "area_blocks (headers s) e = ys @ (q, b) # zs" "\<not> hfree b" "headers s q = b"
  shows "heap_inv (s\<lparr>headers := (headers s)(q := b\<lparr>hfree := True\<rparr>)\<rparr>)"
    "live (s\<lparr>headers := (headers s)(q := b\<lparr>hfree := True\<rparr>)\<rparr>) = live s - {(q + 16, hsize b)}"
proof -
  let ?h = "(headers s)(q := b\<lparr>hfree := True\<rparr>)" and ?xs = "ys @ (q, b\<lparr>hfree := True\<rparr>) # zs"
  have ok: "seg (fst e + 32) (area_end e) (ys @ (q, b) # zs)"
      "\<And>x. x \<in> set (used (ys @ (q, b) # zs)) \<Longrightarrow> fst x < fst e + page_size (snd e)"
    using heap_inv_area [OF inv e] unfolding area_ok_def b(1) by blast+
  have sg: "seg (fst e + 32) (area_end e) ?xs" using ok(1) by (auto simp: seg_append)
  have ne: "fst x \<noteq> q" if "x \<in> set (ys @ zs)" for x
    using seg_sorted [OF ok(1)] that by (fastforce simp: sorted_wrt_append)
  have "matches (headers s) (ys @ (q, b) # zs)" using chain_matches [of "headers s"] b(1) by metis
  then have "matches ?h ?xs"
    using ne matches_cong [of ys ?h "headers s"] matches_cong [of zs ?h "headers s"] by simp
  note rw = rewrite_area [OF inv e sg this, of]
  have q: "fst e + 32 \<le> q" "q < area_end e" using seg_mem(1,2) [OF ok(1), of "(q, b)"] by simp_all
  have bd: "fst x < fst e + page_size (snd e)" if "x \<in> set (used ?xs)" for x
    using that by (intro ok(2)) (auto split: if_splits)
  have out: "\<And>a. a < fst e + 32 \<or> area_end e \<le> a \<Longrightarrow> ?h a = headers s a" using q by auto
  show "heap_inv (s\<lparr>headers := ?h\<rparr>)" by (rule rw(1) [OF bd out])
  have in_e: "live_in ?xs = live_in (area_blocks (headers s) e) - {(q + 16, hsize b)}"
  proof -
    have "(q + 16, hsize b) \<notin> live_in (ys @ zs)"
      using ne by (fastforce simp: live_in_def block_range_def)
    moreover have "live_in ?xs = live_in (ys @ zs)" by (simp add: live_in_def)
    moreover have "live_in (area_blocks (headers s) e) = insert (q + 16, hsize b) (live_in (ys @ zs))"
      using b(2) by (auto simp: live_in_def block_range_def b(1))
    ultimately show ?thesis by blast
  qed
  have other: "(q + 16, hsize b) \<notin> live_in (area_blocks (headers s) f)" if "f \<in> set (heap s) - {e}" for f
    using header_other_area [OF inv e, of f q] that q by (force simp: live_in_def block_range_def)
  have "live (s\<lparr>headers := ?h\<rparr>) = live_in ?xs \<union> (\<Union>f \<in> set (heap s) - {e}. live_in (area_blocks (headers s) f))"
    by (rule rw(3) [OF bd out])
  also have "\<dots> = live s - {(q + 16, hsize b)}" unfolding live_split [OF e] in_e using other by blast
  finally show "live (s\<lparr>headers := ?h\<rparr>) = live s - {(q + 16, hsize b)}" .
qed

lemma defrag_area:
  assumes inv: "heap_inv s" and e: "e \<in> set (heap s)"
  shows "heap_inv (defragged e s)" "live (defragged e s) = live s"
proof -
  let ?xs = "area_blocks (headers s) e"
  have ok: "seg (fst e + 32) (area_end e) ?xs" "\<And>x. x \<in> set (used ?xs) \<Longrightarrow> fst x < fst e + page_size (snd e)"
    using heap_inv_area [OF inv e] unfolding area_ok_def by blast+
  let ?h = "defrag_loop (headers s) (fst e + 32) (fst e + page_size (snd e))"
  obtain ys where ys: "seg (fst e + 32) (area_end e) ys" "matches ?h ys" "used ys = used ?xs"
      "\<And>a. a < fst e + 32 \<or> area_end e \<le> a \<Longrightarrow> ?h a = headers s a"
    using defrag_loop_chain [OF ok(1) chain_matches, of "fst e + page_size (snd e)"] area_small [OF inv e] by auto
  have d: "defragged e s = s\<lparr>headers := ?h\<rparr>" by (simp add: sizeof_defs)
  have bd: "fst x < fst e + page_size (snd e)" if "x \<in> set (used ys)" for x using ok(2) that ys(3) by metis
  show "heap_inv (defragged e s)" unfolding d by (rule rewrite_area(1) [OF inv e ys(1,2) bd ys(4)])
  have "live (s\<lparr>headers := ?h\<rparr>) = live_in ys \<union> (\<Union>f \<in> set (heap s) - {e}. live_in (area_blocks (headers s) f))"
    by (rule rewrite_area(3) [OF inv e ys(1,2) bd ys(4)])
  moreover have "live_in ys = live_in ?xs" using ys(3) by (simp add: live_in_def)
  ultimately show "live (defragged e s) = live s" unfolding d using live_split [OF e] by simp
qed

lemma all_free_not_live:
  assumes inv: "heap_inv s" and e: "e \<in> set (heap s)" and a: "all_free e (headers s)"
  shows "live_in (area_blocks (headers s) e) = {}"
proof -
  let ?x = "(fst e + 32, headers s (fst e + 32))"
  have sz: "page_size (snd e) = hsize (snd ?x) + 16" "hfree (snd ?x)"
    using a by (simp_all add: all_free_def Let_def sizeof_defs)
  obtain xs where xs: "area_blocks (headers s) e = ?x # xs"
  proof
    show "area_blocks (headers s) e = ?x # chain (headers s) (fst e + 32 + 16 + hsize (snd ?x)) (area_end e)"
      using area_small(3) [OF inv e] by (subst chain.simps) simp
  qed
  have "seg (fst e + 32) (area_end e) (?x # xs)"
    using heap_inv_area [OF inv e] xs by (simp add: area_ok_def)
  then have "seg (area_end e) (area_end e) xs" using sz(1) by (simp add: add_ac)
  then have "xs = []" using seg_le by (cases xs) fastforce+
  then show ?thesis using xs sz(2) by (simp add: live_in_def)
qed

lemma remove_area_ok:
  assumes inv: "heap_inv s" and e: "e \<in> set (heap s)" and dead: "live_in (area_blocks (headers s) e) = {}"
    and k: "fst e = HEAP_START s + 4096 * k" "page_size (snd e) + 32 = 4096 * c"
    and bm: "\<forall>i. page_bit bm i \<longleftrightarrow> page_bit (mm_virt_heap s) i \<or> (k \<le> i \<and> i < k + c)"
    and s': "heap s' = filter (\<lambda>f. fst f \<noteq> fst e) (heap s)" "headers s' = headers s"
      "mm_virt_heap s' = bm" "lay s' = lay s"
  shows "heap_inv s'" "live s' = live s"
proof -
  have keep: "f \<noteq> e \<longleftrightarrow> fst f \<noteq> fst e" if f: "f \<in> set (heap s)" for f
  proof
    assume "f \<noteq> e"
    then show "fst f \<noteq> fst e"
      using heap_inv_apart [OF inv e f] area_small(3) [OF inv e] area_small(3) [OF inv f]
      by (auto simp: areas_apart_def)
  qed auto
  have pages: "area_pages (HEAP_START s) bm f" if f: "f \<in> set (heap s)" "f \<noteq> e" for f
  proof -
    obtain k' c' where f': "fst f = HEAP_START s + 4096 * k'" "page_size (snd f) + 32 = 4096 * c'" "0 < c'" "k' + c' \<le> 4096"
        "\<And>i. k' \<le> i \<Longrightarrow> i < k' + c' \<Longrightarrow> \<not> page_bit (mm_virt_heap s) i"
      using inv f by (auto simp: heap_inv_def area_pages_def)
    have "k + c \<le> k' \<or> k' + c' \<le> k"
      using heap_inv_apart [OF inv e f(1)] f(2) k f'(1,2) by (auto simp: areas_apart_def)
    then have "\<not> page_bit bm i" if "k' \<le> i \<and> i < k' + c'" for i using f'(5) [of i] bm that by auto
    then show ?thesis using f' unfolding area_pages_def by blast
  qed
  have hs: "HEAP_START s' = HEAP_START s" using s'(4) by (simp add: HEAP_START_def)
  have "area_ok (headers s) f \<and> area_pages (HEAP_START s) bm f" if "f \<in> set (heap s')" for f
    using heap_inv_area [OF inv, of f] pages [of f] keep [of f] that by (simp add: s'(1))
  then show "heap_inv s'"
    using inv by (auto simp: heap_inv_def s' hs sorted_wrt_filter)
  have "set (heap s') = set (heap s) - {e}" using keep by (auto simp: s'(1))
  then show "live s' = live s" using live_split [OF e] dead by (simp add: live_def s'(2))
qed

lemma area_release_pages:
  assumes "heap_inv s" "e \<in> set (heap s)"
  obtains k c where "fst e = HEAP_START s + 4096 * k" "page_size (snd e) + 32 = 4096 * c"
    "pages_of (PAGE_ALIGN (of_nat (page_size (snd e)))) = c"
proof -
  obtain k c where k: "fst e = HEAP_START s + 4096 * k" "page_size (snd e) + 32 = 4096 * c" "0 < c" "c \<le> 4096"
    using assms by (fastforce simp: heap_inv_def area_pages_def)
  let ?x = "of_nat (page_size (snd e)) :: u32"
  have u: "unat ?x = page_size (snd e)" using k by (intro unat_of_nat_32) simp
  then have "unat ?x < 2147483648" using k by simp
  note pa = unat_PAGE_ALIGN [OF this, unfolded u]
  have "unat (PAGE_ALIGN ?x) = 4096 * (unat (PAGE_ALIGN ?x) div 4096)" using pa(3) by auto
  then have "unat (PAGE_ALIGN ?x) div 4096 = c" using pa(1,2) k(2) by linarith
  then show thesis using that k(1,2) by (simp add: unat_drop_bit)
qed

lemma kdefrag_ok:
  assumes inv: "heap_inv s" and e: "e \<in> set (heap s)"
  shows "heap_inv (kdefrag e s)" "live (kdefrag e s) = live s"
proof -
  let ?t = "defragged e s"
  note d = defrag_area [OF inv e]
  have e': "e \<in> set (heap ?t)" using e by simp
  obtain k c where k: "fst e = HEAP_START ?t + 4096 * k" "page_size (snd e) + 32 = 4096 * c"
      "pages_of (PAGE_ALIGN (of_nat (page_size (snd e)))) = c"
    using area_release_pages [OF d(1) e'] .
  have hs: "HEAP_START (remove_area (fst e) ?t) = HEAP_START ?t" by (simp add: remove_area_def)
  obtain l bm where f: "free_virt_block (fst e) c (remove_area (fst e) ?t) =
        (remove_area (fst e) ?t)\<lparr>klog := l, mm_virt_heap := bm\<rparr>"
      "\<forall>i. page_bit bm i \<longleftrightarrow> page_bit (mm_virt_heap ?t) i \<or> (k \<le> i \<and> i < k + c)"
    using free_virt_block_pages [of "remove_area (fst e) ?t" k c] unfolding hs k(1) [symmetric]
    by (auto simp: remove_area_def)
  let ?u = "(remove_area (fst e) ?t)\<lparr>klog := l, mm_virt_heap := bm\<rparr>"
  obtain ph w where g: "page_get_phys (of_nat (fst e)) ?u = (ph, w)" by (cases "page_get_phys (of_nat (fst e)) ?u")
  have fr: "vm_frame ?u (free_phys_block ph c w)" using vm_frame_page_get_phys [OF g] by blast
  have kd: "kdefrag e s = (if all_free e (headers ?t) then free_phys_block ph c w else ?t)"
    using f(1) g k(3) by (simp add: kdefrag_def Let_def)
  have rm: "heap_inv (free_phys_block ph c w) \<and> live (free_phys_block ph c w) = live ?t" if a: "all_free e (headers ?t)"
  proof -
    have dead: "live_in (area_blocks (headers ?t) e) = {}" by (rule all_free_not_live [OF d(1) e' a])
    note hf = heap_vm_frame [OF fr]
    show ?thesis
      using remove_area_ok [OF d(1) e' dead k(1,2) f(2), of "free_phys_block ph c w"] hf
      by (simp add: remove_area_def)
  qed
  show "heap_inv (kdefrag e s)" "live (kdefrag e s) = live s"
    using rm d unfolding kd by auto
qed

lemma vdefrag_ok:
  assumes inv: "heap_inv s" and e: "e \<in> set (heap s)"
  shows "heap_inv (vdefrag e s)" "live (vdefrag e s) = live s"
proof -
  let ?t = "defragged e s"
  note d = defrag_area [OF inv e]
  have e': "e \<in> set (heap ?t)" using e by simp
  obtain k c where k: "fst e = HEAP_START ?t + 4096 * k" "page_size (snd e) + 32 = 4096 * c"
      "pages_of (PAGE_ALIGN (of_nat (page_size (snd e)))) = c"
    using area_release_pages [OF d(1) e'] .
  let ?u = "free_mapped_pages (fst e) (fst e + unat (PAGE_ALIGN (of_nat (page_size (snd e))))) (remove_area (fst e) ?t)"
  have fr: "vm_frame (remove_area (fst e) ?t) ?u" by (rule vm_frame_free_mapped_pages)
  note hf = heap_vm_frame [OF fr]
  have hs: "HEAP_START ?u = HEAP_START ?t" using hf(4) by (simp add: HEAP_START_def remove_area_def)
  obtain l bm where f: "free_virt_block (fst e) c ?u = ?u\<lparr>klog := l, mm_virt_heap := bm\<rparr>"
      "\<forall>i. page_bit bm i \<longleftrightarrow> page_bit (mm_virt_heap ?u) i \<or> (k \<le> i \<and> i < k + c)"
    using free_virt_block_pages [of ?u k c] unfolding hs k(1) [symmetric] by blast
  have bm: "\<forall>i. page_bit bm i \<longleftrightarrow> page_bit (mm_virt_heap ?t) i \<or> (k \<le> i \<and> i < k + c)"
    using f(2) hf(3) by (simp add: remove_area_def)
  have vd: "vdefrag e s = (if all_free e (headers ?t) then ?u\<lparr>klog := l, mm_virt_heap := bm\<rparr> else ?t)"
    using f(1) k(3) by (simp add: vdefrag_def Let_def)
  have rm: "heap_inv (?u\<lparr>klog := l, mm_virt_heap := bm\<rparr>) \<and> live (?u\<lparr>klog := l, mm_virt_heap := bm\<rparr>) = live ?t"
    if a: "all_free e (headers ?t)"
  proof -
    have dead: "live_in (area_blocks (headers ?t) e) = {}" by (rule all_free_not_live [OF d(1) e' a])
    show ?thesis
      using remove_area_ok [OF d(1) e' dead k(1,2) bm, of "?u\<lparr>klog := l, mm_virt_heap := bm\<rparr>"] hf
      by (simp add: remove_area_def)
  qed
  show "heap_inv (vdefrag e s)" "live (vdefrag e s) = live s"
    using rm d unfolding vd by auto
qed

lemma free_with_live:
  assumes inv: "heap_inv s" and p: "(p, m) \<in> live s"
    and defrag: "\<And>e s. heap_inv s \<Longrightarrow> e \<in> set (heap s) \<Longrightarrow> heap_inv (defrag e s) \<and> live (defrag e s) = live s"
  shows "heap_inv (free_with p defrag s) \<and> live (free_with p defrag s) = live s - {(p, m)}"
proof -
  obtain e where e: "e \<in> set (heap s)" "(p, m) \<in> live_in (area_blocks (headers s) e)"
    using p by (auto simp: live_def)
  obtain q b ys zs where b: "p = q + 16" "m = hsize b" "\<not> hfree b" "area_blocks (headers s) e = ys @ (q, b) # zs"
    "headers s q = b" "q < fst e + page_size (snd e)" "fst e + 32 \<le> q"
    using live_block [OF inv e] .
  let ?s = "s\<lparr>headers := (headers s)(q := b\<lparr>hfree := True\<rparr>)\<rparr>"
  note mk = mark_free [OF inv e(1) b(4,3,5)]
  have "q \<in> fst ` set (area_blocks (headers s) e)" unfolding b(4) by simp
  then have "free_with p defrag s = defrag e ?s"
    using free_in_finds [OF inv order_refl e(1) _ b(7,6), of defrag] b(1,5) by (simp add: free_with_def)
  then show ?thesis using defrag [OF mk(1)] e(1) mk(2) b(1,2) by simp
qed

subsection \<open>The heap contract\<close>

lemma kfree_live:
  "heap_inv s \<Longrightarrow> (p, m) \<in> live s \<Longrightarrow> live (kfree p s) = live s - {(p, m)} \<and> heap_inv (kfree p s)"
  unfolding kfree_def using free_with_live kdefrag_ok by blast

lemma vfree_live:
  "heap_inv s \<Longrightarrow> (p, m) \<in> live s \<Longrightarrow> live (vfree p s) = live s - {(p, m)} \<and> heap_inv (vfree p s)"
  unfolding vfree_def using free_with_live vdefrag_ok by blast

interpretation kheap: heap_allocator kmalloc kfree live heap_inv
  by unfold_locales
     (use live_apart kmalloc_result kfree_live in \<open>fastforce simp: malloc_result_def\<close>)+

interpretation vheap: heap_allocator vmalloc vfree live heap_inv
  by unfold_locales
     (use live_apart vmalloc_result vfree_live in \<open>fastforce simp: malloc_result_def\<close>)+

subsection \<open>Properties\<close>

lemma unat_mod_16: "16 dvd unat x" if "x mod 16 = 0" for x :: u32
  using that by (simp add: word_unat_eq_iff unat_mod dvd_eq_mod_eq_0)

lemma HEAP_START_aligned: "16 dvd HEAP_START s"
proof -
  let ?k = "kernel_end (lay s)"
  have "PAGE_ALIGN ?k mod 16 = 0"
  proof -
    have "take_bit 12 (PAGE_ALIGN ?k) = 0"
    proof (cases "?k mod 4096 = 0")
      case True
      then show ?thesis by (simp add: PAGE_ALIGN_def take_bit_eq_mod)
    next
      case False
      then have "PAGE_ALIGN ?k = push_bit 12 (?k div 4096 + 1)"
        by (simp add: PAGE_ALIGN_def push_bit_eq_mult minus_mod_eq_div_mult algebra_simps)
      then show ?thesis by (simp add: take_bit_push_bit)
    qed
    then have "take_bit 4 (take_bit 12 (PAGE_ALIGN ?k)) = 0" by simp
    then show ?thesis by (simp add: take_bit_eq_mod [of 4, symmetric, simplified])
  qed
  then have "unat (PAGE_ALIGN ?k) mod 16 = 0" using unat_mod_16 by (simp add: dvd_eq_mod_eq_0)
  moreover have "unat (0x400000 + PAGE_ALIGN ?k) mod 16 = (0x400000 + unat (PAGE_ALIGN ?k)) mod 16"
    by (simp add: unat_word_ariths mod_mod_cancel)
  moreover have "(0x400000 + x) mod 16 = x mod 16" for x :: nat
    using mod_mult_self2 [of x 16 262144] by (simp add: add.commute)
  ultimately have "unat (0x400000 + PAGE_ALIGN ?k) mod 16 = 0" by simp
  then show ?thesis by (simp add: HEAP_START_def dvd_eq_mod_eq_0)
qed

lemma live_aligned:
  assumes "heap_inv s" "(p, m) \<in> live s"
  shows "16 dvd p"
proof -
  obtain e where e: "e \<in> set (heap s)" "(p, m) \<in> live_in (area_blocks (headers s) e)"
    using assms(2) by (auto simp: live_def)
  obtain k where k: "fst e = HEAP_START s + 4096 * k"
    using assms(1) e(1) by (auto simp: heap_inv_def area_pages_def)
  obtain x where x: "x \<in> set (area_blocks (headers s) e)" "p = fst x + 16"
    using e(2) by (auto simp: live_in_def block_range_def)
  have "seg (fst e + 32) (area_end e) (area_blocks (headers s) e)"
    using heap_inv_area [OF assms(1) e(1)] by (simp add: area_ok_def)
  from seg_mem(1,4) [OF this x(1)] have "16 dvd fst x - (fst e + 32)" "fst e + 32 \<le> fst x" by auto
  moreover have "16 dvd fst e + 32"
  proof -
    have "16 dvd 4096 * k" by (rule dvd_trans [of 16 4096]) simp_all
    then show ?thesis unfolding k using HEAP_START_aligned [of s] by (intro dvd_add) simp_all
  qed
  ultimately have "16 dvd fst x" by (metis dvd_diffD)
  then show ?thesis using x(2) by simp
qed

text \<open>C8. For requests below 2^30 bytes, a non-null result of \<^verbatim>\<open>kmalloc\<close> is the 16-byte aligned address of a
  block of at least the requested length that is apart from every live block; it is the only new live block, no
  live block is lost, and the heap stays well formed. A bound is needed: close to 4 GiB the rounding up
  wraps around (\<^verbatim>\<open>heap_setup.c:77\<close> and \<^verbatim>\<open>111\<close>), and \<^verbatim>\<open>kmalloc(0xFFFFFFF1)\<close> takes a block of length 0.\<close>

theorem kmalloc_returns_fresh_block:
  assumes "heap_inv s" "unat n < 1073741824" "kmalloc n s = (Some p, s')"
  shows "heap_inv s' \<and> 16 dvd p \<and>
    (\<exists>m \<ge> unat n. live s' = insert (p, m) (live s) \<and> (\<forall>x \<in> live s. apart (p, m) x))"
proof -
  obtain m where m: "m \<ge> unat n" "p \<notin> fst ` live s" "live s' = insert (p, m) (live s)" and inv: "heap_inv s'"
    using kmalloc_result [OF assms] by (auto simp: malloc_result_def)
  have "apart (p, m) x" if "x \<in> live s" for x
    using live_apart [OF inv, of "(p, m)" x] m(2,3) that by force
  then show ?thesis using inv m live_aligned [OF inv, of p m] by auto
qed

text \<open>A heap with one area of one page, of which nothing is handed out.\<close>

definition demo_heap :: heap_st where
  "demo_heap = \<lparr>klog = [], mm_bitmap = (\<lambda>_. - 1), lay = demo_layout,
     page_directory = (\<lambda>d. if d = 768 then 0x103003 else 0), pmem = (\<lambda>_ _. 0),
     mm_virt_heap = (\<lambda>i. if i = 0 then 0xFE else 0xFF),
     heap = [(0xC0510000, \<lparr>page_size = 4064, virtual = False\<rparr>)],
     headers = (\<lambda>a. \<lparr>hsize = 4048, hfree = True\<rparr>)\<rparr>"

lemma demo_heap_start: "HEAP_START demo_heap = 0xC0510000"
  by (simp add: HEAP_START_def demo_heap_def demo_layout_def PAGE_ALIGN_def)

lemma demo_heap_chain: "chain (headers demo_heap) 0xC0510020 0xC0511000 =
    [(0xC0510020, \<lparr>hsize = 4048, hfree = True\<rparr>)]"
  by (rule chain_eq) (simp_all add: demo_heap_def)

lemma demo_heap_inv: "heap_inv demo_heap"
proof -
  have "heap demo_heap = [(0xC0510000, \<lparr>page_size = 4064, virtual = False\<rparr>)]"
    "mm_virt_heap demo_heap = (\<lambda>i. if i = 0 then 0xFE else 0xFF)" by (simp_all add: demo_heap_def)
  then show ?thesis
    using demo_heap_chain
    by (auto simp: heap_inv_def area_ok_def area_pages_def demo_heap_start page_bit_def bit_simps
        intro!: exI [of _ 0] exI [of _ 1])
qed

lemma demo_heap_live: "live demo_heap = {}"
  using demo_heap_chain by (simp add: live_def live_in_def demo_heap_def)

lemma demo_heap_kmalloc:
  "kmalloc 100 demo_heap = (Some 0xC0510030, demo_heap\<lparr>headers := (headers demo_heap)
     (0xC05100A0 := \<lparr>hsize = 3920, hfree = True\<rparr>, 0xC0510020 := \<lparr>hsize = 112, hfree = False\<rparr>)\<rparr>)"
  by (simp add: kmalloc_def demo_heap_def try_allocate_def try_walk.simps sizeof_defs MALLOC_ALIGN_def
      Let_def bits31_def fun_eq_iff)

theorem kmalloc_returns_fresh_block_witness:
  "\<exists>s' m. kmalloc 100 demo_heap = (Some 0xC0510030, s') \<and> heap_inv s' \<and> m \<ge> 100 \<and> live s' = {(0xC0510030, m)}"
  using kmalloc_returns_fresh_block [OF demo_heap_inv _ demo_heap_kmalloc] demo_heap_kmalloc
  by (auto simp: demo_heap_live)

text \<open>C10. \<^verbatim>\<open>kfree\<close> of a live block ends that block and no other, and keeps the heap well formed:
  neither the joining of free blocks nor the release of an area touches what is still live.\<close>

theorem kfree_ends_one_block:
  assumes "heap_inv s" "(p, m) \<in> live s"
  shows "live (kfree p s) = live s - {(p, m)} \<and> heap_inv (kfree p s)"
  using kfree_live [OF assms] .

theorem kfree_ends_one_block_witness:
  "\<exists>s'. kmalloc 100 demo_heap = (Some 0xC0510030, s') \<and> live (kfree 0xC0510030 s') = {}"
proof -
  obtain s' where s': "kmalloc 100 demo_heap = (Some 0xC0510030, s')" using demo_heap_kmalloc by blast
  have n: "unat (100 :: u32) < 1073741824" by simp
  obtain m where m: "heap_inv s'" "live s' = {(0xC0510030, m)}"
    using kmalloc_result [OF demo_heap_inv n s'] by (auto simp: malloc_result_def demo_heap_live)
  then show ?thesis using kfree_ends_one_block [of s' "0xC0510030" m] s' by simp
qed

text \<open>C9. Over every sequence of \<^verbatim>\<open>kmalloc\<close> and \<^verbatim>\<open>kfree\<close> calls in which each request is below 2^30 bytes (\<open>op_ok\<close>),
  the pieces of memory a client holds are pairwise disjoint. Larger requests are left out because their
  rounding can wrap around.\<close>

theorem kmalloc_blocks_never_overlap:
  assumes "heap_inv s" "list_all op_ok ops" "heap_client_run kmalloc kfree ops (s, []) = (s', ps)"
  shows "sorted_wrt apart ps"
  using kheap.client_apart [OF assms] .

theorem kmalloc_blocks_never_overlap_witness:
  "\<exists>s' ps. heap_client_run kmalloc kfree [Malloc 100, Malloc 50, Free 1, Malloc 30] (demo_heap, []) = (s', ps) \<and>
     sorted_wrt apart ps"
proof -
  obtain s' ps where r: "heap_client_run kmalloc kfree [Malloc 100, Malloc 50, Free 1, Malloc 30] (demo_heap, []) = (s', ps)"
    by (metis surj_pair)
  show ?thesis using kmalloc_blocks_never_overlap [OF demo_heap_inv _ r] r by (auto simp: op_ok_def)
qed

text \<open>The same holds for \<^verbatim>\<open>vmalloc\<close> and \<^verbatim>\<open>vfree\<close>.\<close>

theorem vmalloc_blocks_never_overlap:
  assumes "heap_inv s" "list_all op_ok ops" "heap_client_run vmalloc vfree ops (s, []) = (s', ps)"
  shows "sorted_wrt apart ps"
  using vheap.client_apart [OF assms] .

theorem vmalloc_blocks_never_overlap_witness:
  "\<exists>s' ps. heap_client_run vmalloc vfree [Malloc 100, Malloc 50, Free 1] (demo_heap, []) = (s', ps) \<and>
     sorted_wrt apart ps"
proof -
  obtain s' ps where r: "heap_client_run vmalloc vfree [Malloc 100, Malloc 50, Free 1] (demo_heap, []) = (s', ps)"
    by (metis surj_pair)
  show ?thesis using vmalloc_blocks_never_overlap [OF demo_heap_inv _ r] r by (auto simp: op_ok_def)
qed

text \<open>\<^verbatim>\<open>ksize\<close> of a live pointer is the length of its block.\<close>

theorem ksize_live:
  assumes "heap_inv s" "(p, m) \<in> live s"
  shows "ksize p s = m"
proof -
  obtain e where e: "e \<in> set (heap s)" "(p, m) \<in> live_in (area_blocks (headers s) e)"
    using assms(2) by (auto simp: live_def)
  obtain q b ys zs where b: "p = q + 16" "m = hsize b" "area_blocks (headers s) e = ys @ (q, b) # zs"
    "headers s q = b" "q < fst e + page_size (snd e)" "fst e + 32 \<le> q"
    using live_block [OF assms(1) e] by metis
  have q: "q \<in> fst ` set (area_blocks (headers s) e)" unfolding b(3) by simp
  have "size_in es p (headers s) = m" if "set es \<subseteq> set (heap s)" "e \<in> set es" for es
    using that
  proof (induction es)
    case (Cons f es)
    have f: "f \<in> set (heap s)" using Cons.prems by simp
    show ?case
    proof (cases "f = e")
      case True
      then show ?thesis
        using q b find_header_area [OF assms(1) e(1), of q] by (simp add: sizeof_defs)
    next
      case False
      have "q \<notin> fst ` set (area_blocks (headers s) f)"
        using header_other_area [OF assms(1) e(1) f False b(6)] b(5) by simp
      then show ?thesis using Cons False find_header_area [OF assms(1) f, of q] b(1) by (simp add: sizeof_defs)
    qed
  qed simp
  then show ?thesis using e(1) by (simp add: ksize_def)
qed

theorem ksize_live_witness:
  "\<exists>s' m. kmalloc 100 demo_heap = (Some 0xC0510030, s') \<and> (0xC0510030, m) \<in> live s' \<and> ksize 0xC0510030 s' = m"
proof -
  obtain s' where s': "kmalloc 100 demo_heap = (Some 0xC0510030, s')" using demo_heap_kmalloc by blast
  have n: "unat (100 :: u32) < 1073741824" by simp
  obtain m where m: "heap_inv s'" "live s' = {(0xC0510030, m)}"
    using kmalloc_result [OF demo_heap_inv n s'] by (auto simp: malloc_result_def demo_heap_live)
  then show ?thesis using ksize_live [of s' "0xC0510030" m] s' by simp
qed

text \<open>\<^verbatim>\<open>heap_setup\<close> establishes the invariant with no live block.\<close>

theorem heap_setup_establishes: "heap_inv (heap_setup s) \<and> live (heap_setup s) = {}"
  by (simp add: heap_inv_def live_def heap_setup_def)

text \<open>When \<^verbatim>\<open>kmalloc\<close> has to make a new area and gets the virtual and the physical pages for it,
  it nevertheless returns \<^verbatim>\<open>NULL\<close> exactly when the size rounded up to 16 is not less than the
  size of the one block of the area: the size test of \<^verbatim>\<open>try_allocate\<close> is strict.\<close>

theorem kmalloc_new_area_null_iff:
  assumes "heap_inv s" "unat n < 1073741824" "n \<noteq> 0" "try_areas False (heap s) n s = (None, s)"
    "find_free_virt_addr (area_size n) s = (Some v, s2)"
    "get_phys_block (pages_of (area_size n)) s2 = (ph, s3)" "ph \<noteq> 0"
    "page_map_range ph (of_nat v) (PAGE_WRITE OR PAGE_PRESENT) (pages_of (area_size n)) s3 = (0, s4)"
  shows "fst (kmalloc n s) = None \<longleftrightarrow> unat (area_size n) - 48 \<le> unat (MALLOC_ALIGN n)"
proof -
  let ?s5 = "init_new_allocated_block v (unat (area_size n)) False s4"
  have fr: "vm_frame s2 s4"
    using vm_frame_get_phys_block [OF assms(6)] vm_frame_page_map_range [OF assms(8)] vm_frame_trans by blast
  obtain r s' where r: "try_allocate (hd (heap ?s5)) n ?s5 = (r, s')" by (cases "try_allocate (hd (heap ?s5)) n ?s5")
  have "kmalloc n s = (r, s')" using assms(3-8) r by (simp add: kmalloc_def Let_def)
  then show ?thesis using fresh_area(2) [OF assms(1,2,5) fr refl r] by simp
qed

definition demo_empty :: heap_st where
  "demo_empty = \<lparr>klog = [], mm_bitmap = (\<lambda>i. if i < 159 then 0 else - 1), lay = demo_layout,
     page_directory = (\<lambda>d. if d = 768 then 0x103003 else if d = 769 then 0x4F7007 else 0),
     pmem = (\<lambda>_ _. 0), mm_virt_heap = (\<lambda>_. - 1), heap = [], headers = (\<lambda>a. \<lparr>hsize = 0, hfree = True\<rparr>)\<rparr>"

lemma demo_empty_wf:
  assumes "lay s = demo_layout" "page_directory s = page_directory demo_empty" "free_pages s \<subseteq> free_pages demo_empty"
  shows "vm_wf s" "table_frame s 769 = Some 0x4F7000"
proof -
  have tf: "table_frame s d = (if d = 768 then Some 0x103000 else if d = 769 then Some 0x4F7000 else None)" for d
    by (simp add: table_frame_def assms(2)) (simp add: demo_empty_def PAGE_GET_ADDR_def PAGE_ADDR_def PAGE_FLAG_def bit_simps)
  note l = assms(1)
  have "page_of_addr 0x103000 \<notin> free_pages demo_empty" "page_of_addr 0x4F7000 \<notin> free_pages demo_empty"
    by (simp_all add: free_pages_def page_bit_def demo_empty_def)
  then show "vm_wf s"
    using assms(3)
    by (intro vm_wfI)
       (auto simp: tf l demo_layout_def window_index_def KERNEL_GET_REAL_def KERNEL_POS_def split: if_splits)
  show "table_frame s 769 = Some 0x4F7000" by (simp add: tf)
qed

theorem kmalloc_new_area_null_iff_witness: "fst (kmalloc 4040 demo_empty) = None"
proof -
  have as: "area_size 4040 = 4096" by (simp add: sizeof_defs PAGE_ALIGN_def)
  have p1: "pages_of (area_size 4040) = 1" unfolding as by simp
  have inv: "heap_inv demo_empty" by (simp add: heap_inv_def demo_empty_def)
  have "free_run (page_bit (mm_virt_heap demo_empty)) (8 * 0) 1"
    by (simp add: free_run_def page_bit_def demo_empty_def bit_set_simps)
  from bitmap_scan_here [OF this, of 512]
  obtain s2 where f: "find_free_virt_addr (area_size 4040) demo_empty = (Some 0xC0510000, s2)"
    and s2: "s2 = alloc_virt_block 0xC0510000 1 demo_empty"
    unfolding as by (simp add: find_free_virt_addr_def HEAP_SIZE_def HEAP_START_def demo_empty_def
        demo_layout_def PAGE_ALIGN_def Let_def)
  obtain k bm where s2': "s2 = demo_empty\<lparr>mm_virt_heap := bm\<rparr>"
    using find_free_virt_addr_Some [OF f] by metis
  have "free_run (page_bit (mm_bitmap s2)) (8 * 159) 1"
    by (simp add: s2' free_run_def page_bit_def demo_empty_def bit_set_simps)
  from bitmap_scan_here [OF this, of 131072]
  have g: "get_phys_block (pages_of (area_size 4040)) s2 = (0x4F8000, alloc_phys_block 0x4F8000 1 s2)"
    unfolding p1 by (simp add: get_phys_block_def MAX_RAM_PAGE_def LOW_MEMORY_SIZE_def Let_def)
  let ?s3 = "alloc_phys_block 0x4F8000 1 s2"
  have wf2: "vm_wf ?s3" "table_frame ?s3 (dir_index 0xC0510000) = Some 0x4F7000"
  proof -
    have "free_pages s2 = free_pages demo_empty" by (simp add: s2' free_pages_def)
    then have "free_pages ?s3 \<subseteq> free_pages demo_empty"
      using free_pages_alloc [of "0x4F8000" 1 s2] by auto
    moreover have "lay ?s3 = demo_layout" "page_directory ?s3 = page_directory demo_empty"
      by (simp_all add: s2' demo_empty_def)
    ultimately show "vm_wf ?s3" "table_frame ?s3 (dir_index 0xC0510000) = Some 0x4F7000"
      using demo_empty_wf [of ?s3] by (simp_all add: dir_index_def)
  qed
  obtain s4 where m: "page_map 0x4F8000 0xC0510000 (PAGE_WRITE OR PAGE_PRESENT) ?s3 = (0, s4)"
    using page_map_backed [OF wf2, of "0x4F8000" "PAGE_WRITE OR PAGE_PRESENT"]
    by (simp add: dir_index_def PAGE_FLAG_def PAGE_WRITE_def PAGE_PRESENT_def PAGE_ADDR_def)
  have r: "page_map_range 0x4F8000 (of_nat 0xC0510000) (PAGE_WRITE OR PAGE_PRESENT) (pages_of (area_size 4040)) ?s3 = (0, s4)"
    unfolding p1 using m by (simp add: page_map_range_def until_error.simps)
  have "unat (area_size 4040) - 48 \<le> unat (MALLOC_ALIGN 4040)" unfolding as by (simp add: MALLOC_ALIGN_def)
  moreover have "try_areas False (heap demo_empty) 4040 demo_empty = (None, demo_empty)" by (simp add: demo_empty_def)
  ultimately show ?thesis
    using kmalloc_new_area_null_iff [OF inv _ _ _ f g _ r] by simp
qed

end
