(* ===== verification/Memory_Init.thy ===== *)
theory Memory_Init
  imports Phys_Mem
begin

text \<open>
  Filling the physical bitmap at boot (\<^verbatim>\<open>kernel/mem/memory_init.c\<close>): every page is taken
  out, the memory regions the boot loader reports as available are put in, and the pages of
  the kernel image are taken out again. The multiboot information block is memory written
  by the boot loader: its 32-bit words are the parameter \<open>rd\<close> of the definitions.
\<close>

definition MULTIBOOT2_BOOTLOADER_MAGIC :: u32 where "MULTIBOOT2_BOOTLOADER_MAGIC = 0x36d76289"
definition MULTIBOOT_TAG_TYPE_END :: u32 where "MULTIBOOT_TAG_TYPE_END = 0"
definition MULTIBOOT_TAG_TYPE_MMAP :: u32 where "MULTIBOOT_TAG_TYPE_MMAP = 6"
definition MULTIBOOT_MEMORY_AVAILABLE :: u32 where "MULTIBOOT_MEMORY_AVAILABLE = 1"

subsection \<open>The bitmap loops\<close>

definition reset_mm_bitmap :: "'a phys_st_scheme \<Rightarrow> 'a phys_st_scheme" where
  "reset_mm_bitmap s = s\<lparr>mm_bitmap := (\<lambda>i. if i < MAX_RAM_PAGE div 8 then 0 else mm_bitmap s i)\<rparr>"

text \<open>
  The two loops of \<^verbatim>\<open>init_mm_bitmap\<close>: single bits while \<^verbatim>\<open>len % 8\<close>, then whole bytes. After
  the first loop \<open>len\<close> is a multiple of 8, so \<open>len - 8\<close> is the C subtraction.
\<close>

function init_mm_bits :: "u32 \<Rightarrow> nat \<Rightarrow> bitmap \<Rightarrow> u32 \<times> nat \<times> bitmap" where
  "init_mm_bits page len bm =
     (if len mod 8 \<noteq> 0
      then let i = ACCESS_BITMAP_BY_ADDR (push_bit 12 page)
           in init_mm_bits (page + 1) (len - 1)
                (bm(i := bm i OR push_bit (unat (page mod 8)) 1))
      else (page, len, bm))"
  by pat_completeness auto
termination
  by (relation "measure (\<lambda>(page, len, bm). len)") (auto intro: Nat.gr0I)

function init_mm_bytes :: "u32 \<Rightarrow> nat \<Rightarrow> bitmap \<Rightarrow> bitmap" where
  "init_mm_bytes page len bm =
     (if len \<noteq> 0
      then init_mm_bytes (page + 8) (len - 8)
             (bm(ACCESS_BITMAP_BY_ADDR (push_bit 12 page) := - 1))
      else bm)"
  by pat_completeness auto
termination
  by (relation "measure (\<lambda>(page, len, bm). len)") auto

declare init_mm_bits.simps [simp del] init_mm_bytes.simps [simp del]

definition init_mm_bitmap :: "u32 \<Rightarrow> u32 \<Rightarrow> 'a phys_st_scheme \<Rightarrow> 'a phys_st_scheme" where
  "init_mm_bitmap start len s =
     (case init_mm_bits (drop_bit 12 start) (unat (drop_bit 12 len)) (mm_bitmap s) of
        (page, rest, bm) \<Rightarrow> s\<lparr>mm_bitmap := init_mm_bytes page rest bm\<rparr>)"

subsection \<open>The multiboot tags\<close>

text \<open>
  A memory map entry is \<^verbatim>\<open>addr\<close> (64 bits), \<^verbatim>\<open>len\<close> (64 bits), \<^verbatim>\<open>type\<close>. The code adds the
  high half of each 64-bit field to the low half. Neither loop need end: an entry size or a
  tag size of zero repeats the same address, which is the value \<open>None\<close>.
\<close>

partial_function (option) mmap_entries ::
  "(u32 \<Rightarrow> u32) \<Rightarrow> u32 \<Rightarrow> u32 \<Rightarrow> 'a phys_st_scheme \<Rightarrow> 'a phys_st_scheme option" where
  "mmap_entries rd tag mmap s =
     (if mmap < tag + rd (tag + 4)
      then let current_addr = rd mmap + rd (mmap + 4);
               current_len = rd (mmap + 8) + rd (mmap + 12);
               s' = (if rd (mmap + 16) = MULTIBOOT_MEMORY_AVAILABLE
                     then init_mm_bitmap current_addr current_len s else s)
           in mmap_entries rd tag (mmap + rd (tag + 8)) s'
      else Some s)"

partial_function (option) grub_tags ::
  "(u32 \<Rightarrow> u32) \<Rightarrow> u32 \<Rightarrow> 'a phys_st_scheme \<Rightarrow> 'a phys_st_scheme option" where
  "grub_tags rd tag s =
     (if rd tag \<noteq> MULTIBOOT_TAG_TYPE_END
      then if rd tag = MULTIBOOT_TAG_TYPE_MMAP then mmap_entries rd tag (tag + 16) s
           else grub_tags rd (tag + ((rd (tag + 4) + 7) AND NOT 7)) s
      else Some s)"

text \<open>\<open>Inl\<close> is a kernel panic: the message is printed and the machine halts.\<close>

definition memory_init_grub ::
  "(u32 \<Rightarrow> u32) \<Rightarrow> u32 \<Rightarrow> u32 \<Rightarrow> 'a phys_st_scheme \<Rightarrow> (string + 'a phys_st_scheme) option" where
  "memory_init_grub rd magic addr s =
     (if magic \<noteq> MULTIBOOT2_BOOTLOADER_MAGIC then Some (Inl ''Invalid magic number'')
      else if addr AND 7 \<noteq> 0 then Some (Inl ''Unaligned mbi'')
      else map_option Inr (grub_tags rd (addr + 8) (reset_mm_bitmap s)))"

function reserv_loop :: "u32 \<Rightarrow> u32 \<Rightarrow> bitmap \<Rightarrow> bitmap" where
  "reserv_loop i stop bm =
     (if i < stop
      then let k = ACCESS_BITMAP_BY_ADDR (push_bit 12 i)
           in reserv_loop (i + 1) stop (bm(k := bm k AND NOT (push_bit (unat (i mod 8)) 1)))
      else bm)"
  by pat_completeness auto
termination
  by (relation "measure (\<lambda>(i, stop, bm). unat stop - unat i)")
     (auto simp: unat_Suc_less word_less_nat_alt)

declare reserv_loop.simps [simp del]

definition memory_init_reserv_kernel :: "u32 \<Rightarrow> u32 \<Rightarrow> 'a phys_st_scheme \<Rightarrow> 'a phys_st_scheme" where
  "memory_init_reserv_kernel KERNEL_REAL_START KERNEL_REAL_END s =
     s\<lparr>mm_bitmap := reserv_loop (drop_bit 12 KERNEL_REAL_START)
                      (drop_bit 12 (PAGE_ALIGN KERNEL_REAL_END)) (mm_bitmap s)\<rparr>"

definition memory_init ::
  "(u32 \<Rightarrow> u32) \<Rightarrow> u32 \<Rightarrow> u32 \<Rightarrow> u32 \<Rightarrow> u32 \<Rightarrow> 'a phys_st_scheme \<Rightarrow> (string + 'a phys_st_scheme) option"
where
  "memory_init rd kstart kend magic addr s =
     map_option (map_sum id (memory_init_reserv_kernel kstart kend))
       (memory_init_grub rd magic addr s)"

subsection \<open>Which pages become free\<close>

lemma mod_8_u32: "unat (i mod 8 :: u32) = unat i mod 8"
  by (simp add: unat_mod)

lemma reserv_loop_step:
  "i < stop \<Longrightarrow> unat i < 1048576 \<Longrightarrow> reserv_loop i stop bm =
     reserv_loop (i + 1) stop (bm(unat i div 8 := bm (unat i div 8) AND NOT (2 ^ (unat i mod 8))))"
  by (simp add: reserv_loop.simps [of i] bitmap_index_page mod_8_u32 Let_def)

lemma reserv_loop_page_bit:
  assumes "unat stop \<le> 1048576"
  shows "page_bit (reserv_loop i stop bm) q \<longleftrightarrow> page_bit bm q \<and> q \<notin> {unat i..<unat stop}"
  using assms
proof (induction "unat stop - unat i" arbitrary: i bm)
  case 0
  then show ?case by (auto simp: reserv_loop.simps [of i] word_less_nat_alt)
next
  case (Suc n)
  then have less: "i < stop" by (simp add: word_less_nat_alt)
  then have u: "unat (i + 1) = unat i + 1" by (rule unat_Suc_less)
  with Suc.hyps(2) have "n = unat stop - unat (i + 1)" by simp
  note IH = Suc.hyps(1) [OF this Suc.prems]
  have "unat i < unat stop" using less by (simp add: word_less_nat_alt)
  moreover from this Suc.prems have "unat i < 1048576" by simp
  ultimately show ?case
    using less by (simp only: reserv_loop_step IH u page_bit_clear) auto
qed

text \<open>The first loop: it stops at the next multiple of 8 and has set one bit per page.\<close>

lemma init_mm_bits_step:
  "Suc l mod 8 \<noteq> 0 \<Longrightarrow> unat page < 1048576 \<Longrightarrow> init_mm_bits page (Suc l) bm =
     init_mm_bits (page + 1) l (bm(unat page div 8 := bm (unat page div 8) OR 2 ^ (unat page mod 8)))"
  by (simp add: init_mm_bits.simps [of page] bitmap_index_page mod_8_u32 Let_def)

lemma init_mm_bits_stop: "len mod 8 = 0 \<Longrightarrow> init_mm_bits page len bm = (page, len, bm)"
  by (simp add: init_mm_bits.simps)

lemma init_mm_bits_spec:
  assumes "unat page + len \<le> 1048576" "init_mm_bits page len bm = (page', rest, bm')"
  shows "unat page' = unat page + len mod 8 \<and> rest = 8 * (len div 8) \<and>
    (page_bit bm' q \<longleftrightarrow> page_bit bm q \<or> q \<in> {unat page..<unat page + len mod 8})"
  using assms
proof (induction len arbitrary: page bm)
  case 0
  then show ?case by (simp add: init_mm_bits_stop)
next
  case (Suc l)
  show ?case
  proof (cases "Suc l mod 8 = 0")
    case True
    with Suc.prems show ?thesis by (auto simp: init_mm_bits_stop)
  next
    case False
    have p: "unat page < 1048576" using Suc.prems(1) by simp
    then have up: "unat (page + 1) = unat page + 1" by (simp add: unat_word_ariths)
    have m: "Suc l mod 8 = Suc (l mod 8)" "Suc l div 8 = l div 8"
      using False by (auto simp: mod_Suc div_Suc split: if_splits)
    have le: "unat (page + 1) + l \<le> 1048576" using Suc.prems(1) up by simp
    note IH = Suc.IH [OF le Suc.prems(2) [unfolded init_mm_bits_step [OF False p]]]
    from IH show ?thesis
      unfolding up m page_bit_set by auto
  qed
qed

lemma page_bit_byte: "page_bit (bm(k := - 1)) q \<longleftrightarrow> page_bit bm q \<or> q \<in> {8 * k..<8 * k + 8}"
  by (auto simp: page_bit_def bit_set_simps)

lemma init_mm_bytes_spec:
  assumes "unat page + 8 * m \<le> 1048576"
  shows "page_bit (init_mm_bytes page (8 * m) bm) q \<longleftrightarrow>
    page_bit bm q \<or> q \<in> {8 * (unat page div 8)..<8 * (unat page div 8) + 8 * m}"
  using assms
proof (induction m arbitrary: page bm)
  case 0
  show ?case by (simp add: init_mm_bytes.simps)
next
  case (Suc m)
  then have p: "unat page + 8 < 4294967296" "unat page < 1048576" by simp_all
  then have up: "unat (page + 8) = unat page + 8" by (simp add: unat_word_ariths)
  have "init_mm_bytes page (8 * Suc m) bm =
        init_mm_bytes (page + 8) (8 * m) (bm(unat page div 8 := - 1))"
    using p by (simp add: init_mm_bytes.simps [of page] bitmap_index_page)
  moreover have "unat (page + 8) + 8 * m \<le> 1048576" using Suc.prems up by simp
  moreover have "8 * (unat (page + 8) div 8) = 8 * (unat page div 8) + 8"
    unfolding up by presburger
  ultimately show ?case
    by (simp only: Suc.IH page_bit_byte) auto
qed

lemma init_mm_bitmap_effect:
  fixes s :: "'a phys_st_scheme"
  assumes "page_of_addr start + page_of_addr len \<le> 1048576"
    and m_def: "m = page_of_addr start + page_of_addr len mod 8"
  shows "free_pages (init_mm_bitmap start len s) = free_pages s \<union> {page_of_addr start..<m} \<union>
           {8 * (m div 8)..<8 * (m div 8) + 8 * (page_of_addr len div 8)}"
proof -
  obtain page rest bm where
    i: "init_mm_bits (drop_bit 12 start) (unat (drop_bit 12 len)) (mm_bitmap s) = (page, rest, bm)"
    by (cases "init_mm_bits (drop_bit 12 start) (unat (drop_bit 12 len)) (mm_bitmap s)")
  have le: "unat (drop_bit 12 start) + unat (drop_bit 12 len) \<le> 1048576"
    using assms(1) by (simp add: unat_drop_bit)
  note b = init_mm_bits_spec [OF le i, unfolded unat_drop_bit, simplified]
  then have le': "unat page + 8 * (page_of_addr len div 8) \<le> 1048576"
    using assms(1) by simp
  have q: "page_bit (mm_bitmap (init_mm_bitmap start len s)) q \<longleftrightarrow> page_bit (mm_bitmap s) q \<or>
      q \<in> {page_of_addr start..<m} \<or> q \<in> {8 * (m div 8)..<8 * (m div 8) + 8 * (page_of_addr len div 8)}" for q
    using b [of q] init_mm_bytes_spec [OF le', of bm q]
    by (simp add: init_mm_bitmap_def i m_def)
  have "m + 8 * (page_of_addr len div 8) \<le> 1048576" using assms(1) by (simp add: m_def)
  then have "8 * (m div 8) + 8 * (page_of_addr len div 8) \<le> 1048576" by linarith
  moreover have "m \<le> 1048576" using assms(1) by (simp add: m_def)
  moreover have "{a..<b} \<subseteq> {..<1048576}" if "b \<le> 1048576" for a b :: nat
    using that by auto
  ultimately show ?thesis
    unfolding Un_assoc by (intro free_pages_UnI) (simp_all only: q Un_iff Un_subset_iff simp_thms)
qed

text \<open>
  What \<^verbatim>\<open>init_mm_bitmap\<close> really marks: the first \<^verbatim>\<open>len % 8\<close> pages exactly, and then the
  whole bytes from the one that holds the next page on. The marked set is the region
  only when that next page starts a byte.
\<close>

theorem init_mm_bitmap_free_pages:
  fixes s :: "'a phys_st_scheme"
  assumes "page_of_addr start + page_of_addr len \<le> 1048576"
    and m_def: "m = page_of_addr start + page_of_addr len mod 8"
  shows "free_pages (init_mm_bitmap start len s) = free_pages s \<union> {page_of_addr start..<m} \<union>
           {8 * (m div 8)..<8 * (m div 8) + 8 * (page_of_addr len div 8)}"
  using init_mm_bitmap_effect [OF assms] .

lemma init_mm_bitmap_free_pages_witness:
  "free_pages (init_mm_bitmap 0x1000 0x8000 \<lparr>klog = [], mm_bitmap = (\<lambda>_. 0)\<rparr>) = {0..<8} \<and>
   page_of_addr 0x1000 + page_of_addr 0x8000 \<le> 1048576"
proof -
  have "free_pages \<lparr>klog = [], mm_bitmap = (\<lambda>_. 0 :: u8)\<rparr> = {}"
    by (simp add: free_pages_def page_bit_def)
  moreover have "page_of_addr 0x1000 + page_of_addr 0x8000 \<le> 1048576" by simp
  ultimately show ?thesis
    using init_mm_bitmap_free_pages
      [of "0x1000" "0x8000" 1 "\<lparr>klog = [], mm_bitmap = (\<lambda>_. 0)\<rparr>"] by simp
qed

subsection \<open>The memory map is read to its end\<close>

definition mmap_entry_step :: "(u32 \<Rightarrow> u32) \<Rightarrow> u32 \<Rightarrow> 'a phys_st_scheme \<Rightarrow> 'a phys_st_scheme" where
  "mmap_entry_step rd e s =
     (if rd (e + 16) = MULTIBOOT_MEMORY_AVAILABLE
      then init_mm_bitmap (rd e + rd (e + 4)) (rd (e + 8) + rd (e + 12)) s else s)"

lemma mmap_entries_step:
  "m < tag + rd (tag + 4) \<Longrightarrow>
   mmap_entries rd tag m s = mmap_entries rd tag (m + rd (tag + 8)) (mmap_entry_step rd m s)"
  by (subst mmap_entries.simps) (simp add: mmap_entry_step_def Let_def)

lemma mmap_entries_from:
  assumes sz: "unat (rd (tag + 4)) = 16 + n * unat (rd (tag + 8))"
    and fit: "unat tag + unat (rd (tag + 4)) < 4294967296"
    and pos: "0 < unat (rd (tag + 8))" and i: "i \<le> n"
  shows "mmap_entries rd tag (tag + 16 + of_nat i * rd (tag + 8)) s =
    Some (fold (\<lambda>k. mmap_entry_step rd (tag + 16 + of_nat k * rd (tag + 8))) [i..<n] s)"
  using i
proof (induction "n - i" arbitrary: i s)
  let ?e = "rd (tag + 8)"
  have u: "unat (tag + 16 + of_nat j * ?e) = unat tag + 16 + j * unat ?e" if "j \<le> n" for j
  proof -
    have "j * unat ?e \<le> n * unat ?e" using that by (rule mult_le_mono1)
    with sz fit have "unat tag + 16 + j * unat ?e < 4294967296" by linarith
    then have "(unat tag + 16 + j * unat ?e) mod 4294967296 = unat tag + 16 + j * unat ?e"
      by (rule mod_less)
    moreover have "tag + 16 + of_nat j * ?e = of_nat (unat tag + 16 + j * unat ?e)" by simp
    ultimately show ?thesis by (simp only: unat_of_nat) simp
  qed
  have ut: "unat (tag + rd (tag + 4)) = unat tag + 16 + n * unat ?e"
    using fit sz by (simp add: unat_word_ariths)
  {
    case 0
    then have "i = n" by simp
    with u [of n] ut show ?case by (simp add: mmap_entries.simps word_less_nat_alt)
  next
    case (Suc k)
    then have "i < n" by simp
    then have "i * unat ?e < n * unat ?e" using pos by simp
    with u [of i] ut \<open>i < n\<close> have less: "tag + 16 + of_nat i * ?e < tag + rd (tag + 4)"
      by (simp add: word_less_nat_alt)
    have "tag + 16 + of_nat i * ?e + ?e = tag + 16 + of_nat (Suc i) * ?e"
      by (simp add: algebra_simps)
    moreover have "k = n - Suc i" "Suc i \<le> n" using Suc.hyps(2) by simp_all
    ultimately show ?case
      using \<open>i < n\<close> by (simp only: mmap_entries_step [of _ tag rd, OF less] Suc.hyps(1) upt_conv_Cons) simp
  }
qed

text \<open>
  C27. A memory map tag of \<open>n\<close> entries is read completely and once: the loop ends, and its
  effect is the initialisation of the available entries, in order.
\<close>

theorem mmap_entries_complete:
  assumes "unat (rd (tag + 4)) = 16 + n * unat (rd (tag + 8))"
    and "unat tag + unat (rd (tag + 4)) < 4294967296" and "0 < unat (rd (tag + 8))"
  shows "mmap_entries rd tag (tag + 16) s =
    Some (fold (\<lambda>k. mmap_entry_step rd (tag + 16 + of_nat k * rd (tag + 8))) [0..<n] s)"
  using mmap_entries_from [OF assms, of 0] by simp

definition demo_mbi :: "u32 \<Rightarrow> u32" where
  "demo_mbi a = (if a = 8 then 6 else if a = 12 then 40 else if a = 16 then 24
     else if a = 24 then 0x500000 else if a = 32 then 0x8000 else if a = 40 then 1 else 0)"

theorem mmap_entries_complete_witness:
  "mmap_entries demo_mbi 8 24 \<lparr>klog = [], mm_bitmap = (\<lambda>_. 0)\<rparr> =
     Some (init_mm_bitmap 0x500000 0x8000 \<lparr>klog = [], mm_bitmap = (\<lambda>_. 0)\<rparr>)"
  using mmap_entries_complete [of demo_mbi 8 1 "\<lparr>klog = [], mm_bitmap = (\<lambda>_. 0)\<rparr>"]
  by (simp add: demo_mbi_def mmap_entry_step_def MULTIBOOT_MEMORY_AVAILABLE_def)

lemma memory_init_reserves:
  assumes "memory_init rd kstart kend magic addr s = Some (Inr s')"
  shows "free_pages s' \<inter> {page_of_addr kstart..<page_of_addr (PAGE_ALIGN kend)} = {}"
proof -
  from assms obtain t where s': "s' = memory_init_reserv_kernel kstart kend t"
    by (auto simp: memory_init_def elim!: map_option_eq_Some [THEN iffD1, elim_format]
        split: sum.splits) (metis map_sum.simps sum.exhaust sum.inject(2) sum.distinct(1))
  show ?thesis
    by (auto simp: s' memory_init_reserv_kernel_def free_pages_def reserv_loop_page_bit
        unat_drop_bit less_imp_le)
qed

text \<open>
  After a successful boot initialisation no page of the kernel image is free, so the
  allocator can never hand one out.
\<close>

theorem memory_init_reserves_kernel:
  assumes "memory_init rd kstart kend magic addr s = Some (Inr s')"
  shows "free_pages s' \<inter> {page_of_addr kstart..<page_of_addr (PAGE_ALIGN kend)} = {}"
  using memory_init_reserves [OF assms] .

theorem memory_init_reserves_kernel_witness:
  "\<exists>s'. memory_init demo_mbi 0x500000 0x502000 0x36d76289 0 \<lparr>klog = [], mm_bitmap = (\<lambda>_. 0)\<rparr> =
      Some (Inr s') \<and> free_pages s' \<inter> {0x500..<0x502} = {}"
proof -
  have "\<exists>s'. memory_init demo_mbi 0x500000 0x502000 0x36d76289 0
      \<lparr>klog = [], mm_bitmap = (\<lambda>_. 0)\<rparr> = Some (Inr s')"
    by (simp add: memory_init_def memory_init_grub_def MULTIBOOT2_BOOTLOADER_MAGIC_def
        grub_tags.simps mmap_entries.simps demo_mbi_def MULTIBOOT_TAG_TYPE_END_def
        MULTIBOOT_TAG_TYPE_MMAP_def)
  with memory_init_reserves_kernel [of demo_mbi "0x500000" "0x502000" "0x36d76289" 0]
  show ?thesis by (fastforce simp: PAGE_ALIGN_def)
qed

end
