(* ===== verification/Heap_Frame.thy ===== *)
theory Heap_Frame
  imports Kmalloc
begin

text \<open>
  What the operations of the heap and below leave alone: \<open>heap_frame s s'\<close> says that \<open>s'\<close> has the
  same kernel image and the same fields above those of the heap. The layers above get
  from it that their own fields survive every allocation, release and mapping.
\<close>

definition heap_frame :: "'a heap_st_scheme \<Rightarrow> 'a heap_st_scheme \<Rightarrow> bool" where
  "heap_frame s s' \<longleftrightarrow> lay s' = lay s \<and> heap_st.more s' = heap_st.more s"

lemma heap_frame_refl [simp, intro]: "heap_frame s s"
  by (simp add: heap_frame_def)

lemma heap_frame_trans [trans]: "heap_frame s t \<Longrightarrow> heap_frame t u \<Longrightarrow> heap_frame s u"
  by (simp add: heap_frame_def)

lemma vm_frame_heap_frame: "vm_frame s s' \<Longrightarrow> heap_frame s s'"
  by (auto simp: vm_frame_def heap_frame_def)

lemma heap_frame_updates [simp]:
  "heap_frame s (t\<lparr>mm_virt_heap := b\<rparr>) = heap_frame s t"
  "heap_frame s (t\<lparr>heap := h\<rparr>) = heap_frame s t"
  "heap_frame s (t\<lparr>headers := d\<rparr>) = heap_frame s t"
  "heap_frame s (t\<lparr>klog := l\<rparr>) = heap_frame s t"
  "heap_frame s (printk m t) = heap_frame s t"
  by (simp_all add: heap_frame_def printk_def)

lemma heap_frame_alloc_virt_block [simp]: "heap_frame s (alloc_virt_block a n t) = heap_frame s t"
  by (induction a n t rule: alloc_virt_block.induct) (simp_all add: Let_def)

lemma heap_frame_free_virt_block [simp]: "heap_frame s (free_virt_block a n t) = heap_frame s t"
  by (induction a n t rule: free_virt_block.induct) (simp_all add: Let_def)

lemma heap_frame_free_phys_block [simp]: "heap_frame s (free_phys_block a n t) = heap_frame s t"
  using vm_frame_heap_frame [OF vm_frame_free_phys_block, of t a n] by (auto simp: heap_frame_def)

lemma heap_frame_find_free: "find_free_virt_addr n s = (r, s') \<Longrightarrow> heap_frame s s'"
  by (auto simp: find_free_virt_addr_def Let_def split: option.splits)

lemma heap_frame_try_allocate: "try_allocate e n s = (r, s') \<Longrightarrow> heap_frame s s'"
  by (auto simp: try_allocate_def split: option.splits)

lemma heap_frame_try_areas: "try_areas v l n s = (r, s') \<Longrightarrow> heap_frame s s'"
proof (induction l arbitrary: s)
  case (Cons e l)
  then show ?case
    by (auto split: if_splits prod.splits option.splits dest!: heap_frame_try_allocate intro: heap_frame_trans)
qed simp

lemma heap_frame_init [simp]: "heap_frame s (init_new_allocated_block a n v t) = heap_frame s t"
  by (simp add: init_new_allocated_block_def heap_frame_def)

lemmas vm_heap_frames = vm_frame_get_phys_block [THEN vm_frame_heap_frame]
  vm_frame_page_map_range [THEN vm_frame_heap_frame] vm_frame_page_map [THEN vm_frame_heap_frame]
  vm_frame_page_get_phys [THEN vm_frame_heap_frame] vm_frame_page_info [THEN vm_frame_heap_frame]
  vm_frame_page_unmap [THEN vm_frame_heap_frame] vm_frame_access [THEN vm_frame_heap_frame]

lemma heap_frame_kmalloc:
  assumes "kmalloc n s = (r, s')"
  shows "heap_frame s s'"
proof -
  obtain r1 s1 where a: "try_areas False (heap s) n s = (r1, s1)" by (cases "try_areas False (heap s) n s")
  obtain r2 s2 where f: "find_free_virt_addr (area_size n) s1 = (r2, s2)"
    by (cases "find_free_virt_addr (area_size n) s1")
  have s2: "heap_frame s s1" "heap_frame s s2"
    using heap_frame_try_areas [OF a] heap_frame_find_free [OF f] heap_frame_trans by blast+
  obtain ph s3 where g: "get_phys_block (pages_of (area_size n)) s2 = (ph, s3)"
    by (cases "get_phys_block (pages_of (area_size n)) s2")
  have s3: "heap_frame s s3" using s2 vm_heap_frames(1) [OF g] heap_frame_trans by blast
  have s4: "heap_frame s s4" if m: "page_map_range ph (of_nat v) (PAGE_WRITE OR PAGE_PRESENT) (pages_of (area_size n)) s3 = (e, s4)" for v e s4
    using s3 vm_heap_frames(2) [OF m] heap_frame_trans by blast
  have s6: "heap_frame s s6"
    if "page_map_range ph (of_nat v) (PAGE_WRITE OR PAGE_PRESENT) (pages_of (area_size n)) s3 = (e, s4)"
      "try_allocate x n (init_new_allocated_block v m b s4) = (q, s6)" for v e s4 x q s6 m b
    using s4 [OF that(1)] heap_frame_try_allocate [OF that(2)] heap_frame_trans [of s "init_new_allocated_block v m b s4"]
    by simp
  show ?thesis
    using assms a f g s2 s3 by (auto simp: kmalloc_def Let_def split: if_splits option.splits prod.splits
        dest: s4 s6)
qed

lemma heap_frame_kfree [simp]: "heap_frame s (kfree p s)"
proof -
  have d: "heap_frame s (kdefrag e t)" if "heap_frame s t" for e t
  proof -
    let ?u = "free_virt_block (fst e) (pages_of (PAGE_ALIGN (of_nat (page_size (snd e))))) (remove_area (fst e) (defragged e t))"
    obtain ph v where g: "page_get_phys (of_nat (fst e)) ?u = (ph, v)" by (cases "page_get_phys (of_nat (fst e)) ?u")
    have "heap_frame s ?u" using that by (simp add: remove_area_def)
    then have "heap_frame s v" using vm_heap_frames(4) [OF g] heap_frame_trans by blast
    with that g show ?thesis by (simp add: kdefrag_def Let_def)
  qed
  have "heap_frame s (free_in l p kdefrag t)" if "heap_frame s t" for l t
    using that by (induction l) (auto split: option.splits intro: d)
  then show ?thesis by (simp add: kfree_def free_with_def)
qed

lemma vm_frame_page_unmap_at:
  assumes "page_unmap_at v fl n s = (e, s')"
  shows "vm_frame s s'"
proof -
  have u: "vm_frame t t'" if "until_error f n n t = (e, j, t')" for f :: "nat \<Rightarrow> 'a vm_st_scheme \<Rightarrow> int \<times> 'a vm_st_scheme" and e j t t'
    using that by (simp add: until_error.simps)
  show ?thesis
    using assms unfolding page_unmap_at_def by (auto split: if_splits prod.splits dest!: u intro: vm_frame_trans)
qed

lemma heap_frame_page_unmap_at: "heap_frame s (snd (page_unmap_at v f n s))"
  by (rule vm_frame_heap_frame, rule vm_frame_page_unmap_at) (rule prod.collapse [symmetric])

end
