(* ===== verification/Boot.thy ===== *)
theory Boot
  imports Kmalloc_Correct Memory_Init Heap_Frame
begin

text \<open>
  How \<^verbatim>\<open>kmain\<close> (\<^verbatim>\<open>kernel/kernel.c\<close>) brings memory up: the memory map of the boot loader, the page tables, the
  stack (\<^verbatim>\<open>kernel/mem/stack_setup.c\<close>), the heap. The boot establishes the invariants on which the lemmas about
  pages and heap blocks rest, and keeps the kernel mapped where it runs.
\<close>

subsection \<open>The stack\<close>

definition STACK_SIZE :: nat where "STACK_SIZE = 0x10000"

definition HEAP_END :: "'a vm_st_scheme \<Rightarrow> nat" where
  "HEAP_END s = HEAP_START s + HEAP_SIZE"

definition STACK_START :: "'a vm_st_scheme \<Rightarrow> u32" where
  "STACK_START s = 0x400000 + PAGE_ALIGN (of_nat (HEAP_END s))"

definition STACK_END :: "'a vm_st_scheme \<Rightarrow> u32" where
  "STACK_END s = STACK_START s + of_nat STACK_SIZE"

text \<open>The address the loop stops at, or the message of the panic; \<^verbatim>\<open>kern_panic\<close> does not return.\<close>

partial_function (option) stack_loop ::
  "u32 \<Rightarrow> u32 \<Rightarrow> u32 \<Rightarrow> 'a vm_st_scheme \<Rightarrow> ((string + u32) \<times> 'a vm_st_scheme) option" where
  "stack_loop stack_bottom stack_btmp virt_stack_ptr s =
     (if stack_btmp \<noteq> stack_bottom \<and> virt_stack_ptr \<ge> STACK_START s
      then (case page_map (KERNEL_GET_REAL stack_btmp) virt_stack_ptr (PAGE_WRITE OR PAGE_PRESENT) s of (err, s1) \<Rightarrow>
              if err \<noteq> 0 then Some (Inl ''Stack setup failled'', s1)
              else stack_loop stack_bottom (stack_btmp - 4096) (virt_stack_ptr - 4096) s1)
      else Some (Inr virt_stack_ptr, s))"

definition stack_setup :: "u32 \<Rightarrow> u32 \<Rightarrow> 'a vm_st_scheme \<Rightarrow> ((string + unit) \<times> 'a vm_st_scheme) option" where
  "stack_setup stack_top stack_bottom s = do {
     (r, s1) \<leftarrow> stack_loop stack_bottom stack_top (STACK_END s - 4096) s;
     (case r of
        Inl msg \<Rightarrow> Some (Inl msg, s1)
      | Inr virt_stack_ptr \<Rightarrow>
          (case page_map_at virt_stack_ptr (PAGE_WRITE OR PAGE_PRESENT)
                  (unat (signed_drop_bit 12 (virt_stack_ptr - STACK_START s1))) s1 of (err, s2) \<Rightarrow>
             if err \<noteq> 0 then Some (Inl ''impossible to map'', s2) else Some (Inr (), s2))) }"

subsection \<open>The memory steps of \<^verbatim>\<open>kmain\<close>\<close>

definition kmain_memory ::
  "(u32 \<Rightarrow> u32) \<Rightarrow> u32 \<Rightarrow> u32 \<Rightarrow> u32 \<Rightarrow> u32 \<Rightarrow> 'a heap_st_scheme \<Rightarrow> (string + 'a heap_st_scheme) option" where
  "kmain_memory rd stack_top stack_bottom magic addr s = do {
     r \<leftarrow> memory_init rd (KERNEL_GET_REAL (kernel_start (lay s))) (KERNEL_GET_REAL (kernel_end (lay s))) magic addr s;
     (case r of
        Inl msg \<Rightarrow> Some (Inl msg)
      | Inr s1 \<Rightarrow> do {
          (r2, s2) \<leftarrow> stack_setup stack_top stack_bottom (page_setup s1);
          Some (case r2 of Inl msg \<Rightarrow> Inl msg | Inr _ \<Rightarrow> Inr (heap_setup s2)) }) }"

subsection \<open>The table of the kernel\<close>

lemma page_aligned: "i < 1024 \<Longrightarrow> push_bit 12 (i :: u32) AND PAGE_FLAG = 0"
  by (simp add: aligned_iff unat_push_bit_page word_less_nat_alt)

lemma page_entry_set_range_ok:
  assumes "unat to \<le> 1024" "flag AND PAGE_ADDR = 0"
  shows "page_entry_set_range i to flag tab =
    (0, \<lambda>k. if unat i \<le> k \<and> k < unat to then push_bit 12 (of_nat k) OR flag else tab k)"
  using assms
proof (induction i to flag tab rule: page_entry_set_range.induct)
  case (1 i to flag tab)
  show ?case
  proof (cases "i < to")
    case True
    have i: "unat i < unat to" "unat (i + 1) = unat i + 1" using True unat_Suc_less [OF True] by (simp_all add: word_less_nat_alt)
    have i2: "i < 1024" using i(1) "1.prems"(1) by (simp add: word_less_nat_alt)
    have e: "page_entry_set i (push_bit 12 i) flag tab = (0, tab(unat i := push_bit 12 i OR flag))"
      using "1.prems"(2) i2 page_aligned [OF i2] by (simp add: page_entry_set_def not_le [symmetric])
    have "page_entry_set_range (i + 1) to flag (tab(unat i := push_bit 12 i OR flag)) =
      (0, \<lambda>k. if unat (i + 1) \<le> k \<and> k < unat to then push_bit 12 (of_nat k) OR flag
          else (tab(unat i := push_bit 12 i OR flag)) k)"
      by (rule "1.IH" [OF True e [symmetric]]) (use "1.prems" in simp_all)
    then show ?thesis
      using True e i by (subst page_entry_set_range.simps) (auto simp: fun_eq_iff)
  next
    case False
    then show ?thesis by (subst page_entry_set_range.simps) (auto simp: word_less_nat_alt fun_eq_iff)
  qed
qed

text \<open>An entry that maps the page of its own number, as all entries of the kernel's table do.\<close>

definition ident :: "table \<Rightarrow> nat \<Rightarrow> bool" where
  "ident tab k \<longleftrightarrow> bit (tab k) 0 \<and> PAGE_GET_ADDR (tab k) = push_bit 12 (of_nat k)"

lemma unat_TABLE_ENTRY: "unat (TABLE_ENTRY p) = unat p div 4096 mod 1024"
proof -
  have "TABLE_ENTRY p = take_bit 10 (drop_bit 12 p)"
  proof (rule bit_word_eqI)
    fix n assume "n < LENGTH(32)"
    have m: "(0x003FF000 :: u32) = push_bit 12 (mask 10)" by (simp add: mask_eq_exp_minus_1)
    show "bit (TABLE_ENTRY p) n = bit (take_bit 10 (drop_bit 12 p)) n"
      unfolding TABLE_ENTRY_def m by (auto simp: bit_simps simp del: push_bit_mask_eq dest: bit_imp_le_length)
  qed
  then show ?thesis by (simp add: take_bit_eq_mod unat_mod unat_drop_bit)
qed

lemma ident_set_range:
  assumes "flag AND PAGE_ADDR = 0" "bit flag 0"
  shows "ident tab k \<Longrightarrow> ident (set_range_frame from to flag tab) k"
    "unat from div 4096 mod 1024 \<le> k \<Longrightarrow> k < unat to div 4096 mod 1024 \<Longrightarrow> ident (set_range_frame from to flag tab) k"
proof -
  have "unat (TABLE_ENTRY to) \<le> 1024" by (simp add: unat_TABLE_ENTRY less_imp_le)
  note r = page_entry_set_range_ok [OF this assms(1), of "TABLE_ENTRY from" tab]
  have k: "k < 1024 \<Longrightarrow> PAGE_GET_ADDR (push_bit 12 (of_nat k) OR flag) = push_bit 12 (of_nat k) \<and> bit (push_bit 12 (of_nat k) OR flag) 0"
    using page_aligned [of "of_nat k"] assms by (simp add: word_less_nat_alt unat_of_nat_32)
  show "ident tab k \<Longrightarrow> ident (set_range_frame from to flag tab) k"
    using k by (auto simp: ident_def set_range_frame_def r unat_TABLE_ENTRY)
  show "unat from div 4096 mod 1024 \<le> k \<Longrightarrow> k < unat to div 4096 mod 1024 \<Longrightarrow> ident (set_range_frame from to flag tab) k"
    using k by (simp add: ident_def set_range_frame_def r unat_TABLE_ENTRY)
qed

text \<open>The places of the linker that the boot needs, as \<^verbatim>\<open>linker.ld\<close> gives them: the image starts above
  \<^verbatim>\<open>_kernel_pos\<close> (not on a page boundary: the boot code comes before it without padding), ends below the last page of
  its 4 MB, and holds the kernel's page table, on a page boundary, and the window.\<close>

definition boot_layout :: "layout \<Rightarrow> bool" where
  "boot_layout L \<longleftrightarrow> KERNEL_POS \<le> kernel_start L \<and>
     kernel_start L \<le> kernel_page L \<and> kernel_page L < kernel_end L \<and> kernel_page L AND PAGE_FLAG = 0 \<and>
     kernel_start L \<le> page_swap L \<and> page_swap L < kernel_end L \<and> kernel_end L \<le> 0xC03FF000"

text \<open>Every page of the image but the window itself translates to the page that it was loaded to.\<close>

definition kernel_mapped :: "'a vm_st_scheme \<Rightarrow> bool" where
  "kernel_mapped s \<longleftrightarrow>
     (\<forall>v. v AND PAGE_FLAG = 0 \<and> kernel_start (lay s) \<le> v \<and> v < kernel_end (lay s) \<and> \<not> is_window s v
        \<longrightarrow> translate s v = Some (KERNEL_GET_REAL v))"

lemma unat_KERNEL_GET_REAL: "KERNEL_POS \<le> v \<Longrightarrow> unat (KERNEL_GET_REAL v) = unat v - 0xC0000000"
  by (simp add: KERNEL_GET_REAL_def KERNEL_POS_def unat_sub)

lemma kernel_address:
  assumes "KERNEL_POS \<le> v" "v < 0xC03FF000"
  shows "unat (KERNEL_GET_REAL v) = unat v - 0xC0000000" "unat (KERNEL_GET_REAL v) < 0x3FF000"
    "dir_index v = 768" "unat (table_index v) = unat (KERNEL_GET_REAL v) div 4096"
    "unat (KERNEL_GET_REAL v) mod 4096 = unat v mod 4096"
proof -
  have b: "0xC0000000 \<le> unat v" "unat v < 0xC03FF000"
    using assms by (simp_all add: KERNEL_POS_def word_le_nat_alt word_less_nat_alt)
  show r: "unat (KERNEL_GET_REAL v) = unat v - 0xC0000000" by (rule unat_KERNEL_GET_REAL [OF assms(1)])
  show "unat (KERNEL_GET_REAL v) < 0x3FF000" using r b by simp
  show "dir_index v = 768" using b by (simp add: dir_index_def unat_drop_bit)
  obtain x where "unat v = 0xC0000000 + x" using b(1) by (metis le_Suc_ex)
  with b(2) have x: "unat v = 786432 * 4096 + x" "x < 4194304" by simp_all
  then have "unat v div 4096 mod 1024 = (768 * 1024 + x div 4096) mod 1024" by (simp only: div_mult_self3) simp
  also have "\<dots> = x div 4096" using x(2) by (simp only: mod_mult_self3) (simp add: less_mult_imp_div_less)
  finally show "unat (table_index v) = unat (KERNEL_GET_REAL v) div 4096" unfolding unat_table_index r using x(1) by simp
  have "unat v mod 4096 = x mod 4096" unfolding x(1) by (simp only: mod_mult_self3)
  then show "unat (KERNEL_GET_REAL v) mod 4096 = unat v mod 4096" unfolding r using x(1) by simp
qed

lemma kernel_page_number:
  assumes L: "boot_layout L" and v: "kernel_start L \<le> v" "v < kernel_end L"
  shows "KERNEL_POS \<le> v" "v < 0xC03FF000"
    "unat (KERNEL_GET_REAL (kernel_start L)) div 4096 \<le> unat (KERNEL_GET_REAL v) div 4096"
    "unat (KERNEL_GET_REAL v) div 4096 < unat (PAGE_ALIGN (KERNEL_GET_REAL (kernel_end L))) div 4096"
    "unat (PAGE_ALIGN (KERNEL_GET_REAL (kernel_end L))) div 4096 < 1024"
proof -
  have vb: "KERNEL_POS \<le> v" "v < 0xC03FF000" "KERNEL_POS \<le> kernel_start L" "KERNEL_POS \<le> kernel_end L"
    using L v unfolding boot_layout_def by (meson order.trans less_le_trans less_imp_le)+
  show "KERNEL_POS \<le> v" "v < 0xC03FF000" by (rule vb)+
  note a = kernel_address [OF vb(1,2)]
  have e: "unat (KERNEL_GET_REAL (kernel_end L)) = unat (kernel_end L) - 0xC0000000"
      "unat (kernel_end L) \<le> 0xC03FF000" "unat v < unat (kernel_end L)" "unat (kernel_start L) \<le> unat v"
    using unat_KERNEL_GET_REAL [OF vb(4)] L v by (simp_all add: boot_layout_def word_le_nat_alt word_less_nat_alt)
  then have "unat (KERNEL_GET_REAL (kernel_end L)) < 2147483648" by simp
  note al = unat_PAGE_ALIGN [OF this]
  let ?e = "unat (PAGE_ALIGN (KERNEL_GET_REAL (kernel_end L)))"
  have "unat (KERNEL_GET_REAL v) < ?e" "?e < 4194304" "?e mod 4096 = 0"
    using al e a(1) vb(1) by (simp_all add: KERNEL_POS_def word_le_nat_alt)
  then show "unat (KERNEL_GET_REAL v) div 4096 < ?e div 4096" "?e div 4096 < 1024"
    by (metis div_mult_mod_eq add.right_neutral less_mult_imp_div_less, simp add: less_mult_imp_div_less)
  have "unat (KERNEL_GET_REAL (kernel_start L)) \<le> unat (KERNEL_GET_REAL v)"
    using unat_KERNEL_GET_REAL [OF vb(3)] a(1) e(4) by simp
  then show "unat (KERNEL_GET_REAL (kernel_start L)) div 4096 \<le> unat (KERNEL_GET_REAL v) div 4096" by (rule div_le_mono)
qed

lemma kernel_ident:
  assumes L: "boot_layout (lay s)" and v: "kernel_start (lay s) \<le> v" "v < kernel_end (lay s)"
  shows "ident (pmem (page_setup_kernel_section s) (kernel_page_frame s)) (unat (table_index v))"
proof -
  let ?k = "unat (table_index v)"
  note n = kernel_page_number [OF L v]
  note k = kernel_address(4) [OF n(1,2)]
  have hi: "?k < unat (PAGE_ALIGN (KERNEL_GET_REAL (kernel_end (lay s)))) div 4096 mod 1024"
    using n(4,5) k by simp
  have lo: "unat (KERNEL_GET_REAL (kernel_start (lay s))) div 4096 mod 1024 \<le> ?k"
    unfolding k using n(3) by (rule order.trans [OF mod_less_eq_dividend])
  have f: "PAGE_PRESENT AND PAGE_ADDR = 0" "bit PAGE_PRESENT 0" "bit (PAGE_WRITE OR PAGE_PRESENT) 0"
    by (simp_all add: PAGE_PRESENT_def PAGE_ADDR_def PAGE_FLAG_def bit_simps)
  show ?thesis unfolding page_setup_kernel_section_def Let_def
    by (simp add: ident_set_range f) (intro ident_set_range f rw_flags_ok hi lo)
qed

subsection \<open>The invariants after \<^verbatim>\<open>page_setup\<close>\<close>

text \<open>What the assembly code of the boot leaves in the directory: only the slots 0 and 768 are in use.\<close>

definition boot_directory :: "'a vm_st_scheme \<Rightarrow> bool" where
  "boot_directory s \<longleftrightarrow> (\<forall>d < 1024. d \<noteq> 0 \<and> d \<noteq> 768 \<longrightarrow> page_directory s d = 0)"

lemma page_setup_kernel_section_simps [simp]:
  "lay (page_setup_kernel_section s) = lay s"
  "page_directory (page_setup_kernel_section s) = page_directory s"
  "heap_st.heap (page_setup_kernel_section t) = heap_st.heap t"
  by (simp_all add: page_setup_kernel_section_def Let_def)

lemma page_bit_clear_bit_at: "page_bit (clear_bit_at a k bm) p \<Longrightarrow> page_bit bm p"
  by (auto simp: clear_bit_at_def page_bit_def bit_simps split: if_splits)

lemma free_pages_kernel_section: "free_pages (page_setup_kernel_section s) \<subseteq> free_pages s"
  by (auto simp: page_setup_kernel_section_def Let_def free_pages_def dest!: page_bit_clear_bit_at)

lemma boot_frame:
  assumes "boot_layout (lay s)"
  shows "kernel_page_frame s AND PAGE_FLAG = 0" "window_index (page_swap (lay s)) < 1024"
    "KERNEL_POS \<le> kernel_page (lay s)" "kernel_page (lay s) < 0xC03FF000"
proof -
  have k: "KERNEL_POS \<le> kernel_page (lay s)" "kernel_page (lay s) < 0xC03FF000"
    "KERNEL_POS \<le> page_swap (lay s)" "page_swap (lay s) < 0xC03FF000"
    using assms unfolding boot_layout_def by (meson order.trans less_le_trans less_imp_le)+
  show "KERNEL_POS \<le> kernel_page (lay s)" "kernel_page (lay s) < 0xC03FF000" by (rule k)+
  have "unat (kernel_page (lay s)) mod 4096 = 0" using assms by (simp add: boot_layout_def aligned_iff)
  then have "unat (kernel_page_frame s) mod 4096 = 0" unfolding kernel_address(5) [OF k(1,2)] .
  then show "kernel_page_frame s AND PAGE_FLAG = 0" by (simp add: aligned_iff)
  have "unat (KERNEL_GET_REAL (page_swap (lay s))) div 4096 < 1024"
    using kernel_address(2) [OF k(3,4)] by (simp add: less_mult_imp_div_less)
  then show "window_index (page_swap (lay s)) < 1024" by (simp add: window_index_def word_less_nat_alt unat_drop_bit)
qed

lemma page_setup_directory:
  assumes "boot_layout (lay s)"
  shows "page_directory (page_setup s) = (page_directory s)(0 := 0, 768 := kernel_page_frame s OR PAGE_PRESENT)"
    "lay (page_setup s) = lay s" "free_pages (page_setup s) \<subseteq> free_pages s"
    "pmem (page_setup s) (kernel_page_frame s) = pmem (page_setup_kernel_section s) (kernel_page_frame s)"
  using boot_frame(1) [OF assms] free_pages_kernel_section
  by (auto simp: page_setup_def Let_def heap_setup_def page_entry_remove_def page_entry_set_def PAGE_NOTHING_def
      PAGE_PRESENT_def PAGE_ADDR_def PAGE_FLAG_def free_pages_def page_setup_kernel_section_def)

lemma page_setup_frames:
  assumes "boot_layout (lay s)" "boot_directory s" "d < 1024"
  shows "table_frame (page_setup s) d = (if d = 768 then Some (kernel_page_frame s) else None)"
proof -
  have "PAGE_PRESENT AND PAGE_ADDR = 0" "bit PAGE_PRESENT 0" "\<not> bit PAGE_PRESENT 7"
    by (simp_all add: PAGE_PRESENT_def PAGE_ADDR_def PAGE_FLAG_def bit_simps)
  then show ?thesis
    using assms(2,3) boot_frame(1) [OF assms(1)]
    by (auto simp: table_frame_def page_setup_directory [OF assms(1)] boot_directory_def)
qed

lemma page_setup_establishes:
  assumes L: "boot_layout (lay s)" and D: "boot_directory s" and k: "page_of_addr (kernel_page_frame s) \<notin> free_pages s"
  shows "vm_wf (page_setup s)" "kernel_mapped (page_setup s)"
proof -
  note fr = page_setup_frames [OF L D] and dir = page_setup_directory [OF L]
  show "vm_wf (page_setup s)"
    by (rule vm_wfI) (use fr dir boot_frame(2) [OF L] k in \<open>auto split: if_splits\<close>)
  show "kernel_mapped (page_setup s)"
    unfolding kernel_mapped_def dir(2)
  proof (intro allI impI)
    fix v assume v: "v AND PAGE_FLAG = 0 \<and> kernel_start (lay s) \<le> v \<and> v < kernel_end (lay s) \<and> \<not> is_window (page_setup s) v"
    then have vb: "KERNEL_POS \<le> v" "v < 0xC03FF000"
      using L unfolding boot_layout_def by (meson order.trans less_le_trans)+
    note a = kernel_address [OF vb]
    have "ident (pmem (page_setup s) (kernel_page_frame s)) (unat (table_index v))"
      using kernel_ident [OF L, of v] v dir(4) by simp
    moreover have "push_bit 12 (of_nat (unat (table_index v))) = KERNEL_GET_REAL v"
    proof -
      have "unat v mod 4096 = 0" using v by (simp add: aligned_iff)
      then have "unat (KERNEL_GET_REAL v) div 4096 * 4096 = unat (KERNEL_GET_REAL v)"
        using a(5) by (metis add.right_neutral div_mult_mod_eq)
      then show ?thesis
        unfolding a(4) using unat_page_addr [OF page_number_less [of "KERNEL_GET_REAL v"]] by (simp add: word_unat_eq_iff)
    qed
    ultimately show "translate (page_setup s) v = Some (KERNEL_GET_REAL v)"
      by (simp add: translate_def pte_def a(3) fr ident_def)
  qed
qed

subsection \<open>Mapping keeps what the boot established\<close>

definition booted :: "nat set \<Rightarrow> 'a vm_st_scheme \<Rightarrow> bool" where
  "booted F s \<longleftrightarrow> vm_wf s \<and> kernel_mapped s \<and> boot_layout (lay s) \<and> free_pages s \<subseteq> F"

lemma kernel_mapped_cong:
  assumes "lay s' = lay s" "\<And>w. w AND PAGE_FLAG = 0 \<Longrightarrow> dir_index w = 768 \<Longrightarrow> \<not> is_window s w \<Longrightarrow> translate s' w = translate s w"
    "boot_layout (lay s)" "kernel_mapped s"
  shows "kernel_mapped s'"
  unfolding kernel_mapped_def assms(1)
proof (intro allI impI)
  fix v assume v: "v AND PAGE_FLAG = 0 \<and> kernel_start (lay s) \<le> v \<and> v < kernel_end (lay s) \<and> \<not> is_window s' v"
  then have vb: "KERNEL_POS \<le> v" "v < 0xC03FF000"
    using assms(3) unfolding boot_layout_def by (meson order.trans less_le_trans)+
  have w: "\<not> is_window s v" using v assms(1) by (simp add: is_window_def)
  then have "translate s' v = translate s v" using assms(2) v kernel_address(3) [OF vb] by blast
  then show "translate s' v = Some (KERNEL_GET_REAL v)" using assms(4) v w by (simp add: kernel_mapped_def)
qed

lemma page_map_booted:
  assumes "page_map p v flag s = (0, s')" "booted F s" "user_page v" "bit flag 0"
  shows "booted F s'" "lay s' = lay s" "vm_frame s s'"
proof -
  have d: "dir_index v \<noteq> 768" using assms(3) by (simp add: user_page_def)
  have wf: "vm_wf s" "boot_layout (lay s)" "kernel_mapped s" "free_pages s \<subseteq> F" using assms(2) by (simp_all add: booted_def)
  show fr: "vm_frame s s'" by (rule vm_frame_page_map [OF assms(1)])
  then show l: "lay s' = lay s" by (rule vm_frame_lay)
  note e = page_map_effect [OF assms(1) wf(1) d assms(4)]
  have "kernel_mapped s'"
    by (rule kernel_mapped_cong [OF l _ wf(2,3)]) (use e d in \<open>metis\<close>)
  then show "booted F s'" using e wf l by (auto simp: booted_def)
qed

lemma until_error_keeps:
  assumes "until_error f i n s = (0, j, s')" "P s" "\<And>k t t'. i \<le> k \<Longrightarrow> k < n \<Longrightarrow> f k t = (0, t') \<Longrightarrow> P t \<Longrightarrow> P t'"
  shows "P s'"
  using assms
proof (induction "n - i" arbitrary: i s)
  case 0
  then show ?case by (subst (asm) until_error.simps) (auto split: if_splits)
next
  case (Suc m)
  have i: "i < n" using Suc.hyps(2) by simp
  obtain e t where f: "f i s = (e, t)" by fastforce
  have e: "e = 0" and r: "until_error f (i + 1) n t = (0, j, s')"
    using Suc.prems(1) i f by (subst (asm) until_error.simps, simp split: if_splits)+
  have "P t" using Suc.prems(3) [of i s t] Suc.prems(2) i f e by simp
  show ?case
    by (rule Suc.hyps(1) [OF _ r \<open>P t\<close>]) (use Suc.hyps(2) Suc.prems(3) in \<open>simp, metis Suc_leD Suc_eq_plus1\<close>)
qed

lemma nth_page_number:
  assumes "page_of_addr a + n < 1048576" "k < n"
  shows "page_of_addr (nth_page a k) = page_of_addr a + k"
proof -
  have j: "unat (push_bit 12 (of_nat k) :: u32) = k * 4096" using assms by (intro unat_page_addr) simp
  have "unat a < (page_of_addr a + 1) * 4096" using div_mod_decomp [of "unat a" 4096] by simp
  then have "unat a + k * 4096 < 4294967296" using assms by simp
  then show ?thesis by (simp add: unat_word_ariths j)
qed

lemma page_map_at_booted:
  assumes "page_map_at v flag n s = (0, s')" "booted F s" "n \<le> 1048576" "\<forall>k < n. user_page (nth_page v k)"
  shows "booted F s'" "vm_frame s s'"
    "\<exists>a. (\<forall>k < n. page_of_addr (nth_page a k) \<in> F) \<and> (\<forall>k < n. translate s' (nth_page v k) = Some (nth_page a k))"
proof -
  from assms(1) obtain a t where g: "get_phys_block n s = (a, t)" "a \<noteq> 0"
    and r: "page_map_range a v flag n t = (0, s')" and pr: "bit flag 0"
    by (auto simp: page_map_at_def errno_defs split: if_splits prod.splits)
  note gs = get_phys_block_Some [OF g]
  have t: "table_frame t = table_frame s" "lay t = lay s" "free_pages t \<subseteq> free_pages s" "pmem t = pmem s"
    using free_pages_alloc [of a n s] gs(2,5) by (auto simp: table_frame_def fun_eq_iff)
  have b: "vm_wf s" "kernel_mapped s" "boot_layout (lay s)" "free_pages s \<subseteq> F" using assms(2) by (simp_all add: booted_def)
  have wft: "vm_wf t" using b(1) t by (auto simp: vm_wf_def)
  have "kernel_mapped t" by (rule kernel_mapped_cong [OF t(2) _ b(3,2)]) (simp add: translate_def pte_def t)
  then have bt: "booted F t" using wft b t by (auto simp: booted_def)
  obtain j where u: "until_error (\<lambda>i. page_map (nth_page a i) (nth_page v i) flag) 0 n t = (0, j, s')"
    using r by (auto simp: page_map_range_def split: prod.splits if_splits)
  show "booted F s'"
    by (rule until_error_keeps [where P = "booted F", OF u bt]) (use page_map_booted(1) pr assms(4) in blast)
  show "vm_frame s s'" using vm_frame_get_phys_block [OF g(1)] vm_frame_page_map_range [OF r] vm_frame_trans by blast
  show "\<exists>a. (\<forall>k < n. page_of_addr (nth_page a k) \<in> F) \<and> (\<forall>k < n. translate s' (nth_page v k) = Some (nth_page a k))"
    using page_map_range_effect [OF r wft pr assms(3,4)] phys.alloc_takes [OF TrueI g] b(4) nth_page_number [OF gs(2)]
    by (intro exI [of _ a]) (auto simp: subset_iff)
qed

subsection \<open>Where the stack is\<close>

lemma stack_place:
  assumes "boot_layout (lay s)"
  shows "0xC1800000 \<le> unat (STACK_START s)" "unat (STACK_START s) \<le> 0xC1C00000" "unat (STACK_START s) mod 4096 = 0"
proof -
  let ?E = "unat (PAGE_ALIGN (kernel_end (lay s)))"
  have e: "0xC0000000 \<le> unat (kernel_end (lay s))" "unat (kernel_end (lay s)) \<le> 0xC03FF000"
    using assms by (auto simp: boot_layout_def KERNEL_POS_def word_le_nat_alt word_less_nat_alt)
  then have E: "0xC0000000 \<le> ?E" "?E < 0xC0400000" "?E mod 4096 = 0"
    using unat_PAGE_ALIGN_below [of "kernel_end (lay s)"] by simp_all
  have h: "HEAP_START s = ?E + 0x400000" using E by (simp add: HEAP_START_def unat_word_ariths)
  have he: "HEAP_END s = ?E + 0x1400000" by (simp add: HEAP_END_def HEAP_SIZE_def h)
  then have "HEAP_END s < 4294967296" using E(2) by simp
  from unat_of_nat_32 [OF this] have u: "unat (of_nat (HEAP_END s) :: u32) = ?E + 0x1400000" unfolding he .
  have m: "(?E + 0x1400000) mod 4096 = 0" using E(3) by (intro dvd_imp_mod_0 dvd_add) (auto simp: mod_0_imp_dvd)
  have "of_nat (HEAP_END s) mod (4096 :: u32) = 0" using m u by (simp add: word_unat_eq_iff unat_mod)
  then have "unat (STACK_START s) = ?E + 0x1800000"
    using u E by (simp add: STACK_START_def PAGE_ALIGN_def unat_word_ariths)
  moreover have "(?E + 0x1800000) mod 4096 = 0" using E(3) by (intro dvd_imp_mod_0 dvd_add) (auto simp: mod_0_imp_dvd)
  ultimately show "0xC1800000 \<le> unat (STACK_START s)" "unat (STACK_START s) \<le> 0xC1C00000" "unat (STACK_START s) mod 4096 = 0"
    using E by simp_all
qed

lemma stack_page:
  assumes "boot_layout (lay s)" "j < 64"
  shows "unat (nth_page (STACK_START s) j) = unat (STACK_START s) + j * 4096" "user_page (nth_page (STACK_START s) j)"
    "STACK_START s \<le> nth_page (STACK_START s) j"
proof -
  note p = stack_place [OF assms(1)]
  have j: "unat (push_bit 12 (of_nat j) :: u32) = j * 4096" using assms(2) by (intro unat_page_addr) simp
  show u: "unat (nth_page (STACK_START s) j) = unat (STACK_START s) + j * 4096"
    using p(2) assms(2) j by (simp add: unat_word_ariths)
  show "STACK_START s \<le> nth_page (STACK_START s) j" unfolding word_le_nat_alt u by simp
  have "4194304 * 774 \<le> unat (STACK_START s) + j * 4096" using p(1) by simp
  then have "774 \<le> dir_index (nth_page (STACK_START s) j)"
    unfolding dir_index_def unat_drop_bit u by (simp add: less_eq_div_iff_mult_less_eq)
  moreover have "unat (nth_page (STACK_START s) j) mod 4096 = 0" unfolding u using p(3) by simp
  ultimately show "user_page (nth_page (STACK_START s) j)" by (auto simp: user_page_def aligned_iff)
qed

subsection \<open>Setting the stack up\<close>

lemma vm_frame_STACK_START: "vm_frame s s' \<Longrightarrow> STACK_START s' = STACK_START s"
  by (simp add: STACK_START_def HEAP_END_def HEAP_START_def vm_frame_lay)

lemma stack_flags [simp]: "bit (PAGE_WRITE OR PAGE_PRESENT) 0"
  by (simp add: PAGE_WRITE_def PAGE_PRESENT_def bit_simps)

lemma stack_loop_result:
  assumes "booted F s" "n \<le> j" "j < 64"
  shows "\<exists>r s'. stack_loop bottom (nth_page bottom n) (nth_page (STACK_START s) j) s = Some (r, s') \<and>
    (\<forall>v. r = Inr v \<longrightarrow> v = nth_page (STACK_START s) (j - n) \<and> booted F s' \<and> vm_frame s s')"
  using assms
proof (induction n arbitrary: j s)
  case 0
  then show ?case by (subst stack_loop.simps) simp
next
  case (Suc n)
  let ?v = "nth_page (STACK_START s) j" and ?b = "nth_page bottom (Suc n)"
  have L: "boot_layout (lay s)" using Suc.prems(1) by (simp add: booted_def)
  note v = stack_page [OF L Suc.prems(3)]
  have b: "?b \<noteq> bottom" using nth_page_inj [of bottom "Suc n" 0] Suc.prems(2,3) by auto
  have minus: "nth_page a (Suc k) - 4096 = nth_page a k" for a k
    by (simp add: push_bit_eq_mult algebra_simps)
  obtain err s1 where m: "page_map (KERNEL_GET_REAL ?b) ?v (PAGE_WRITE OR PAGE_PRESENT) s = (err, s1)" by fastforce
  show ?case
  proof (cases "err = 0")
    case False
    then show ?thesis using b v(3) m by (subst stack_loop.simps) simp
  next
    case True
    note s1 = page_map_booted [OF m [unfolded True] Suc.prems(1) v(2) stack_flags]
    obtain i where i: "j = Suc i" "n \<le> i" using Suc.prems(2) by (cases j) auto
    have "\<exists>r s'. stack_loop bottom (nth_page bottom n) (nth_page (STACK_START s1) i) s1 = Some (r, s') \<and>
      (\<forall>v. r = Inr v \<longrightarrow> v = nth_page (STACK_START s1) (i - n) \<and> booted F s' \<and> vm_frame s1 s')"
      by (rule Suc.IH [OF s1(1) i(2)]) (use Suc.prems(3) i(1) in simp)
    moreover have "stack_loop bottom ?b ?v s = stack_loop bottom (nth_page bottom n) (nth_page (STACK_START s1) i) s1"
      using b v(3) unfolding vm_frame_STACK_START [OF s1(3)] i(1)
      by (subst stack_loop.simps) (simp only: minus m [unfolded i(1)] True simp_thms if_True if_False prod.case)
    ultimately show ?thesis
      using i(1) vm_frame_trans [OF s1(3)] vm_frame_STACK_START [OF s1(3)] by auto
  qed
qed

text \<open>
  With the four pages that the boot code reserves, the loop stops five pages below the end, and the pages that
  are then mapped start there and go up: they replace the four.
\<close>

lemma stack_setup_result:
  assumes "booted F s"
  shows "\<exists>r s'. stack_setup (nth_page bottom 4) bottom s = Some (r, s') \<and>
    (r = Inr () \<longrightarrow> booted F s' \<and> vm_frame s s' \<and>
      (\<exists>a. (\<forall>k < 11. page_of_addr (nth_page a k) \<in> F) \<and>
        (\<forall>k < 11. translate s' (nth_page (STACK_START s) (11 + k)) = Some (nth_page a k))))"
proof -
  have L: "boot_layout (lay s)" using assms by (simp add: booted_def)
  have top: "STACK_END s - 4096 = nth_page (STACK_START s) 15"
    by (simp add: STACK_END_def STACK_SIZE_def push_bit_eq_mult)
  obtain r s1 where l: "stack_loop bottom (nth_page bottom 4) (nth_page (STACK_START s) 15) s = Some (r, s1)"
    "\<And>v. r = Inr v \<Longrightarrow> v = nth_page (STACK_START s) 11 \<and> booted F s1 \<and> vm_frame s s1"
    using stack_loop_result [OF assms, of 4 15 bottom] by auto
  show ?thesis
  proof (cases r)
    case (Inl msg)
    then show ?thesis unfolding stack_setup_def top l(1) by simp
  next
    case (Inr v)
    note v = l(2) [OF Inr]
    have n: "unat (signed_drop_bit 12 (v - STACK_START s1)) = 11"
      using v vm_frame_STACK_START [of s s1] by (simp add: push_bit_eq_mult)
    obtain err s2 where m: "page_map_at v (PAGE_WRITE OR PAGE_PRESENT) 11 s1 = (err, s2)" by fastforce
    show ?thesis
    proof (cases "err = 0")
      case False
      then show ?thesis unfolding stack_setup_def top l(1) using Inr n m by simp
    next
      case True
      have p: "nth_page v k = nth_page (STACK_START s) (11 + k)" for k
        using v by (simp add: push_bit_eq_mult algebra_simps)
      have u: "\<forall>k < 11. user_page (nth_page v k)" unfolding p by (auto intro!: stack_page(2) [OF L] simp del: of_nat_add)
      have b: "booted F s1" "(11 :: nat) \<le> 1048576" using v by simp_all
      note at = page_map_at_booted [OF m [unfolded True] b u, unfolded p]
      have "stack_setup (nth_page bottom 4) bottom s = Some (Inr (), s2)"
        unfolding stack_setup_def top l(1) using Inr n m True by simp
      then show ?thesis using at v vm_frame_trans by blast
    qed
  qed
qed

text \<open>
  C40. Setting the stack up always ends, and when it does not panic the eleven pages from the fifth one below the
  end of the stack are backed by consecutive pages that were free: none of the pages of the boot stack, which the
  loop has just mapped there, is still part of it, and what was on the stack is lost.
\<close>

theorem stack_setup_drops_boot_stack:
  assumes "booted F s" "\<forall>i < 5. page_of_addr (KERNEL_GET_REAL (nth_page bottom i)) \<notin> F"
  shows "\<exists>r s'. stack_setup (nth_page bottom 4) bottom s = Some (r, s') \<and>
    (r = Inr () \<longrightarrow> vm_wf s' \<and> kernel_mapped s' \<and>
      (\<forall>k < 5. \<exists>q. translate s' (STACK_END s - push_bit 12 (of_nat (k + 1))) = Some q \<and>
         (\<forall>i < 5. q \<noteq> KERNEL_GET_REAL (nth_page bottom i))))"
proof -
  obtain r s' where r: "stack_setup (nth_page bottom 4) bottom s = Some (r, s')"
    and ok: "r = Inr () \<Longrightarrow> booted F s' \<and> vm_frame s s' \<and>
      (\<exists>a. (\<forall>k < 11. page_of_addr (nth_page a k) \<in> F) \<and>
        (\<forall>k < 11. translate s' (nth_page (STACK_START s) (11 + k)) = Some (nth_page a k)))"
    using stack_setup_result [OF assms(1), of bottom] by blast
  have "\<exists>q. translate s' (STACK_END s - push_bit 12 (of_nat (k + 1))) = Some q \<and>
      (\<forall>i < 5. q \<noteq> KERNEL_GET_REAL (nth_page bottom i))" if "r = Inr ()" "k < 5" for k
  proof -
    from ok [OF that(1)] obtain a where a: "\<forall>k < 11. page_of_addr (nth_page a k) \<in> F"
      "\<forall>k < 11. translate s' (nth_page (STACK_START s) (11 + k)) = Some (nth_page a k)" by blast
    have e: "STACK_END s - push_bit 12 (of_nat (k + 1)) = nth_page (STACK_START s) (11 + (4 - k))"
      using that(2) by (simp add: STACK_END_def STACK_SIZE_def push_bit_eq_mult of_nat_diff algebra_simps)
    have "page_of_addr (nth_page a (4 - k)) \<in> F" "translate s' (nth_page (STACK_START s) (11 + (4 - k))) = Some (nth_page a (4 - k))"
      using a(1) [rule_format, of "4 - k"] a(2) [rule_format, of "4 - k"] by auto
    then show ?thesis unfolding e using assms(2) by (intro exI [of _ "nth_page a (4 - k)"]) fastforce
  qed
  then show ?thesis using r ok by (auto simp: booted_def)
qed

subsection \<open>The memory steps together\<close>

text \<open>Reading the memory map changes the bitmap of the physical pages and nothing else.\<close>

lemma same_bitmap: "\<exists>b. s = s\<lparr>mm_bitmap := b\<rparr>"
  by (rule exI [of _ "mm_bitmap s"]) simp

lemma mmap_entries_frame:
  assumes "mmap_entries rd tag mmap s = Some s'"
  shows "\<exists>b. s' = s\<lparr>mm_bitmap := b\<rparr>"
proof (rule mmap_entries.raw_induct [OF _ assms, where P = "\<lambda>rd tag mmap s s'. \<exists>b. s' = s\<lparr>mm_bitmap := b\<rparr>"])
  fix f rd tag mmap and s s' :: "'a phys_st_scheme"
  assume ih: "\<And>rd tag mmap s y. f rd tag mmap s = Some y \<Longrightarrow> \<exists>b. y = s\<lparr>mm_bitmap := b\<rparr>"
    and st: "(if mmap < tag + rd (tag + 4)
      then let current_addr = rd mmap + rd (mmap + 4);
               current_len = rd (mmap + 8) + rd (mmap + 12);
               s' = (if rd (mmap + 16) = MULTIBOOT_MEMORY_AVAILABLE
                     then init_mm_bitmap current_addr current_len s else s)
           in f rd tag (mmap + rd (tag + 8)) s'
      else Some s) = Some s'"
  have i: "\<exists>b. init_mm_bitmap x y s = s\<lparr>mm_bitmap := b\<rparr>" for x y by (auto simp: init_mm_bitmap_def split: prod.splits)
  show "\<exists>b. s' = s\<lparr>mm_bitmap := b\<rparr>"
  proof (cases "mmap < tag + rd (tag + 4)")
    case True
    with st obtain t where t: "f rd tag (mmap + rd (tag + 8)) t = Some s'" "t = s \<or> (\<exists>b. t = s\<lparr>mm_bitmap := b\<rparr>)"
      using i by (auto simp: Let_def split: if_splits)
    from ih [OF t(1)] t(2) show ?thesis by auto
  next
    case False
    then show ?thesis using st by (auto intro: exI [of _ "mm_bitmap s"])
  qed
qed

lemma grub_tags_frame:
  assumes "grub_tags rd tag s = Some s'"
  shows "\<exists>b. s' = s\<lparr>mm_bitmap := b\<rparr>"
proof (rule grub_tags.raw_induct [OF _ assms, where P = "\<lambda>rd tag s s'. \<exists>b. s' = s\<lparr>mm_bitmap := b\<rparr>"])
qed (auto split: if_splits dest!: mmap_entries_frame intro: same_bitmap)

lemma memory_init_frame:
  assumes "memory_init rd a b magic addr s = Some (Inr s')"
  shows "\<exists>b. s' = s\<lparr>mm_bitmap := b\<rparr>"
  using assms
  by (auto simp: memory_init_def memory_init_grub_def memory_init_reserv_kernel_def reset_mm_bitmap_def
      split: if_splits dest!: grub_tags_frame)

subsection \<open>Enough memory to boot\<close>

text \<open>There is a free run of \<open>m\<close> pages where the allocator looks.\<close>

definition room :: "nat \<Rightarrow> 'a phys_st_scheme \<Rightarrow> bool" where
  "room m s \<longleftrightarrow> (\<exists>q \<ge> 1272. q + m < 1048576 \<and> {q..<q + m} \<subseteq> free_pages s)"

lemma room_mono: "room m s \<Longrightarrow> n \<le> m \<Longrightarrow> room n s"
  unfolding room_def by (meson add_le_cancel_left ivl_subset le_refl order.strict_trans1 order.trans)

lemma room_get: "room n s \<Longrightarrow> fst (get_phys_block n s) \<noteq> 0"
  using get_phys_block_NULL(2) [of n s "snd (get_phys_block n s)"] subset_free_pages_iff [of _ n s]
  unfolding room_def by (metis less_imp_le prod.collapse)

lemma room_alloc:
  assumes "room (m + n) s" "get_phys_block n s = (a, t)" "a \<noteq> 0"
  shows "room m t"
proof -
  note g = get_phys_block_Some [OF assms(2,3)]
  obtain q where q: "1272 \<le> q" "q + (m + n) < 1048576" "{q..<q + (m + n)} \<subseteq> free_pages s"
    using assms(1) by (auto simp: room_def)
  then have "{q..<q + n} \<subseteq> free_pages s" by auto
  then have "free_run (page_bit (mm_bitmap s)) q n" using subset_free_pages_iff [of q n s] q(2) by simp
  then have p: "page_of_addr a \<le> q" using g(6) [OF q(1)] by (meson not_le)
  have "free_pages t = free_pages s - {page_of_addr a..<page_of_addr a + n}"
    unfolding g(5) using free_pages_alloc [of a n s] g(2) by simp
  then show ?thesis unfolding room_def using q p by (intro exI [of _ "q + n"]) auto
qed

definition no_big_pages :: "'a vm_st_scheme \<Rightarrow> bool" where
  "no_big_pages s \<longleftrightarrow> (\<forall>d < 1024. \<not> bit (page_directory s d) 7)"

lemma page_map_has_room:
  assumes "room (m + 1) s" "vm_wf s" "no_big_pages s" "user_page v" "p AND PAGE_FLAG = 0" "flag AND PAGE_ADDR = 0" "bit flag 0"
  shows "\<exists>s'. page_map p v flag s = (0, s') \<and> room m s' \<and> vm_wf s' \<and> no_big_pages s'"
proof -
  have u: "dir_index v \<noteq> 768" "v AND PAGE_FLAG = 0" using assms(4) by (simp_all add: user_page_def)
  have big: "\<not> bit (page_directory s (dir_index v)) 7" using assms(3) dir_index_less by (simp add: no_big_pages_def)
  show ?thesis
  proof (cases "table_frame s (dir_index v)")
    case (Some f)
    show ?thesis
      using page_map_backed [OF assms(2) Some u assms(5-7)] room_mono [OF assms(1), of m] assms(2,3)
      by (simp add: room_def no_big_pages_def)
  next
    case None
    then have e: "\<not> bit (page_directory s (dir_index v)) 0" using big by (simp add: table_frame_def split: if_splits)
    obtain f t where g: "get_phys_block 1 s = (f, t)" "f \<noteq> 0"
      using room_get [OF room_mono [OF assms(1)], of 1] by (metis fst_conv le_add2 surj_pair)
    note fr = fresh_frame [OF g]
    have "room m t" using room_alloc [OF assms(1) g] .
    then have "room m (add_table (dir_index v) f s)" by (simp add: room_def add_table_def fr(4) Let_def)
    moreover have "\<not> bit (f OR (PAGE_PRESENT OR PAGE_WRITE OR PAGE_USER_SUPERVISOR)) 7" using fr(1) by simp
    ultimately show ?thesis
      using page_map_fresh [OF assms(2) e big u assms(5-7) g] vm_wf_add_table [OF assms(2) u(1) dir_index_less None fr(1-3)] assms(3)
      by (simp add: room_def no_big_pages_def)
  qed
qed

lemma aligned_add: "a AND PAGE_FLAG = 0 \<Longrightarrow> b AND PAGE_FLAG = 0 \<Longrightarrow> (a + b) AND PAGE_FLAG = 0"
  by (simp add: aligned_iff unat_word_ariths mod_mod_cancel mod_eq_0_iff_dvd)

lemma nth_page_aligned: "a AND PAGE_FLAG = 0 \<Longrightarrow> nth_page a k AND PAGE_FLAG = 0"
  by (rule aligned_add) (auto intro!: bit_word_eqI simp: bit_set_simps bit_push_bit_iff)

lemma real_aligned: "a AND PAGE_FLAG = 0 \<Longrightarrow> KERNEL_GET_REAL a AND PAGE_FLAG = 0"
proof -
  have "KERNEL_GET_REAL a = a + 0x40000000"
    unfolding KERNEL_GET_REAL_def KERNEL_POS_def diff_conv_add_uminus by (rule arg_cong [of _ _ "(+) a"]) simp
  then show "a AND PAGE_FLAG = 0 \<Longrightarrow> KERNEL_GET_REAL a AND PAGE_FLAG = 0"
    using aligned_add [of a "0x40000000"] by (simp add: PAGE_FLAG_def)
qed

lemma maps_have_room:
  assumes "room (m + (n - i)) s" "vm_wf s" "no_big_pages s" "\<And>k. k < n \<Longrightarrow> user_page (nth_page v k)" "p AND PAGE_FLAG = 0"
    "flag AND PAGE_ADDR = 0" "bit flag 0"
  shows "\<exists>j s'. until_error (\<lambda>i. page_map (nth_page p i) (nth_page v i) flag) i n s = (0, j, s') \<and> room m s' \<and> vm_wf s' \<and> no_big_pages s'"
  using assms(1-3)
proof (induction "n - i" arbitrary: i s)
  case 0
  then show ?case by (subst until_error.simps) simp
next
  case (Suc k)
  have i: "i < n" using Suc.hyps(2) by simp
  have "room (m + (n - (i + 1)) + 1) s" using Suc.prems(1) i by (simp add: Suc_diff_Suc)
  from page_map_has_room [OF this Suc.prems(2,3) assms(4) [OF i] nth_page_aligned [OF assms(5)] assms(6,7)]
  obtain t where t: "page_map (nth_page p i) (nth_page v i) flag s = (0, t)" "room (m + (n - (i + 1))) t" "vm_wf t" "no_big_pages t"
    by blast
  show ?case
    using Suc.hyps(1) [OF _ t(2-4)] Suc.hyps(2) i t(1) by (subst until_error.simps) simp
qed

lemma stack_loop_succeeds:
  assumes "room (m + n) s" "booted F s" "no_big_pages s" "n \<le> j" "j < 64" "\<And>k. k \<le> n \<Longrightarrow> KERNEL_GET_REAL (nth_page bottom k) AND PAGE_FLAG = 0"
  shows "\<exists>v s'. stack_loop bottom (nth_page bottom n) (nth_page (STACK_START s) j) s = Some (Inr v, s') \<and> room m s' \<and> no_big_pages s'"
  using assms
proof (induction n arbitrary: j s)
  case 0
  then show ?case by (subst stack_loop.simps) simp
next
  case (Suc n)
  let ?v = "nth_page (STACK_START s) j" and ?b = "nth_page bottom (Suc n)"
  have L: "boot_layout (lay s)" and wf: "vm_wf s" using Suc.prems(2) by (simp_all add: booted_def)
  note v = stack_page [OF L Suc.prems(5)]
  have b: "?b \<noteq> bottom" using nth_page_inj [of bottom "Suc n" 0] Suc.prems(4,5) by auto
  have minus: "nth_page a (Suc k) - 4096 = nth_page a k" for a k
    by (simp add: push_bit_eq_mult algebra_simps)
  have r: "room (m + n + 1) s" using Suc.prems(1) by simp
  obtain s1 where m: "page_map (KERNEL_GET_REAL ?b) ?v (PAGE_WRITE OR PAGE_PRESENT) s = (0, s1)"
    and s1: "room (m + n) s1" "no_big_pages s1"
    using page_map_has_room [OF r wf Suc.prems(3) v(2) Suc.prems(6) [OF order.refl] rw_flags_ok(1) stack_flags] by blast
  note s1b = page_map_booted [OF m Suc.prems(2) v(2) stack_flags]
  obtain i where i: "j = Suc i" "n \<le> i" using Suc.prems(4) by (cases j) auto
  have "\<exists>v s'. stack_loop bottom (nth_page bottom n) (nth_page (STACK_START s1) i) s1 = Some (Inr v, s') \<and> room m s' \<and> no_big_pages s'"
    by (rule Suc.IH [OF s1(1) s1b(1) s1(2) i(2)]) (use Suc.prems(5,6) i(1) in simp_all)
  moreover have "stack_loop bottom ?b ?v s = stack_loop bottom (nth_page bottom n) (nth_page (STACK_START s1) i) s1"
    using b v(3) unfolding vm_frame_STACK_START [OF s1b(3)] i(1)
    by (subst stack_loop.simps) (simp only: minus m [unfolded i(1)] simp_thms if_True if_False prod.case)
  ultimately show ?case by simp
qed

lemma PAGE_PRESENT_nonzero: "PAGE_PRESENT \<noteq> 0"
  by (simp add: PAGE_PRESENT_def)

lemma stack_setup_succeeds:
  assumes "room 26 s" "booted F s" "no_big_pages s" "bottom AND PAGE_FLAG = 0"
  shows "\<exists>s'. stack_setup (nth_page bottom 4) bottom s = Some (Inr (), s')"
proof -
  have L: "boot_layout (lay s)" using assms(2) by (simp add: booted_def)
  have top: "STACK_END s - 4096 = nth_page (STACK_START s) 15"
    by (simp add: STACK_END_def STACK_SIZE_def push_bit_eq_mult)
  have al: "KERNEL_GET_REAL (nth_page bottom k) AND PAGE_FLAG = 0" for k
    by (rule real_aligned) (rule nth_page_aligned [OF assms(4)])
  obtain v s1 where l: "stack_loop bottom (nth_page bottom 4) (nth_page (STACK_START s) 15) s = Some (Inr v, s1)"
    and s1: "room 22 s1" "no_big_pages s1"
    using stack_loop_succeeds [of 22 4 s F 15 bottom] assms(1-3) al by auto
  have v: "v = nth_page (STACK_START s) 11" "booted F s1" "vm_frame s s1"
    using stack_loop_result [OF assms(2), of 4 15 bottom] l by auto
  have n: "unat (signed_drop_bit 12 (v - STACK_START s1)) = 11"
    using v vm_frame_STACK_START [of s s1] by (simp add: push_bit_eq_mult)
  obtain a t where at: "get_phys_block 11 s1 = (a, t)" by fastforce
  moreover have "room 11 s1" using room_mono [OF s1(1)] by simp
  ultimately have a: "a \<noteq> 0" using room_get [of 11 s1] by simp
  note g = get_phys_block_Some [OF at a]
  have "room (11 + 11) s1" using s1(1) by simp
  then have rt: "room (0 + (11 - 0)) t" using room_alloc [OF _ at a] by simp
  have t: "table_frame t = table_frame s1" "lay t = lay s1" "free_pages t \<subseteq> free_pages s1" "page_directory t = page_directory s1"
    using free_pages_alloc [of a 11 s1] g(2,5) by (auto simp: table_frame_def fun_eq_iff)
  have wft: "vm_wf t" and bt: "no_big_pages t" using v(2) s1(2) t by (auto simp: vm_wf_def booted_def no_big_pages_def)
  have p: "nth_page v k = nth_page (STACK_START s) (11 + k)" for k
    using v by (simp add: push_bit_eq_mult algebra_simps)
  have u: "user_page (nth_page v k)" if "k < 11" for k
    unfolding p using that by (intro stack_page(2) [OF L]) simp
  obtain j s' where m: "until_error (\<lambda>i. page_map (nth_page a i) (nth_page v i) (PAGE_WRITE OR PAGE_PRESENT)) 0 11 t = (0, j, s')"
    using maps_have_room [OF rt wft bt u aligned_iff [THEN iffD2, OF g(3)] rw_flags_ok(1) stack_flags] by blast
  have "v AND PAGE_FLAG = 0" using u [of 0] by (simp add: user_page_def)
  then have "page_map_at v (PAGE_WRITE OR PAGE_PRESENT) 11 s1 = (0, s')"
    using at a m rw_flags_ok(1) stack_flags PAGE_PRESENT_nonzero by (simp add: page_map_at_def page_map_range_def)
  then have "stack_setup (nth_page bottom 4) bottom s = Some (Inr (), s')"
    unfolding stack_setup_def top l using n by simp
  then show ?thesis by blast
qed

subsection \<open>The memory steps together\<close>

lemma page_bit_clear_bit_at_iff: "page_bit (clear_bit_at a k bm) p \<longleftrightarrow> page_bit bm p \<and> \<not> (p div 8 = ACCESS_BITMAP_BY_ADDR a \<and> p mod 8 = k)"
  by (auto simp: clear_bit_at_def page_bit_def bit_set_simps)

lemma heap_setup_keeps:
  "vm_wf (heap_setup s) = vm_wf s" "free_pages (heap_setup s) = free_pages s" "kernel_mapped (heap_setup s) = kernel_mapped s"
proof -
  have e: "lay (heap_setup s) = lay s" "pmem (heap_setup s) = pmem s" "table_frame (heap_setup s) = table_frame s"
    "mm_bitmap (heap_setup s) = mm_bitmap s"
    by (simp_all add: heap_setup_def table_frame_def fun_eq_iff)
  note c = vm_frame_cong [OF e]
  show "vm_wf (heap_setup s) = vm_wf s" by (rule c)
  show "free_pages (heap_setup s) = free_pages s" by (simp add: free_pages_def e)
  show "kernel_mapped (heap_setup s) = kernel_mapped s" by (simp add: kernel_mapped_def is_window_def c e)
qed

lemma room_page_setup:
  assumes "room m s" "boot_layout (lay s)"
  shows "room m (page_setup s)"
proof -
  have "mm_bitmap (page_setup s) = clear_bit_at 0x0000E000 0 (clear_bit_at 0x000B8000 0 (clear_bit_at 0 0 (mm_bitmap s)))"
    by (simp add: page_setup_def Let_def heap_setup_def page_setup_kernel_section_def)
  then have "p \<in> free_pages s \<Longrightarrow> 1272 \<le> p \<Longrightarrow> p \<in> free_pages (page_setup s)" for p
    by (auto simp: free_pages_def page_bit_clear_bit_at_iff ACCESS_BITMAP_BY_ADDR_def)
  then show ?thesis using assms(1) by (fastforce simp: room_def)
qed

lemma page_setup_ready:
  assumes "memory_init rd (KERNEL_GET_REAL (kernel_start (lay s))) (KERNEL_GET_REAL (kernel_end (lay s))) magic addr s = Some (Inr s1)"
    "room 26 s1" "boot_layout (lay s)" "boot_directory s"
  shows "booted (free_pages s1) (page_setup s1)" "no_big_pages (page_setup s1)" "room 26 (page_setup s1)"
proof -
  let ?K = "{page_of_addr (KERNEL_GET_REAL (kernel_start (lay s)))..<page_of_addr (PAGE_ALIGN (KERNEL_GET_REAL (kernel_end (lay s))))}"
  obtain b where s1: "s1 = s\<lparr>mm_bitmap := b\<rparr>" using memory_init_frame [OF assms(1)] by blast
  have L: "boot_layout (lay s1)" and D: "boot_directory s1" using assms(3,4) by (simp_all add: s1 boot_directory_def)
  have "page_of_addr (kernel_page_frame s1) \<in> ?K"
    using kernel_page_number(3,4) [OF L, of "kernel_page (lay s1)"] L by (simp add: s1 boot_layout_def)
  then have "page_of_addr (kernel_page_frame s1) \<notin> free_pages s1" using memory_init_reserves [OF assms(1)] by blast
  note ps = page_setup_establishes [OF L D this] and dir = page_setup_directory [OF L]
  show "booted (free_pages s1) (page_setup s1)" using ps dir L by (simp add: booted_def)
  show "room 26 (page_setup s1)" by (rule room_page_setup [OF assms(2) L])
  have "\<not> bit (kernel_page_frame s1 OR PAGE_PRESENT) 7"
    using entry_bit [OF boot_frame(1) [OF L], of 7 PAGE_PRESENT] by (simp add: PAGE_PRESENT_def bit_simps)
  then show "no_big_pages (page_setup s1)" using D dir(1) by (auto simp: no_big_pages_def boot_directory_def)
qed

lemma heap_frame_page_setup: "heap_frame s (page_setup s)"
  by (simp add: page_setup_def Let_def page_setup_kernel_section_def heap_setup_def heap_frame_def)

lemma kmain_memory_ready:
  assumes "memory_init rd (KERNEL_GET_REAL (kernel_start (lay s))) (KERNEL_GET_REAL (kernel_end (lay s))) magic addr s = Some (Inr s1)"
    "room 26 s1" "boot_layout (lay s)" "boot_directory s" "bottom AND PAGE_FLAG = 0"
  shows "\<exists>s2. kmain_memory rd (nth_page bottom 4) bottom magic addr s = Some (Inr (heap_setup s2)) \<and> booted (free_pages s1) s2 \<and>
    heap_frame s (heap_setup s2)"
proof -
  note R = page_setup_ready [OF assms(1-4)]
  obtain s2 where s2: "stack_setup (nth_page bottom 4) bottom (page_setup s1) = Some (Inr (), s2)"
    using stack_setup_succeeds [OF R(3,1,2) assms(5)] by blast
  then have b2: "booted (free_pages s1) s2" "vm_frame (page_setup s1) s2" using stack_setup_result [OF R(1), of bottom] by auto
  have "heap_frame s s1" using memory_init_frame [OF assms(1)] by (auto simp: heap_frame_def)
  from heap_frame_trans [OF heap_frame_trans [OF this heap_frame_page_setup] vm_frame_heap_frame [OF b2(2)]]
  have "heap_frame s (heap_setup s2)" by (simp add: heap_setup_def heap_frame_def)
  moreover have "kmain_memory rd (nth_page bottom 4) bottom magic addr s = Some (Inr (heap_setup s2))"
    using s2 by (simp add: kmain_memory_def assms(1))
  ultimately show ?thesis using b2(1) by blast
qed

lemma heap_setup_empty: "heap_inv (heap_setup s)" "live (heap_setup s) = {}"
  by (simp_all add: heap_inv_def live_def heap_setup_def)

text \<open>
  C11. When the boot loader's memory map is read without a panic and leaves a free run of 26 pages (\<open>room 26\<close>), the image lies
  within its 4 MB as \<open>boot_layout\<close> says, the directory has only the slots of the boot code in use and the boot stack is
  aligned to a page, the memory
  steps of \<^verbatim>\<open>kmain\<close> end without a panic, and afterwards the page tables and the heap satisfy the invariants that
  all later operations keep: every page of the kernel image is still mapped to where the boot loader put it, the heap is
  empty, and no page of the image is free for the allocator.
\<close>

theorem kmain_memory_establishes:
  assumes "memory_init rd (KERNEL_GET_REAL (kernel_start (lay s))) (KERNEL_GET_REAL (kernel_end (lay s))) magic addr s = Some (Inr s1)"
    "room 26 s1" "boot_layout (lay s)" "boot_directory s" "bottom AND PAGE_FLAG = 0"
  shows "\<exists>s'. kmain_memory rd (nth_page bottom 4) bottom magic addr s = Some (Inr s') \<and>
    vm_wf s' \<and> kernel_mapped s' \<and> heap_inv s' \<and> live s' = {} \<and>
    free_pages s' \<inter> {page_of_addr (KERNEL_GET_REAL (kernel_start (lay s)))..<
                        page_of_addr (PAGE_ALIGN (KERNEL_GET_REAL (kernel_end (lay s))))} = {}"
proof -
  obtain s2 where "kmain_memory rd (nth_page bottom 4) bottom magic addr s = Some (Inr (heap_setup s2))" "booted (free_pages s1) s2"
    using kmain_memory_ready [OF assms] by blast
  then show ?thesis
    using memory_init_reserves [OF assms(1)] heap_setup_keeps [of s2] heap_setup_empty [of s2] by (auto simp: booted_def)
qed

text \<open>A machine with one available region of one megabyte at \<open>0x500000\<close>.\<close>

definition boot_mbi :: "u32 \<Rightarrow> u32" where
  "boot_mbi a = (if a = 8 then 6 else if a = 12 then 40 else if a = 16 then 24
     else if a = 24 then 0x500000 else if a = 32 then 0x100000 else if a = 40 then 1 else 0)"

definition demo_boot :: heap_st where
  "demo_boot = \<lparr>klog = [], mm_bitmap = (\<lambda>_. 0), lay = demo_layout, page_directory = (\<lambda>_. 0), pmem = (\<lambda>_ _. 0),
     mm_virt_heap = (\<lambda>_. 0), heap = [], headers = (\<lambda>a. \<lparr>hsize = 0, hfree = True\<rparr>)\<rparr>"

lemma demo_boot_layout: "lay demo_boot = demo_layout" "boot_layout (lay demo_boot)" "boot_directory demo_boot"
  by (simp_all add: demo_boot_def boot_layout_def demo_layout_def PAGE_FLAG_def KERNEL_POS_def boot_directory_def)

lemma demo_boot_real: "KERNEL_GET_REAL (kernel_start demo_layout) = 0x100000" "KERNEL_GET_REAL (kernel_end demo_layout) = 0x110000"
  by (simp_all add: demo_layout_def KERNEL_GET_REAL_def KERNEL_POS_def)

lemma mm_bitmap_upd: "mm_bitmap (t\<lparr>mm_bitmap := b\<rparr>) = b"
  by simp

lemma reserved_pages: "free_pages (memory_init_reserv_kernel 0x100000 0x110000 t) = free_pages t - {256..<272}"
proof -
  have u: "unat (drop_bit 12 (PAGE_ALIGN 0x110000)) = 272" "unat (drop_bit 12 (0x100000 :: u32)) = 256"
    by (simp_all add: PAGE_ALIGN_def)
  have le: "unat (drop_bit 12 (PAGE_ALIGN 0x110000)) \<le> 1048576" unfolding u by simp
  have b: "mm_bitmap (memory_init_reserv_kernel 0x100000 0x110000 t) =
      reserv_loop (drop_bit 12 0x100000) (drop_bit 12 (PAGE_ALIGN 0x110000)) (mm_bitmap t)"
    unfolding memory_init_reserv_kernel_def by (rule mm_bitmap_upd)
  have "page_bit (mm_bitmap (memory_init_reserv_kernel 0x100000 0x110000 t)) q \<longleftrightarrow> page_bit (mm_bitmap t) q \<and> q \<notin> {256..<272}" for q
    unfolding b reserv_loop_page_bit [OF le] u by (rule refl)
  then show ?thesis unfolding free_pages_def by blast
qed

lemma boot_mbi_init:
  assumes "mm_bitmap s = (\<lambda>_. 0)"
  shows "\<exists>s1. memory_init boot_mbi 0x100000 0x110000 0x36d76289 0 s = Some (Inr s1) \<and> free_pages s1 = {1280..<1536}"
proof -
  let ?t = "init_mm_bitmap 0x500000 0x100000 (reset_mm_bitmap s)"
  let ?s = "memory_init_reserv_kernel 0x100000 0x110000 ?t"
  have "memory_init boot_mbi 0x100000 0x110000 0x36d76289 0 s = Some (Inr ?s)"
    by (simp add: memory_init_def memory_init_grub_def MULTIBOOT2_BOOTLOADER_MAGIC_def
        grub_tags.simps mmap_entries.simps boot_mbi_def MULTIBOOT_TAG_TYPE_END_def
        MULTIBOOT_TAG_TYPE_MMAP_def MULTIBOOT_MEMORY_AVAILABLE_def)
  moreover have e: "free_pages (reset_mm_bitmap s) = {}"
    by (simp add: free_pages_def page_bit_def reset_mm_bitmap_def assms)
  have n: "page_of_addr 0x500000 = 1280" "page_of_addr 0x100000 = 256" by simp_all
  have le: "page_of_addr 0x500000 + page_of_addr 0x100000 \<le> 1048576" unfolding n by simp
  have m: "(1280 :: nat) = page_of_addr 0x500000 + page_of_addr 0x100000 mod 8" unfolding n by simp
  have "free_pages ?t = {} \<union> {1280..<1280} \<union> {8 * (1280 div 8)..<8 * (1280 div 8) + 8 * (256 div 8)}"
    using init_mm_bitmap_effect [OF le m, of "reset_mm_bitmap s"] unfolding n e .
  then have "free_pages ?t = {1280..<1536}" by simp
  moreover have "free_pages ?s = free_pages ?t - {256..<272}" by (rule reserved_pages)
  ultimately show ?thesis by (intro exI [of _ ?s]) auto
qed

lemma boot_mbi_ready:
  assumes "mm_bitmap s = (\<lambda>_. 0)" "lay s = demo_layout"
  shows "\<exists>s1. memory_init boot_mbi (KERNEL_GET_REAL (kernel_start (lay s))) (KERNEL_GET_REAL (kernel_end (lay s)))
      0x36d76289 0 s = Some (Inr s1) \<and> room 26 s1 \<and> free_pages s1 = {1280..<1536}"
proof -
  obtain s1 where s1: "memory_init boot_mbi 0x100000 0x110000 0x36d76289 0 s = Some (Inr s1)" "free_pages s1 = {1280..<1536}"
    using boot_mbi_init [OF assms(1)] by blast
  have "room 26 s1" unfolding room_def s1(2) by (rule exI [of _ 1280]) simp
  then show ?thesis using s1 unfolding assms(2) demo_boot_real by blast
qed

lemma demo_boot_ready:
  "\<exists>s1. memory_init boot_mbi (KERNEL_GET_REAL (kernel_start (lay demo_boot))) (KERNEL_GET_REAL (kernel_end (lay demo_boot)))
      0x36d76289 0 demo_boot = Some (Inr s1) \<and> room 26 s1 \<and> free_pages s1 = {1280..<1536}"
  by (rule boot_mbi_ready [OF _ demo_boot_layout(1)]) (simp add: demo_boot_def)

lemma kmain_memory_establishes_witness:
  "\<exists>s'. kmain_memory boot_mbi 0xC0110000 0xC010C000 0x36d76289 0 demo_boot = Some (Inr s') \<and> vm_wf s' \<and> heap_inv s'"
proof -
  obtain s1 where s1: "memory_init boot_mbi (KERNEL_GET_REAL (kernel_start (lay demo_boot))) (KERNEL_GET_REAL (kernel_end (lay demo_boot)))
      0x36d76289 0 demo_boot = Some (Inr s1)" "room 26 s1" using demo_boot_ready by blast
  have "(0xC010C000 :: u32) AND PAGE_FLAG = 0" by (simp add: PAGE_FLAG_def)
  from kmain_memory_establishes [OF s1 demo_boot_layout(2,3) this] show ?thesis by (auto simp: push_bit_eq_mult)
qed

lemma demo_boot_stack:
  "\<exists>s :: heap_st. booted {1280..<1536} s \<and> room 26 s \<and> no_big_pages s"
proof -
  obtain s1 where s1: "memory_init boot_mbi (KERNEL_GET_REAL (kernel_start (lay demo_boot))) (KERNEL_GET_REAL (kernel_end (lay demo_boot)))
      0x36d76289 0 demo_boot = Some (Inr s1)" "room 26 s1" "free_pages s1 = {1280..<1536}" using demo_boot_ready by blast
  from page_setup_ready [OF s1(1,2) demo_boot_layout(2,3)] s1(3) show ?thesis by auto
qed

lemma stack_setup_drops_boot_stack_witness:
  "\<exists>(s :: heap_st) s' q. stack_setup 0xC0110000 0xC010C000 s = Some (Inr (), s') \<and>
     translate s' (STACK_END s - 4096) = Some q \<and> q \<noteq> 0x110000"
proof -
  obtain s :: heap_st where s: "booted {1280..<1536} s" "room 26 s" "no_big_pages s" using demo_boot_stack by blast
  have al: "(0xC010C000 :: u32) AND PAGE_FLAG = 0" by (simp add: PAGE_FLAG_def)
  obtain s' where s': "stack_setup (nth_page 0xC010C000 4) 0xC010C000 s = Some (Inr (), s')"
    using stack_setup_succeeds [OF s(2,1,3) al] by blast
  have "page_of_addr (KERNEL_GET_REAL (nth_page 0xC010C000 i)) \<notin> {1280..<1536}" if "i < 5" for i
  proof -
    have "i \<in> {0, 1, 2, 3, 4}" using that by auto
    then show ?thesis by (auto simp: KERNEL_GET_REAL_def KERNEL_POS_def push_bit_eq_mult)
  qed
  from stack_setup_drops_boot_stack [OF s(1) allI [OF impI [OF this]]] s'
  obtain q where "translate s' (STACK_END s - push_bit 12 (of_nat (0 + 1))) = Some q" "\<forall>i < 5. q \<noteq> KERNEL_GET_REAL (nth_page 0xC010C000 i)"
    by fastforce
  then show ?thesis using s' by (intro exI [of _ s] exI [of _ s'] exI [of _ q])
      (auto simp: push_bit_eq_mult KERNEL_GET_REAL_def KERNEL_POS_def dest: spec [of _ 4])
qed

end
