(* ===== verification/Process.thy ===== *)
theory Process
  imports Kmalloc
begin

text \<open>
  Processes (\<^verbatim>\<open>inc/process.h\<close>, \<^verbatim>\<open>kernel/process\<close>): the process table, process identifiers, the
  end of a process, signals and waiting for a child. The state extends that of the heap with the
  process structures by address, the list of processes, the pointers \<^verbatim>\<open>current\<close> and
  \<^verbatim>\<open>process_hlt\<close> (0 is \<^verbatim>\<open>NULL\<close>) and the static variable of \<^verbatim>\<open>process_alloc_pid\<close>. The intrusive lists of
  the source are sequences here, as \<open>Linked_List\<close> justifies; an element of a list that lives in a
  heap block of its own carries its address, which is what \<^verbatim>\<open>kfree\<close> gets.

  The operations are in the \<open>option\<close> monad: \<open>None\<close> stands for C behaviour without a meaning, that
  is reading a process structure through a null pointer or after it was freed, indexing past the
  end of a table, or shifting by 32 bits or more. An operation that ends the current process does not
  return to its caller but goes on in the scheduler: its result is then \<open>Resched\<close>.
\<close>

subsection \<open>Data\<close>

datatype proc_state = RUN | STOPPED | ZOMBIE | THREAD

datatype khandler = Sig_term | Sig_ign | Sig_core | Sig_stop | Sig_cont | Child_ended

text \<open>A value of type \<^verbatim>\<open>shandler\<close>: a null pointer, a function of the kernel, an address.\<close>

datatype shandler = Null | Kernel khandler | Addr u32

record sig_queue =
  sq_node :: nat
  sig_handled :: u32
  sq_state :: u8

record map_memory =
  mm_node :: nat
  v_addr :: u32
  p_addr :: u32
  mm_size :: u32
  flags :: u32

record child =
  ch_node :: nat
  ch_p :: nat

record regs =
  eax :: u32  ecx :: u32  edx :: u32  ebx :: u32
  esp :: u32  ebp :: u32  esi :: u32  edi :: u32
  eip :: u32  eflags :: u32
  cs :: u16  ss :: u16  ds :: u16  es :: u16  fs :: u16  gs :: u16

record process =
  state :: proc_state
  pid :: int
  uid :: u32
  father :: nat
  children :: "child list"
  waiting_pid :: int
  waiting_return :: int
  end_value :: int
  pregs :: regs
  mm_heap :: "map_memory list"
  mm_stack :: "map_memory list"
  mm_code :: map_memory
  sigs :: "sig_queue list"
  sig_avalaible :: u32
  sig_handler :: "nat \<Rightarrow> shandler"

record proc_st = heap_st +
  procs :: "nat \<Rightarrow> process option"
  process_list :: "nat list"
  current :: nat
  process_hlt :: nat
  last_pid :: int

datatype ctl = Returned int | Resched

definition PROC_MEM_ADD_IMEDIATE :: u32 where "PROC_MEM_ADD_IMEDIATE = 1"
definition PROC_MEM_ADD_HEAP :: u32 where "PROC_MEM_ADD_HEAP = 2"
definition PROC_MEM_ADD_STACK :: u32 where "PROC_MEM_ADD_STACK = 4"
definition PROC_MEM_ADD_CODE :: u32 where "PROC_MEM_ADD_CODE = 8"
definition PROC_MIN_PID :: int where "PROC_MIN_PID = 1"
definition PROC_MAX_PID :: int where "PROC_MAX_PID = 0xfff"
definition SIG_SOFT :: u32 where "SIG_SOFT = 1"
definition SIG_HARD :: u32 where "SIG_HARD = 2"
definition SIG_EXECUTING :: u8 where "SIG_EXECUTING = 4"
definition SIG_NOT_EXECUTING :: u32 where "SIG_NOT_EXECUTING = 8"
definition SIG_DFL :: u32 where "SIG_DFL = NOT 0"
definition SIG_IGN :: u32 where "SIG_IGN = NOT 0 AND NOT 1"
definition WAIT_EXITCODE :: "int \<Rightarrow> int \<Rightarrow> int" where "WAIT_EXITCODE ret sig = push_bit 8 ret OR sig"
definition WAIT_STOPCODE :: "int \<Rightarrow> int" where "WAIT_STOPCODE sig = push_bit 8 sig OR 0x7f"
definition WAIT_CONTINUED :: int where "WAIT_CONTINUED = 0xffff"
definition WAIT_COREFLAG :: int where "WAIT_COREFLAG = 0x80"
definition WNOHANG :: u32 where "WNOHANG = 1"
definition EWOULDBLOCK :: int where "EWOULDBLOCK = EAGAIN"

lemmas sig_flag_defs = SIG_SOFT_def SIG_HARD_def SIG_EXECUTING_def SIG_NOT_EXECUTING_def

text \<open>The sizes of the structures on the 32-bit machine.\<close>

definition sizeof_process :: u32 where "sizeof_process = 292"
definition sizeof_sig_queue :: u32 where "sizeof_sig_queue = 16"
definition sizeof_map_memory :: u32 where "sizeof_map_memory = 24"
definition sizeof_children :: u32 where "sizeof_children = 12"

definition update_proc :: "nat \<Rightarrow> (process \<Rightarrow> process) \<Rightarrow> 'a proc_st_scheme \<Rightarrow> 'a proc_st_scheme option" where
  "update_proc a f s = map_option (\<lambda>p. s\<lparr>procs := (procs s)(a \<mapsto> f p)\<rparr>) (procs s a)"

subsection \<open>Process identifiers and new processes\<close>

text \<open>
  \<^verbatim>\<open>process_alloc_pid\<close>: a candidate is the static variable, which moves on; after too many tries it
  gives up; the variable returns to the smallest identifier.
\<close>

function alloc_pid_loop :: "int list \<Rightarrow> int \<Rightarrow> int \<Rightarrow> (int \<times> int) \<times> int" where
  "alloc_pid_loop used try lp =
     (if try > PROC_MAX_PID - PROC_MIN_PID then ((- EAGAIN, lp), lp + 1)
      else let lp' = (if lp + 1 \<ge> PROC_MAX_PID then PROC_MIN_PID else lp + 1)
           in if lp \<in> set used then alloc_pid_loop used (try + 1) lp' else ((0, lp), lp'))"
  by pat_completeness auto
termination
  by (relation "measure (\<lambda>(used, try, lp). nat (0xfff - try))") (auto simp: PROC_MAX_PID_def PROC_MIN_PID_def)

declare alloc_pid_loop.simps [simp del]

definition pids :: "'a proc_st_scheme \<Rightarrow> int list option" where
  "pids s = those (map (\<lambda>a. map_option pid (procs s a)) (process_list s))"

text \<open>The result is the error number and the identifier written through the pointer.\<close>

definition process_alloc_pid :: "'a proc_st_scheme \<Rightarrow> ((int \<times> int) \<times> 'a proc_st_scheme) option" where
  "process_alloc_pid s = do {
     used \<leftarrow> pids s;
     (let (r, lp) = alloc_pid_loop used 0 (last_pid s) in Some (r, s\<lparr>last_pid := lp\<rparr>)) }"

definition zero_regs :: regs where
  "zero_regs = \<lparr>eax = 0, ecx = 0, edx = 0, ebx = 0, esp = 0, ebp = 0, esi = 0, edi = 0,
     eip = 0, eflags = 0, cs = 0, ss = 0, ds = 0, es = 0, fs = 0, gs = 0\<rparr>"

definition zero_map :: map_memory where
  "zero_map = \<lparr>mm_node = 0, v_addr = 0, p_addr = 0, mm_size = 0, flags = 0\<rparr>"

definition empty_process :: process where
  "empty_process = \<lparr>state = RUN, pid = 0, uid = 0, father = 0, children = [],
     waiting_pid = 0, waiting_return = 0, end_value = 0, pregs = zero_regs, mm_heap = [], mm_stack = [],
     mm_code = zero_map, sigs = [], sig_avalaible = 0, sig_handler = (\<lambda>_. Null)\<rparr>"

definition process_new :: "'a proc_st_scheme \<Rightarrow> nat \<times> 'a proc_st_scheme" where
  "process_new s =
     (case kmalloc sizeof_process s of
        (None, s') \<Rightarrow> (0, s')
      | (Some a, s') \<Rightarrow> (a, s'\<lparr>procs := (procs s')(a \<mapsto> empty_process)\<rparr>))"

text \<open>The first process of the list with the identifier; 0 when there is none.\<close>

fun get_with_pid :: "int \<Rightarrow> nat list \<Rightarrow> 'a proc_st_scheme \<Rightarrow> nat option" where
  "get_with_pid n [] s = Some 0"
| "get_with_pid n (a # as) s = do {
     p \<leftarrow> procs s a;
     (if pid p = n then Some a else get_with_pid n as s) }"

definition process_get_with_pid :: "int \<Rightarrow> 'a proc_st_scheme \<Rightarrow> nat option" where
  "process_get_with_pid n s = get_with_pid n (process_list s) s"

definition getuid :: "nat \<Rightarrow> 'a proc_st_scheme \<Rightarrow> u32 option" where
  "getuid a s = map_option uid (procs s a)"

subsection \<open>Freeing a process\<close>

text \<open>The node of the father's list that refers to the process, and the list without it.\<close>

fun unlink_child :: "nat \<Rightarrow> child list \<Rightarrow> nat option \<times> child list" where
  "unlink_child a [] = (None, [])"
| "unlink_child a (c # ks) =
     (if ch_p c = a then (Some (ch_node c), ks)
      else case unlink_child a ks of (n, ks') \<Rightarrow> (n, c # ks'))"

definition leave_father :: "nat \<Rightarrow> nat \<Rightarrow> 'a proc_st_scheme \<Rightarrow> 'a proc_st_scheme option" where
  "leave_father a f s =
     (if f = 0 then Some s
      else do {
        pf \<leftarrow> procs s f;
        (case unlink_child a (children pf) of
           (None, _) \<Rightarrow> Some s
         | (Some node, ks) \<Rightarrow>
             Some (kfree node (s\<lparr>procs := (procs s)(f \<mapsto> pf\<lparr>children := ks\<rparr>)\<rparr>))) })"

fun reparent :: "child list \<Rightarrow> 'a proc_st_scheme \<Rightarrow> 'a proc_st_scheme option" where
  "reparent [] s = Some s"
| "reparent (c # ks) s = do {
     i \<leftarrow> process_get_with_pid 1 s;
     s' \<leftarrow> (if i \<noteq> 0 then update_proc i (\<lambda>p. p\<lparr>children := c # children p\<rparr>) s
            else Some (kfree (ch_node c) s));
     reparent ks s' }"

definition free_process :: "nat \<Rightarrow> 'a proc_st_scheme \<Rightarrow> 'a proc_st_scheme option" where
  "free_process a s = do {
     p \<leftarrow> procs s a;
     s1 \<leftarrow> leave_father a (father p) (s\<lparr>process_list := removeAll a (process_list s)\<rparr>);
     p1 \<leftarrow> procs s1 a;
     s2 \<leftarrow> reparent (children p1) (s1\<lparr>procs := (procs s1)(a \<mapsto> p1\<lparr>children := []\<rparr>)\<rparr>);
     Some (let s3 = kfree a s2 in s3\<lparr>procs := (procs s3)(a := None)\<rparr>) }"

end
