(* ===== verification/Signal.thy ===== *)
theory Signal
  imports Process
begin

text \<open>
  Signals, the end of a process and waiting (\<^verbatim>\<open>kernel/process/signal.c\<close>, \<^verbatim>\<open>process_die.c\<close>,
  \<^verbatim>\<open>process_wait.c\<close>, \<^verbatim>\<open>exit.c\<close>, \<^verbatim>\<open>inc/signal.h\<close>).
\<close>

subsection \<open>Signal numbers and tables\<close>

definition SIGHUP :: u32 where "SIGHUP = 1"
definition SIGINT :: u32 where "SIGINT = 2"
definition SIGQUIT :: u32 where "SIGQUIT = 3"
definition SIGILL :: u32 where "SIGILL = 4"
definition SIGTRAP :: u32 where "SIGTRAP = 5"
definition SIGABRT :: u32 where "SIGABRT = 6"
definition SIGIOT :: u32 where "SIGIOT = 6"
definition SIGBUS :: u32 where "SIGBUS = 7"
definition SIGFPE :: u32 where "SIGFPE = 8"
definition SIGKILL :: u32 where "SIGKILL = 9"
definition SIGUSR1 :: u32 where "SIGUSR1 = 10"
definition SIGSEGV :: u32 where "SIGSEGV = 11"
definition SIGUSR2 :: u32 where "SIGUSR2 = 12"
definition SIGPIPE :: u32 where "SIGPIPE = 13"
definition SIGALRM :: u32 where "SIGALRM = 14"
definition SIGTERM :: u32 where "SIGTERM = 15"
definition SIGSTKFLT :: u32 where "SIGSTKFLT = 16"
definition SIGCHLD :: u32 where "SIGCHLD = 17"
definition SIGCLD :: u32 where "SIGCLD = SIGCHLD"
definition SIGCONT :: u32 where "SIGCONT = 18"
definition SIGSTOP :: u32 where "SIGSTOP = 19"
definition SIGTSTP :: u32 where "SIGTSTP = 20"
definition SIGTTIN :: u32 where "SIGTTIN = 21"
definition SIGTTOU :: u32 where "SIGTTOU = 22"
definition SIGURG :: u32 where "SIGURG = 23"
definition SIGXCPU :: u32 where "SIGXCPU = 24"
definition SIGXFSZ :: u32 where "SIGXFSZ = 25"
definition SIGVTALRM :: u32 where "SIGVTALRM = 26"
definition SIGPROF :: u32 where "SIGPROF = 27"
definition SIGWINCH :: u32 where "SIGWINCH = 28"
definition SIGIO :: u32 where "SIGIO = 29"
definition SIGPOLL :: u32 where "SIGPOLL = SIGIO"
definition SIGPWR :: u32 where "SIGPWR = 30"
definition SIGSYS :: u32 where "SIGSYS = 31"

lemmas signum_defs = SIGHUP_def SIGINT_def SIGQUIT_def SIGILL_def SIGTRAP_def SIGABRT_def SIGIOT_def
  SIGBUS_def SIGFPE_def SIGKILL_def SIGUSR1_def SIGSEGV_def SIGUSR2_def SIGPIPE_def SIGALRM_def
  SIGTERM_def SIGSTKFLT_def SIGCHLD_def SIGCLD_def SIGCONT_def SIGSTOP_def SIGTSTP_def SIGTTIN_def
  SIGTTOU_def SIGURG_def SIGXCPU_def SIGXFSZ_def SIGVTALRM_def SIGPROF_def SIGWINCH_def SIGIO_def
  SIGPOLL_def SIGPWR_def SIGSYS_def

text \<open>The masks \<^verbatim>\<open>SIG..._PROCMASK\<close>: bit \<open>n - 1\<close> for signal \<open>n\<close>, nothing for the two unblockable ones.\<close>

definition PROCMASK :: "u32 \<Rightarrow> u32" where
  "PROCMASK sig = (if sig = SIGKILL \<or> sig = SIGSTOP then 0 else push_bit (unat sig - 1) 1)"

definition blocked_sig :: "(u32 \<times> u32) list" where
  "blocked_sig = [
     (SIGHUP, PROCMASK SIGHUP), (SIGINT, PROCMASK SIGINT), (SIGQUIT, PROCMASK SIGQUIT),
     (SIGILL, PROCMASK SIGILL), (SIGTRAP, PROCMASK SIGTRAP), (SIGABRT, PROCMASK SIGABRT),
     (SIGIOT, PROCMASK SIGIOT), (SIGBUS, PROCMASK SIGBUS), (SIGFPE, PROCMASK SIGFPE),
     (SIGKILL, PROCMASK SIGKILL), (SIGUSR1, PROCMASK SIGUSR1), (SIGSEGV, PROCMASK SIGSEGV),
     (SIGUSR2, PROCMASK SIGHUP), (SIGPIPE, PROCMASK SIGPIPE), (SIGALRM, PROCMASK SIGALRM),
     (SIGTERM, PROCMASK SIGTERM), (SIGSTKFLT, PROCMASK SIGSTKFLT), (SIGCHLD, PROCMASK SIGCHLD),
     (SIGCLD, PROCMASK SIGCLD), (SIGCONT, PROCMASK SIGCONT), (SIGSTOP, PROCMASK SIGSTOP),
     (SIGTSTP, PROCMASK SIGTSTP), (SIGTTIN, PROCMASK SIGTTIN), (SIGTTOU, PROCMASK SIGTTOU),
     (SIGURG, PROCMASK SIGURG), (SIGXCPU, PROCMASK SIGXCPU), (SIGXFSZ, PROCMASK SIGXFSZ),
     (SIGVTALRM, PROCMASK SIGVTALRM), (SIGPROF, PROCMASK SIGPROF), (SIGWINCH, PROCMASK SIGWINCH),
     (SIGPOLL, PROCMASK SIGPOLL), (SIGIO, PROCMASK SIGIO), (SIGPWR, PROCMASK SIGPWR),
     (SIGSYS, PROCMASK SIGSYS)]"

text \<open>The table \<^verbatim>\<open>sig_handler\<close> of the kernel, indexed by signal number.\<close>

definition kernel_handler :: "khandler list" where
  "kernel_handler = [
     Sig_term, Sig_term, Sig_core, Sig_core, Sig_core, Sig_core, Sig_core, Sig_core, Sig_core,
     Sig_term, Sig_term, Sig_core, Sig_term, Sig_term, Sig_term, Sig_term, Sig_term, Child_ended,
     Sig_ign, Sig_cont, Sig_stop, Sig_stop, Sig_stop, Sig_stop, Sig_ign, Sig_core, Sig_core,
     Sig_term, Sig_term, Sig_ign, Sig_term, Sig_core, Sig_term, Sig_core]"

definition mask_of :: "u32 \<Rightarrow> u32" where
  "mask_of sig = (case map_of blocked_sig sig of None \<Rightarrow> 0 | Some m \<Rightarrow> m)"

definition SIG_UNAVAILABLE :: "u32 \<Rightarrow> int \<Rightarrow> bool option" where
  "SIG_UNAVAILABLE m sig =
     (if sig \<le> 32 then Some (m AND push_bit (nat (sig - 1)) 1 \<noteq> 0) else None)"

subsection \<open>Queueing a signal\<close>

text \<open>The new node, its place in the queue (in front for a hard signal) and the mask.\<close>

definition enqueue_signal :: "nat \<Rightarrow> int \<Rightarrow> u32 \<Rightarrow> process \<Rightarrow> process" where
  "enqueue_signal n sig type p =
     (let q = \<lparr>sq_node = n, sig_handled = of_int sig, sq_state = ucast (type OR SIG_NOT_EXECUTING)\<rparr>
      in p\<lparr>sigs := (if type AND SIG_HARD \<noteq> 0 then q # sigs p else sigs p @ [q]),
           sig_avalaible := sig_avalaible p OR mask_of (of_int sig)\<rparr>)"

definition add_signal :: "int \<Rightarrow> nat \<Rightarrow> u32 \<Rightarrow> 'a proc_st_scheme \<Rightarrow> (int \<times> 'a proc_st_scheme) option" where
  "add_signal sig a type s =
     (if sig = 0 then Some (0, s)
      else if (type AND SIG_HARD \<noteq> 0 \<and> type AND SIG_SOFT \<noteq> 0) \<or>
              (type AND SIG_HARD = 0 \<and> type AND SIG_SOFT = 0) then Some (- EINVAL, s)
      else if a = 0 then Some (- EINVAL, s)
      else do {
        p \<leftarrow> procs s a;
        (if state p = ZOMBIE then Some (- EINVAL, s)
         else if sig < 0 \<or> sig > 34 then Some (- EINVAL, s)
         else do {
           blocked \<leftarrow> (if type AND SIG_HARD = 0 then SIG_UNAVAILABLE (sig_avalaible p) sig else Some False);
           (if blocked then Some (0, s)
            else case kmalloc sizeof_sig_queue s of
                (None, s') \<Rightarrow> Some (- ENOMEM, s')
              | (Some n, s') \<Rightarrow>
                  map_option (Pair 0) (update_proc a (enqueue_signal n sig type) s')) }) })"

subsection \<open>The end of a process\<close>

text \<open>The loop of \<^verbatim>\<open>process_free_all_memory\<close> over the heap and over the stack.\<close>

fun free_maps :: "bool \<Rightarrow> map_memory list \<Rightarrow> 'a proc_st_scheme \<Rightarrow> 'a proc_st_scheme" where
  "free_maps here [] s = s"
| "free_maps here (pm # pms) s =
     (let s1 = (if here then snd (page_unmap_at (v_addr pm) (flags pm) (unat (mm_size pm)) s) else s);
          s2 = free_phys_block (p_addr pm) (unat (mm_size pm)) s1
      in free_maps here pms (kfree (mm_node pm) s2))"

definition process_free_all_memory :: "nat \<Rightarrow> 'a proc_st_scheme \<Rightarrow> 'a proc_st_scheme option" where
  "process_free_all_memory a s = do {
     p \<leftarrow> procs s a;
     (let here = (a = current s);
          s1 = free_maps here (mm_stack p) (free_maps here (mm_heap p) s);
          s2 = (if here then snd (page_unmap_at (v_addr (mm_code p)) (flags (mm_code p))
                                    (unat (mm_size (mm_code p))) s1) else s1);
          s3 = free_phys_block (p_addr (mm_code p)) (unat (mm_size (mm_code p))) s2
      in update_proc a (\<lambda>p. p\<lparr>mm_heap := [], mm_stack := []\<rparr>) s3) }"

definition process_die_safe :: "nat \<Rightarrow> 'a proc_st_scheme \<Rightarrow> (ctl \<times> 'a proc_st_scheme) option" where
  "process_die_safe a s = do {
     s1 \<leftarrow> process_free_all_memory a s;
     s2 \<leftarrow> update_proc a (\<lambda>p. p\<lparr>sigs := []\<rparr>) s1;
     p \<leftarrow> procs s2 a;
     s4 \<leftarrow> (if father p \<noteq> 0
            then do {
              (_, s3) \<leftarrow> add_signal (uint SIGCHLD) (father p) SIG_SOFT s2;
              pf \<leftarrow> procs s3 (father p);
              s4 \<leftarrow> update_proc a (\<lambda>p. p\<lparr>state := ZOMBIE\<rparr>) s3;
              (if sig_handler pf (unat SIGCHLD) \<noteq> Null then free_process a s4 else Some s4) }
            else do { s4 \<leftarrow> update_proc a (\<lambda>p. p\<lparr>state := ZOMBIE\<rparr>) s2; free_process a s4 });
     (if a = current s4 then Some (Resched, s4\<lparr>current := 0\<rparr>) else Some (Returned 0, s4)) }"

text \<open>For the current process \<^verbatim>\<open>process_die\<close> moves to the stack of the scheduler first.\<close>

definition process_die :: "nat \<Rightarrow> 'a proc_st_scheme \<Rightarrow> (ctl \<times> 'a proc_st_scheme) option" where
  "process_die a s = process_die_safe a s"

definition exit :: "nat \<Rightarrow> u8 \<Rightarrow> 'a proc_st_scheme \<Rightarrow> (ctl \<times> 'a proc_st_scheme) option" where
  "exit a status s = do {
     s1 \<leftarrow> update_proc a (\<lambda>p. p\<lparr>end_value := WAIT_EXITCODE (uint status) 0\<rparr>) s;
     process_die a s1 }"

subsection \<open>Waiting for a child\<close>

definition end_of_child :: "nat \<Rightarrow> nat \<Rightarrow> 'a proc_st_scheme \<Rightarrow> 'a proc_st_scheme option" where
  "end_of_child c f s = do {
     pc \<leftarrow> procs s c;
     s1 \<leftarrow> update_proc f (\<lambda>p. p\<lparr>waiting_return := end_value pc, waiting_pid := pid pc\<rparr>) s;
     s2 \<leftarrow> free_process c s1;
     update_proc f (\<lambda>p. p\<lparr>state := RUN\<rparr>) s2 }"

fun child_ended_loop :: "child list \<Rightarrow> nat \<Rightarrow> 'a proc_st_scheme \<Rightarrow> (int \<times> 'a proc_st_scheme) option" where
  "child_ended_loop [] a s = Some (- 1, s)"
| "child_ended_loop (c # ks) a s = do {
     p \<leftarrow> procs s (ch_p c);
     proc \<leftarrow> procs s a;
     (if waiting_pid proc = - 1 \<and> state p = ZOMBIE
      then do {
        s1 \<leftarrow> update_proc a (\<lambda>q. q\<lparr>waiting_pid := pid p\<rparr>) s;
        s2 \<leftarrow> end_of_child (ch_p c) a s1;
        Some (0, s2) }
      else if pid p = waiting_pid proc \<and> state p = ZOMBIE
      then do { s2 \<leftarrow> end_of_child (ch_p c) a s; Some (0, s2) }
      else child_ended_loop ks a s) }"

definition child_ended :: "nat \<Rightarrow> 'a proc_st_scheme \<Rightarrow> (int \<times> 'a proc_st_scheme) option" where
  "child_ended a s = do { p \<leftarrow> procs s a; child_ended_loop (children p) a s }"

text \<open>The child that \<^verbatim>\<open>process_waitpid\<close> starts waiting for: the first that fits; 0 when there is none.\<close>

fun find_child :: "int \<Rightarrow> child list \<Rightarrow> 'a proc_st_scheme \<Rightarrow> nat option" where
  "find_child n [] s = Some 0"
| "find_child n (c # ks) s = do {
     p \<leftarrow> procs s (ch_p c);
     (if n = - 1 \<and> state p = ZOMBIE then Some (ch_p c)
      else if pid p = n then Some (ch_p c)
      else find_child n ks s) }"

definition start_blocking :: "nat \<Rightarrow> int \<Rightarrow> 'a proc_st_scheme \<Rightarrow> (int \<times> int option \<times> 'a proc_st_scheme) option" where
  "start_blocking a n s = do {
     s1 \<leftarrow> update_proc a (\<lambda>p. p\<lparr>state := STOPPED, waiting_pid := n\<rparr>) (printk ''stopped'' s);
     Some (- EWOULDBLOCK, None, s1) }"

text \<open>The result is the value returned, the status when one is written, and the state.\<close>

definition process_waitpid ::
  "nat \<Rightarrow> int \<Rightarrow> u32 \<Rightarrow> 'a proc_st_scheme \<Rightarrow> (int \<times> int option \<times> 'a proc_st_scheme) option" where
  "process_waitpid a n opt s =
     (if n = 0 \<or> n < - 1 then Some (- EINVAL, None, s)
      else do {
        p \<leftarrow> procs s a;
        (if (waiting_pid p = n \<or> n = - 1) \<and> waiting_return p \<noteq> 0
         then Some (waiting_pid p, Some (waiting_return p),
                    s\<lparr>procs := (procs s)(a \<mapsto> p\<lparr>waiting_return := 0\<rparr>)\<rparr>)
         else do {
           c \<leftarrow> find_child n (children p) s;
           (if c \<noteq> 0
            then do {
              pc \<leftarrow> procs s c;
              (if state pc = ZOMBIE
               then do {
                 s1 \<leftarrow> end_of_child c a s;
                 p1 \<leftarrow> procs s1 a;
                 Some (waiting_pid p1, Some (waiting_return p1),
                       s1\<lparr>procs := (procs s1)(a \<mapsto> p1\<lparr>waiting_return := 0\<rparr>)\<rparr>) }
               else if opt AND WNOHANG = 0 then start_blocking a n s
               else Some (0, None, s)) }
            else if n \<le> 0 \<and> children p \<noteq> []
            then (if opt AND WNOHANG \<noteq> 0 then Some (0, None, s) else start_blocking a n s)
            else Some (- ECHILD, None, s)) }) })"

definition process_wait :: "nat \<Rightarrow> 'a proc_st_scheme \<Rightarrow> (int \<times> int option \<times> 'a proc_st_scheme) option" where
  "process_wait a s = process_waitpid a (- 1) 0 s"

subsection \<open>Delivering a signal\<close>

definition run_handler :: "khandler \<Rightarrow> nat \<Rightarrow> int \<Rightarrow> 'a proc_st_scheme \<Rightarrow> (ctl \<times> 'a proc_st_scheme) option" where
  "run_handler h a signum s =
     (case h of
        Sig_term \<Rightarrow> do { s1 \<leftarrow> update_proc a (\<lambda>p. p\<lparr>end_value := signum\<rparr>) s; process_die a s1 }
      | Sig_ign \<Rightarrow> Some (Returned 0, s)
      | Sig_core \<Rightarrow> do { s1 \<leftarrow> update_proc a (\<lambda>p. p\<lparr>end_value := signum AND WAIT_COREFLAG\<rparr>) s; process_die a s1 }
      | Sig_stop \<Rightarrow> do {
          s1 \<leftarrow> update_proc a (\<lambda>p. p\<lparr>end_value := WAIT_STOPCODE signum, state := STOPPED\<rparr>) s; Some (Returned 0, s1) }
      | Sig_cont \<Rightarrow> do {
          s1 \<leftarrow> update_proc a (\<lambda>p. p\<lparr>end_value := WAIT_CONTINUED, state := RUN\<rparr>) s; Some (Returned 0, s1) }
      | Child_ended \<Rightarrow> do { (r, s1) \<leftarrow> child_ended a s; Some (Returned r, s1) })"

definition list_del_sig :: "nat \<Rightarrow> process \<Rightarrow> process" where
  "list_del_sig node p = p\<lparr>sigs := filter (\<lambda>q. sq_node q \<noteq> node) (sigs p)\<rparr>"

definition call_handler :: "sig_queue \<Rightarrow> nat \<Rightarrow> process \<Rightarrow> 'a proc_st_scheme \<Rightarrow> (ctl \<times> 'a proc_st_scheme) option" where
  "call_handler sq a p s =
     (let n = unat (sig_handled sq) in
      if n \<ge> 34 then None
      else if sig_handler p n = Null \<or> sq_state sq AND ucast SIG_HARD \<noteq> 0
      then run_handler (kernel_handler ! n) a (int n) s
      else case sig_handler p n of
             Kernel h \<Rightarrow> run_handler h a (int n) s
           | Addr u \<Rightarrow>
               if u > KERNEL_POS then None
               else do {
                 s1 \<leftarrow> update_proc a (\<lambda>p. p\<lparr>sigs := map (\<lambda>q. if sq_node q = sq_node sq
                         then q\<lparr>sq_state := sq_state q OR SIG_EXECUTING\<rparr> else q) (sigs p)\<rparr>) s;
                 Some (Returned 0, s1) })"

definition send_signal :: "nat \<Rightarrow> 'a proc_st_scheme \<Rightarrow> (ctl \<times> 'a proc_st_scheme) option" where
  "send_signal a s = do {
     p \<leftarrow> procs s a;
     (case sigs p of
        [] \<Rightarrow> Some (Returned 0, s)
      | sq # _ \<Rightarrow>
          if state p = ZOMBIE then map_option (Pair (Returned 0)) (update_proc a (list_del_sig (sq_node sq)) s)
          else if sq_state sq = SIG_EXECUTING then Some (Returned 0, s)
          else do {
            (c, s1) \<leftarrow> call_handler sq a p s;
            (case c of
               Resched \<Rightarrow> Some (Resched, s1)
             | Returned _ \<Rightarrow> do {
                 p1 \<leftarrow> procs s1 a;
                 (if state p1 = ZOMBIE then Some (Returned 0, s1)
                  else map_option (Pair (Returned 0)) (update_proc a
                    (\<lambda>p. list_del_sig (sq_node sq) (p\<lparr>sig_avalaible := sig_avalaible p AND NOT (mask_of (sig_handled sq))\<rparr>)) s1)) }) }) }"

subsection \<open>The system calls\<close>

definition ptr_of :: "u32 \<Rightarrow> shandler" where
  "ptr_of u = (if u = 0 then Null else Addr u)"

definition old_handler :: "shandler \<Rightarrow> shandler" where
  "old_handler old =
     (case old of Null \<Rightarrow> Addr SIG_DFL
      | Kernel h \<Rightarrow> if h = Sig_ign then Addr SIG_IGN else Addr SIG_DFL
      | Addr u \<Rightarrow> if u \<ge> KERNEL_POS then Addr SIG_DFL else Addr u)"

definition signal ::
  "nat \<Rightarrow> int \<Rightarrow> u32 \<Rightarrow> 'a proc_st_scheme \<Rightarrow> (shandler \<times> 'a proc_st_scheme) option" where
  "signal a signum handler s =
     (if handler \<noteq> SIG_DFL \<and> handler \<noteq> SIG_IGN \<and> handler \<ge> KERNEL_POS then Some (Addr (of_int (- EINVAL)), s)
      else if handler = SIG_DFL \<and> (signum < 0 \<or> signum \<ge> 34) then None
      else if signum = uint SIGKILL \<or> signum = uint SIGSTOP then Some (Addr (of_int (- EINVAL)), s)
      else if signum < 0 \<or> signum \<ge> 34 then None
      else do {
        p \<leftarrow> procs s a;
        (let h = (if handler = SIG_DFL then Kernel (kernel_handler ! nat signum)
                  else if handler = SIG_IGN then Kernel Sig_ign else ptr_of handler)
         in Some (old_handler (sig_handler p (nat signum)),
                  s\<lparr>procs := (procs s)(a \<mapsto> p\<lparr>sig_handler := (sig_handler p)(nat signum := h)\<rparr>)\<rparr>)) })"

fun kill_loop :: "u32 \<Rightarrow> int \<Rightarrow> int \<Rightarrow> nat list \<Rightarrow> int \<Rightarrow> 'a proc_st_scheme \<Rightarrow> (int \<times> 'a proc_st_scheme) option" where
  "kill_loop u n sig [] err s = Some (err, s)"
| "kill_loop u n sig (a # as) err s = do {
     p \<leftarrow> procs s a;
     (if state p \<noteq> ZOMBIE \<and> (pid p = n \<or> n = - 1)
      then if u = 0 \<or> u = uid p
           then do { (err', s') \<leftarrow> add_signal sig a SIG_SOFT s; kill_loop u n sig as err' s' }
           else kill_loop u n sig as (if err = - ESRCH then - EPERM else err) s
      else kill_loop u n sig as err s) }"

definition kill :: "nat \<Rightarrow> int \<Rightarrow> int \<Rightarrow> 'a proc_st_scheme \<Rightarrow> (int \<times> 'a proc_st_scheme) option" where
  "kill a n sig s =
     (if n = 0 \<or> n < - 1 then Some (- EINVAL, s)
      else do { p \<leftarrow> procs s a; kill_loop (uid p) n sig (process_list s) (- ESRCH) s })"

end
