(* ===== verification/Process_Memory.thy ===== *)
theory Process_Memory
  imports Process
begin

text \<open>
  The memory of a process (\<^verbatim>\<open>kernel/process/process.c\<close>): the blocks of its heap and stack, its
  code, their mapping when the process is switched in, and the calls \<^verbatim>\<open>mmap\<close> and \<^verbatim>\<open>munmap\<close>. Pointers
  into the user part are 32-bit words and wrap. An operation that gets a null process pointer where
  the source does not test for it has no meaning (\<open>None\<close>).
\<close>

subsection \<open>Switching the memory of a process in and out\<close>

definition switch_flags :: "bool \<Rightarrow> u32 \<Rightarrow> u32" where
  "switch_flags add fl = (if \<not> add then fl AND NOT PAGE_PRESENT else fl)"

fun switch_maps :: "bool \<Rightarrow> map_memory list \<Rightarrow> 'a vm_st_scheme \<Rightarrow> int \<times> 'a vm_st_scheme" where
  "switch_maps add [] s = (0, s)"
| "switch_maps add (pm # pms) s =
     (case page_map_range (p_addr pm) (v_addr pm) (switch_flags add (flags pm)) (unat (mm_size pm)) s of
        (err, s') \<Rightarrow> if err \<noteq> 0 then (err, s') else switch_maps add pms s')"

definition process_memory_switch :: "nat \<Rightarrow> bool \<Rightarrow> 'a proc_st_scheme \<Rightarrow> (int \<times> 'a proc_st_scheme) option" where
  "process_memory_switch a add s =
     (if a = 0 then Some (- EINVAL, s)
      else do {
        p \<leftarrow> procs s a;
        Some (case switch_maps add (mm_heap p) s of (err, s1) \<Rightarrow>
          if err \<noteq> 0 then (err, s1)
          else case switch_maps add (mm_stack p) s1 of (err, s2) \<Rightarrow>
            if err \<noteq> 0 then (err, s2) else switch_maps add [mm_code p] s2) })"

subsection \<open>Adding a block\<close>

text \<open>The pages of \<open>n\<close> bytes that start at \<open>v\<close>: the start is rounded down, the length up.\<close>

definition pages_from :: "u32 \<Rightarrow> u32 \<Rightarrow> u32" where
  "pages_from v n = (let m = n + (v - (v AND PAGE_ADDR)) in
     if m mod 4096 \<noteq> 0 then drop_bit 12 m + 1 else drop_bit 12 m)"

definition process_memory_add ::
  "nat \<Rightarrow> u32 \<Rightarrow> u32 \<Rightarrow> u32 \<Rightarrow> u32 \<Rightarrow> 'a proc_st_scheme \<Rightarrow> (int \<times> 'a proc_st_scheme) option" where
  "process_memory_add a n v mflags pflags s =
     (let np = pages_from v n; va = v AND PAGE_ADDR in
      case page_get_phys va s of (phys, s1) \<Rightarrow>
      if phys \<noteq> 0 then Some (- ENOMEM, s1)
      else if mflags AND PAGE_PRESENT = 0 then Some (- EINVAL, s1)
      else case kmalloc sizeof_map_memory s1 of
        (None, s2) \<Rightarrow> Some (- ENOMEM, s2)
      | (Some node, s2) \<Rightarrow>
        (case get_phys_block (unat np) s2 of (pa, s3) \<Rightarrow>
         if pa = 0 then Some (- ENOMEM, kfree node s3)
         else let pm = \<lparr>mm_node = node, v_addr = va, p_addr = pa, mm_size = np, flags = mflags\<rparr>;
                  err2 = (\<lambda>e t. Some (e, kfree node (free_phys_block pa (unat np) t)))
              in case phys_bzero pa (unat np) s3 of (ret, s4) \<Rightarrow>
                 if ret \<noteq> 0 then err2 ret s4
                 else case (if pflags AND PROC_MEM_ADD_IMEDIATE \<noteq> 0
                            then page_map_range pa va mflags (unat np) s4 else (0, s4)) of (ret, s5) \<Rightarrow>
                   if ret \<noteq> 0 then err2 ret s5
                   else let pf = pflags AND NOT PROC_MEM_ADD_IMEDIATE in
                     if pf = PROC_MEM_ADD_HEAP
                     then map_option (Pair 0) (update_proc a (\<lambda>p. p\<lparr>mm_heap := pm # mm_heap p\<rparr>) s5)
                     else if pf = PROC_MEM_ADD_STACK
                     then map_option (Pair 0) (update_proc a (\<lambda>p. p\<lparr>mm_stack := pm # mm_stack p\<rparr>) s5)
                     else if pf = PROC_MEM_ADD_CODE
                     then map_option (\<lambda>t. (0, kfree node t)) (update_proc a (\<lambda>p. p\<lparr>mm_code := pm\<rparr>) s5)
                     else err2 (- EINVAL) s5))"

subsection \<open>Looking up an address\<close>

definition mmap_get_number_of_page :: "u32 \<Rightarrow> u32" where
  "mmap_get_number_of_page n = drop_bit 12 (if n mod 4096 \<noteq> 0 then n + 4096 else n)"

definition in_block :: "map_memory \<Rightarrow> u32 \<Rightarrow> bool" where
  "in_block pm addr \<longleftrightarrow> v_addr pm \<le> addr \<and> v_addr pm + push_bit 12 (mm_size pm) > addr"

definition mmap_get_block_l :: "map_memory list \<Rightarrow> u32 \<Rightarrow> map_memory option" where
  "mmap_get_block_l b addr = find (\<lambda>pm. in_block pm addr) b"

datatype place = In_stack | In_heap | In_code

definition mmap_get_block :: "process \<Rightarrow> u32 \<Rightarrow> (place \<times> map_memory) option" where
  "mmap_get_block p addr =
     (case mmap_get_block_l (mm_stack p) addr of
        Some pm \<Rightarrow> Some (In_stack, pm)
      | None \<Rightarrow> (case mmap_get_block_l (mm_heap p) addr of
          Some pm \<Rightarrow> Some (In_heap, pm)
        | None \<Rightarrow> if in_block (mm_code p) addr then Some (In_code, mm_code p) else None))"

definition mmap_is_free :: "process \<Rightarrow> u32 \<Rightarrow> bool" where
  "mmap_is_free p addr \<longleftrightarrow> mmap_get_block p addr = None"

subsection \<open>mmap\<close>

definition PROT_READ :: u32 where "PROT_READ = 1"
definition PROT_WRITE :: u32 where "PROT_WRITE = 2"
definition PROT_EXEC :: u32 where "PROT_EXEC = 1"
definition MAP_ANON :: u32 where "MAP_ANON = 1"
definition MAP_FIXED :: u32 where "MAP_FIXED = 2"
definition MAP_KERNEL_SPACE :: u32 where "MAP_KERNEL_SPACE = 8"

definition mmap_max_addr :: "u32 \<Rightarrow> u32" where
  "mmap_max_addr fl = (if fl AND MAP_KERNEL_SPACE = 0 then 0xC0000000 - 4096 else push_bit 12 (NOT 0))"

definition mmap_mflags :: "u32 \<Rightarrow> u32" where
  "mmap_mflags prot =
     PAGE_PRESENT OR (if prot AND PROT_READ \<noteq> 0 then PAGE_USER_SUPERVISOR else 0)
     OR (if prot AND PROT_WRITE \<noteq> 0 then PAGE_USER_SUPERVISOR OR PAGE_WRITE else 0)
     OR (if prot AND PROT_EXEC \<noteq> 0 then PAGE_USER_SUPERVISOR else 0)"

lemma unat_steps_left: "f + 1 \<noteq> n \<Longrightarrow> unat (n - (f + 1) - 1) < unat (n - f - 1 :: 'a :: len word)"
proof -
  let ?w = "n - f - 1"
  assume "f + 1 \<noteq> n"
  then have w: "?w \<noteq> 0" by (simp add: algebra_simps)
  have "unat (?w - 1) = unat ?w - 1" by (rule unat_minus_one [OF w])
  moreover have "unat ?w \<noteq> 0" using w by (metis unat_eq_zero)
  moreover have "?w - 1 = n - (f + 1) - 1" by (simp add: algebra_simps)
  ultimately show ?thesis by simp
qed

text \<open>The search with \<^verbatim>\<open>MAP_FIXED\<close>: true when all the pages from \<open>addr2\<close> on, up to the number wanted, are free.\<close>

function mmap_fixed_free :: "process \<Rightarrow> u32 \<Rightarrow> u32 \<Rightarrow> u32 \<Rightarrow> u32 \<Rightarrow> bool" where
  "mmap_fixed_free p max_addr n addr2 found =
     (if \<not> mmap_is_free p addr2 then False
      else if found + 1 = n then True
      else if addr2 + 4096 > max_addr then False
      else mmap_fixed_free p max_addr n (addr2 + 4096) (found + 1))"
  by pat_completeness auto
termination
proof (relation "measure (\<lambda>(p, m, n, a, f). unat (n - f - 1))", goal_cases)
  case (2 p max_addr n addr2 found)
  then show ?case by (simp only: in_measure prod.case) (rule unat_steps_left)
qed simp

declare mmap_fixed_free.simps [simp del]

text \<open>
  The search without \<^verbatim>\<open>MAP_FIXED\<close> goes down from \<open>already\<close>, once around through \<open>max_addr\<close>. The result is
  the lowest page of a free run of \<open>n\<close> pages, or nothing when the search is back where it began; the
  outer \<open>None\<close> is a search that does not end.
\<close>

partial_function (option) mmap_search ::
  "process \<Rightarrow> u32 \<Rightarrow> u32 \<Rightarrow> u32 \<Rightarrow> u32 \<Rightarrow> u32 \<Rightarrow> u32 option option" where
  "mmap_search p max_addr n already addr found =
     (let found1 = (if mmap_is_free p addr then found + 1 else 0) in
      if mmap_is_free p addr \<and> found1 = n then Some (Some addr)
      else let addr1 = (if addr - 4096 = 0 then max_addr else addr - 4096);
               found2 = (if addr - 4096 = 0 then 0 else found1)
           in if already = addr1 then Some None
              else mmap_search p max_addr n already addr1 found2)"

text \<open>The value is the address, or the negative error number as a pointer.\<close>

definition mmap ::
  "nat \<Rightarrow> u32 \<Rightarrow> u32 \<Rightarrow> u32 \<Rightarrow> u32 \<Rightarrow> int \<Rightarrow> u32 \<Rightarrow> 'a proc_st_scheme \<Rightarrow> (u32 \<times> 'a proc_st_scheme) option" where
  "mmap a addr n prot fl fd offset s =
     (let error = (\<lambda>e. Some (of_int (- e), s)) in
      if n = 0 \<or> addr AND PAGE_FLAG \<noteq> 0 then error EINVAL
      else if fl AND MAP_ANON = 0 \<or> fd \<noteq> - 1 \<or> offset \<noteq> 0 then error ENOSYS
      else do {
        p \<leftarrow> procs s a;
        (let np = mmap_get_number_of_page n;
             pflags = (if a = current s then PROC_MEM_ADD_HEAP OR PROC_MEM_ADD_IMEDIATE else PROC_MEM_ADD_HEAP);
             max_addr = mmap_max_addr fl;
             add = (\<lambda>addr. do {
               (err, s') \<leftarrow> process_memory_add a (push_bit 12 np) addr (mmap_mflags prot) pflags s;
               Some (if err \<noteq> 0 then of_int err else addr, s') })
         in if fl AND MAP_FIXED \<noteq> 0
            then if addr = 0 \<or> addr > max_addr \<or> addr + push_bit 12 np > max_addr + 4096 \<or> addr \<ge> addr + push_bit 12 np
                 then error EINVAL
                 else if mmap_fixed_free p max_addr np addr 0 then add addr else error EINVAL
            else let from = (if addr = 0 \<or> addr \<ge> max_addr then max_addr else addr) in do {
              r \<leftarrow> mmap_search p max_addr np from from 0;
              (case r of None \<Rightarrow> error ENOMEM | Some addr' \<Rightarrow> add addr') }) })"

subsection \<open>munmap\<close>

text \<open>The block found is shortened to its first pages or removed; what lies behind the pages unmapped becomes a block of its own.
  The code block is in no list: what would unlink it or link a block behind it has no meaning.\<close>

fun replace_block :: "nat \<Rightarrow> map_memory list \<Rightarrow> map_memory list \<Rightarrow> map_memory list" where
  "replace_block node r [] = []"
| "replace_block node r (pm # pms) = (if mm_node pm = node then r @ pms else pm # replace_block node r pms)"

definition munmap ::
  "nat \<Rightarrow> u32 \<Rightarrow> u32 \<Rightarrow> u32 \<Rightarrow> 'a proc_st_scheme \<Rightarrow> (int \<times> 'a proc_st_scheme) option" where
  "munmap a addr n fl s =
     (if n = 0 \<or> addr AND PAGE_FLAG \<noteq> 0 \<or> addr + n \<le> addr then Some (- EINVAL, s)
      else if addr + n > mmap_max_addr fl + 4096 then Some (- EINVAL, s)
      else do {
        p \<leftarrow> procs s a;
        (case mmap_get_block p addr of
           None \<Rightarrow> Some (- EINVAL, s)
         | Some (pl, block) \<Rightarrow>
           (let np = mmap_get_number_of_page n;
                size_before = drop_bit 12 (addr - v_addr block);
                np = (if mm_size block - size_before \<le> np then mm_size block - size_before else np);
                size_after = mm_size block - np - size_before;
                wrong = push_bit 12 size_after
            in case (if size_after \<noteq> 0 then kmalloc sizeof_map_memory s else (Some 0, s)) of
                 (None, s1) \<Rightarrow> Some (- ENOMEM, s1)
               | (Some node, s1) \<Rightarrow>
                 (case (if a = current s1 then page_map_range 0 (v_addr block + wrong) PAGE_NOTHING (unat np) s1 else (0, s1)) of
                    (ret, s2) \<Rightarrow>
                  if ret \<noteq> 0 then Some (ret, s2)
                  else let s3 = free_phys_block (p_addr block + wrong) (unat np) s2;
                           after = (if size_after \<noteq> 0
                             then [\<lparr>mm_node = node, v_addr = v_addr block + push_bit 12 (np + size_before),
                                    p_addr = p_addr block + push_bit 12 (np + size_before), mm_size = size_after, flags = flags block\<rparr>]
                             else []);
                           before = (if size_before = 0 then [] else [block\<lparr>mm_size := size_before\<rparr>]);
                           upd = replace_block (mm_node block) (before @ after);
                           s4 = (if size_before = 0 then kfree (mm_node block) s3 else s3)
                       in if pl = In_code \<and> (size_before = 0 \<or> size_after \<noteq> 0) then None
                          else map_option (Pair 0) (update_proc a (\<lambda>p. case pl of
                                   In_heap \<Rightarrow> p\<lparr>mm_heap := upd (mm_heap p)\<rparr>
                                 | In_stack \<Rightarrow> p\<lparr>mm_stack := upd (mm_stack p)\<rparr>
                                 | In_code \<Rightarrow> p\<lparr>mm_code := block\<lparr>mm_size := size_before\<rparr>\<rparr>) s4))) ) })"

end
