(* ===== verification/Scheduler.thy ===== *)
theory Scheduler
  imports Signal Process_Memory
begin

text \<open>
  The scheduler and the context switch (\<^verbatim>\<open>switch_process\<close> in \<^verbatim>\<open>boot/x86/IDT/idt.c\<close>,
  \<^verbatim>\<open>kernel/x86/interrupt_process.c\<close>). The stack of the switch, \<^verbatim>\<open>proc_switch_context\<close>, holds the frame that
  \<^verbatim>\<open>proc_load\<close> fills; what it held before is the field \<open>scratch\<close>. The assembly stubs that change the
  stack and return from the interrupt end the model of a switch: its outcome is the process that
  goes on with its frame, or a panic.
\<close>

record interupt =
  i_ds :: u32  i_es :: u32  i_fs :: u32  i_gs :: u32
  i_edi :: u32  i_esi :: u32  i_ebp :: u32  i_esp :: u32
  i_ebx :: u32  i_edx :: u32  i_ecx :: u32  i_eax :: u32
  int_no :: u32  err_code :: u32
  i_eip :: u32  i_cs :: u32  i_eflags :: u32  useresp :: u32  i_ss :: u32

record sched_st = proc_st +
  scratch :: interupt

definition GDT_SEG_KCODE :: u32 where "GDT_SEG_KCODE = 0x08"
definition GDT_SEG_KDATA :: u32 where "GDT_SEG_KDATA = 0x10"
definition GDT_SEG_KSTACK :: u32 where "GDT_SEG_KSTACK = 0x18"

definition proc_save :: "interupt \<Rightarrow> regs \<Rightarrow> regs" where
  "proc_save d r =
     (let r1 = r\<lparr>ds := ucast (i_ds d), es := ucast (i_es d), fs := ucast (i_fs d), gs := ucast (i_gs d),
                 edi := i_edi d, esi := i_esi d, ebp := i_ebp d, ebx := i_ebx d, edx := i_edx d, ecx := i_ecx d,
                 eax := i_eax d, eip := i_eip d, cs := ucast (i_cs d), eflags := i_eflags d\<rparr>
      in if i_cs d \<noteq> GDT_SEG_KCODE then r1\<lparr>esp := useresp d, ss := ucast (i_ss d)\<rparr> else r1\<lparr>esp := i_esp d\<rparr>)"

definition proc_load :: "regs \<Rightarrow> interupt \<Rightarrow> interupt" where
  "proc_load r d =
     (let d1 = d\<lparr>i_ds := ucast (ds r), i_es := ucast (es r), i_fs := ucast (fs r), i_gs := ucast (gs r),
                 i_edi := edi r, i_esi := esi r, i_ebp := ebp r, i_ebx := ebx r, i_edx := edx r, i_ecx := ecx r,
                 i_eax := eax r, i_eip := eip r, i_cs := ucast (cs r),
                 i_eflags := (eflags r OR 0x200) AND 0xFFFFBFFF\<rparr>
      in if i_cs d1 \<noteq> GDT_SEG_KCODE then d1\<lparr>useresp := esp r, i_ss := ucast (ss r)\<rparr> else d1\<lparr>i_esp := esp r\<rparr>)"

subsection \<open>Choosing the next process\<close>

text \<open>The node after a node of the list (the head after the last one), 0 when the list is empty.\<close>

definition after :: "nat \<Rightarrow> nat list \<Rightarrow> nat" where
  "after a l = (case dropWhile (\<lambda>b. b \<noteq> a) l of _ # b # _ \<Rightarrow> b | _ \<Rightarrow> hd l)"

definition next_process :: "nat \<Rightarrow> 'a proc_st_scheme \<Rightarrow> nat option" where
  "next_process cur s =
     (if cur = 0 then Some (case process_list s of [] \<Rightarrow> 0 | b # _ \<Rightarrow> b)
      else if cur \<in> set (process_list s) then Some (after cur (process_list s)) else None)"

text \<open>
  The loop \<^verbatim>\<open>select\<close>: it goes on over processes that neither run nor have a signal, until it is back at the
  one it began with. It may run forever, or start from a process that is not in the list: \<open>None\<close>.
\<close>

partial_function (option) select_loop ::
  "'a proc_st_scheme \<Rightarrow> nat \<Rightarrow> nat \<Rightarrow> bool \<Rightarrow> (nat \<times> bool) option" where
  "select_loop s cur prev more_one =
     Option.bind (next_process cur s) (\<lambda>nxt.
       if nxt = 0 then Some (0, more_one)
       else Option.bind (procs s nxt) (\<lambda>p.
         if state p \<noteq> RUN \<and> sigs p = []
         then if nxt = prev then Some (0, more_one \<or> state p \<noteq> ZOMBIE)
              else select_loop s nxt prev (more_one \<or> state p \<noteq> ZOMBIE)
         else Some (nxt, more_one)))"

subsection \<open>The switch\<close>

datatype sched_out = Resume nat interupt | Panic string

text \<open>One pass through \<^verbatim>\<open>switch_process\<close>, \<^verbatim>\<open>proc_switch\<close> and \<^verbatim>\<open>proc_switch_p\<close>: done, or again with a frame to save.\<close>

datatype pass = Done sched_out | Again "interupt option"

definition kern_panic :: "string \<Rightarrow> 'a sched_st_scheme \<Rightarrow> (pass \<times> 'a sched_st_scheme) option" where
  "kern_panic msg s =
     Some (Done (Panic msg), printk ''================================================================================'' (printk msg s))"

definition proc_switch_p :: "nat \<Rightarrow> nat \<Rightarrow> 'a sched_st_scheme \<Rightarrow> (pass \<times> 'a sched_st_scheme) option" where
  "proc_switch_p old new s = do {
     (e1, s1) \<leftarrow> (if old \<noteq> 0 then process_memory_switch old False s else Some (0, s));
     (if e1 \<noteq> 0 then kern_panic ''error switch process: unmap'' s1
      else do {
        p1 \<leftarrow> procs s1 new;
        (let data = proc_load (pregs p1) (scratch s1) in do {
           (e2, s2) \<leftarrow> process_memory_switch new True s1;
           (if e2 \<noteq> 0 then kern_panic ''error switch process: map'' s2
            else do {
              p2 \<leftarrow> procs s2 new;
              (c, s3) \<leftarrow> (if sigs p2 \<noteq> [] then send_signal new s2 else Some (Returned 0, s2));
              (case c of
                 Resched \<Rightarrow> Some (Again None, s3)
               | Returned _ \<Rightarrow> do {
                   p3 \<leftarrow> procs s3 new;
                   Some (if state p3 \<noteq> RUN then (Again (Some data), s3) else (Done (Resume new data), s3)) }) }) }) }) }"

definition proc_switch ::
  "interupt option \<Rightarrow> nat \<Rightarrow> nat \<Rightarrow> 'a sched_st_scheme \<Rightarrow> (pass \<times> 'a sched_st_scheme) option" where
  "proc_switch data old new s = do {
     s1 \<leftarrow> (if old \<noteq> 0
            then do { d \<leftarrow> data; update_proc old (\<lambda>p. p\<lparr>pregs := proc_save d (pregs p)\<rparr>) s }
            else Some s);
     proc_switch_p old (if new = 0 then process_hlt s1 else new) s1 }"

definition switch_pass :: "interupt option \<Rightarrow> 'a sched_st_scheme \<Rightarrow> (pass \<times> 'a sched_st_scheme) option" where
  "switch_pass data s = do {
     (cur, more_one) \<leftarrow> select_loop s (current s) (current s) False;
     (if \<not> more_one \<and> cur = 0 then kern_panic ''No more task'' s
      else proc_switch data (current s) cur (s\<lparr>current := cur\<rparr>)) }"

partial_function (option) switch_process ::
  "interupt option \<Rightarrow> 'a sched_st_scheme \<Rightarrow> (sched_out \<times> 'a sched_st_scheme) option" where
  "switch_process data s =
     Option.bind (switch_pass data s) (\<lambda>(r, s').
       case r of Done out \<Rightarrow> Some (out, s') | Again d \<Rightarrow> switch_process d s')"

end
