(* ===== verification/Process_Create.thy ===== *)
theory Process_Create
  imports Scheduler
begin

text \<open>
  The creation of processes (\<^verbatim>\<open>kernel/process/copy_process.c\<close>, \<^verbatim>\<open>fork.c\<close>, \<^verbatim>\<open>init_process.c\<close>, \<^verbatim>\<open>process_ini_kern\<close>
  in \<^verbatim>\<open>process.c\<close>, \<^verbatim>\<open>kernel/x86/hlt.c\<close>). Where the two local arrays of \<^verbatim>\<open>process_copy_mem_block\<close> lie on the
  kernel stack is decided by the compiler and kept in the fields \<open>swap_at\<close> and \<open>swap2_at\<close>.
\<close>

record fork_st = sched_st +
  swap_at :: u32
  swap2_at :: u32

subsection \<open>Copying the memory of a process\<close>

text \<open>\<^verbatim>\<open>memcpy(page_swap, page_swap2, 4096)\<close>: from the page one window shows to the page the other shows.\<close>

definition copy_window :: "'a vm_st_scheme \<Rightarrow> 'a vm_st_scheme" where
  "copy_window s =
     (let f = window_frame (page_swap (lay s)) s; g = window_frame (page_swap2 (lay s)) s
      in s\<lparr>pmem := (pmem s)(f := (\<lambda>w. if w < 1024 then pmem s g w else pmem s f w))\<rparr>)"

fun copy_pages :: "nat \<Rightarrow> u32 \<Rightarrow> u32 \<Rightarrow> 'a vm_st_scheme \<Rightarrow> 'a vm_st_scheme" where
  "copy_pages 0 dst src s = s"
| "copy_pages (Suc n) dst src s =
     (let s1 = snd (access_table_with_physical (page_swap (lay s)) dst s);
          s2 = snd (access_table_with_physical (page_swap2 (lay s1)) src s1)
      in copy_pages n dst src (copy_window s2))"

text \<open>The new block, \<open>None\<close> when there is no physical memory for it.\<close>

definition process_copy_mem_block ::
  "nat \<Rightarrow> map_memory \<Rightarrow> 'a fork_st_scheme \<Rightarrow> map_memory option \<times> 'a fork_st_scheme" where
  "process_copy_mem_block node pm s =
     (case get_phys_block (unat (mm_size pm)) s of (pa, s1) \<Rightarrow>
      if pa = 0 then (None, s1)
      else case page_get_phys (swap_at s1) s1 of (_, s2) \<Rightarrow>
        case page_get_phys (swap2_at s2) s2 of (p_swap_addr, s3) \<Rightarrow>
        let s4 = copy_pages (unat (mm_size pm * 4096) div 4096) pa (p_addr pm) s3;
            s5 = snd (page_map p_swap_addr (swap_at s4) (flags pm) s4);
            s6 = snd (page_map p_swap_addr (swap2_at s5) (flags pm) s5)
        in (Some \<lparr>mm_node = node, v_addr = v_addr pm, p_addr = pa, mm_size = mm_size pm, flags = flags pm\<rparr>, s6))"

text \<open>
  The loop over the heap or the stack: each copy goes to the front of the list that \<open>put\<close> extends.
  The flag says whether the loop came to the end.
\<close>

fun copy_maps ::
  "map_memory list \<Rightarrow> (map_memory \<Rightarrow> process \<Rightarrow> process) \<Rightarrow> nat \<Rightarrow> 'a fork_st_scheme \<Rightarrow> (bool \<times> 'a fork_st_scheme) option" where
  "copy_maps [] put neww s = Some (True, s)"
| "copy_maps (pm # pms) put neww s =
     (case kmalloc sizeof_map_memory s of
        (None, s1) \<Rightarrow> Some (False, s1)
      | (Some node, s1) \<Rightarrow>
          (case process_copy_mem_block node pm s1 of
             (None, s2) \<Rightarrow> Some (False, kfree node s2)
           | (Some npm, s2) \<Rightarrow> do { s3 \<leftarrow> update_proc neww (put npm) s2; copy_maps pms put neww s3 }))"

abbreviation push_heap :: "map_memory \<Rightarrow> process \<Rightarrow> process" where
  "push_heap pm p \<equiv> p\<lparr>mm_heap := pm # mm_heap p\<rparr>"

abbreviation push_stack :: "map_memory \<Rightarrow> process \<Rightarrow> process" where
  "push_stack pm p \<equiv> p\<lparr>mm_stack := pm # mm_stack p\<rparr>"

fun copy_signals :: "sig_queue list \<Rightarrow> nat \<Rightarrow> 'a proc_st_scheme \<Rightarrow> 'a proc_st_scheme option" where
  "copy_signals [] neww s = Some s"
| "copy_signals (q # qs) neww s = do {
     (_, s1) \<leftarrow> add_signal (sint (sig_handled q)) neww (scast (sq_state q)) s;
     copy_signals qs neww s1 }"

fun insert_after :: "nat \<Rightarrow> nat \<Rightarrow> nat list \<Rightarrow> nat list" where
  "insert_after a n [] = []"
| "insert_after a n (b # l) = (if b = a then b # n # l else b # insert_after a n l)"

text \<open>The last part of \<^verbatim>\<open>copy_process\<close>: the child gets its fields and enters the two lists.\<close>

definition adopt :: "nat \<Rightarrow> nat \<Rightarrow> nat \<Rightarrow> 'a proc_st_scheme \<Rightarrow> 'a proc_st_scheme option" where
  "adopt a neww node s = do {
     p \<leftarrow> procs s a;
     s1 \<leftarrow> update_proc neww (\<lambda>q. q\<lparr>state := state p, pregs := pregs p, uid := uid p, children := [],
              father := a, end_value := 0, waiting_pid := 0\<rparr>) s;
     s2 \<leftarrow> update_proc a (\<lambda>q. q\<lparr>children := \<lparr>ch_node = node, ch_p = neww\<rparr> # children q\<rparr>) s1;
     (if a \<in> set (process_list s2) then Some (s2\<lparr>process_list := insert_after a neww (process_list s2)\<rparr>) else None) }"

definition copy_process :: "nat \<Rightarrow> nat \<Rightarrow> 'a fork_st_scheme \<Rightarrow> (int \<times> 'a fork_st_scheme) option" where
  "copy_process a neww s = do {
     ((err, n), s1) \<leftarrow> process_alloc_pid s;
     s2 \<leftarrow> update_proc neww (\<lambda>q. q\<lparr>pid := n\<rparr>) s1;
     (if err < 0 then Some (- 1, s2)
      else do {
        p \<leftarrow> procs s2 a;
        (ok, s3) \<leftarrow> copy_maps (mm_heap p) push_heap neww s2;
        (if \<not> ok then Some (- 1, s3)
         else do {
           (ok, s4) \<leftarrow> copy_maps (mm_stack p) push_stack neww s3;
           (if \<not> ok then Some (- 1, s4)
            else case process_copy_mem_block 0 (mm_code p) s4 of
                (None, s5) \<Rightarrow> Some (- 1, s5)
              | (Some code, s5) \<Rightarrow> do {
                  s6 \<leftarrow> update_proc neww (\<lambda>q. q\<lparr>mm_code := code\<rparr>) s5;
                  s7 \<leftarrow> copy_signals (sigs p) neww s6;
                  (case kmalloc sizeof_children s7 of
                     (None, s8) \<Rightarrow> Some (- 1, s8)
                   | (Some node, s8) \<Rightarrow> do { s9 \<leftarrow> adopt a neww node s8; Some (0, s9) }) }) }) }) }"

definition process_dup :: "nat \<Rightarrow> 'a fork_st_scheme \<Rightarrow> (nat \<times> 'a fork_st_scheme) option" where
  "process_dup a s =
     (case process_new s of (neww, s1) \<Rightarrow>
      if neww = 0 then Some (0, s1)
      else do {
        (err, s2) \<leftarrow> copy_process a neww s1;
        (if err < 0 then do { s3 \<leftarrow> free_process neww s2; Some (0, s3) } else Some (neww, s2)) })"

definition fork :: "nat \<Rightarrow> 'a fork_st_scheme \<Rightarrow> (int \<times> 'a fork_st_scheme) option" where
  "fork a s =
     (case process_new s of (neww, s1) \<Rightarrow>
      if neww = 0 then Some (- ENOMEM, s1)
      else do {
        (err, s2) \<leftarrow> copy_process a neww s1;
        (if err < 0 then do { s3 \<leftarrow> free_process neww s2; Some (err, s3) }
         else do {
           s3 \<leftarrow> update_proc neww (\<lambda>q. q\<lparr>father := a\<rparr>) s2;
           q \<leftarrow> procs s3 neww;
           Some (pid q, s3) }) })"

subsection \<open>The first processes\<close>

text \<open>Bytes through the page tables: reading or writing a page that is not mapped has no meaning.\<close>

definition virt_read :: "u32 \<Rightarrow> 'a vm_st_scheme \<Rightarrow> u8 option" where
  "virt_read v s = map_option (\<lambda>f. ucast (drop_bit (8 * (unat v mod 4)) (pmem s f (unat v mod 4096 div 4)))) (translate s v)"

definition virt_write :: "u32 \<Rightarrow> u8 \<Rightarrow> 'a vm_st_scheme \<Rightarrow> 'a vm_st_scheme option" where
  "virt_write v b s = map_option (\<lambda>f.
     let w = unat v mod 4096 div 4; k = 8 * (unat v mod 4)
     in s\<lparr>pmem := (pmem s)(f := (pmem s f)(w :=
          (pmem s f w AND NOT (push_bit k 0xFF)) OR push_bit k (ucast b)))\<rparr>) (translate s v)"

fun virt_memcpy :: "u32 \<Rightarrow> u32 \<Rightarrow> nat \<Rightarrow> 'a vm_st_scheme \<Rightarrow> 'a vm_st_scheme option" where
  "virt_memcpy dst src 0 s = Some s"
| "virt_memcpy dst src (Suc n) s = do {
     b \<leftarrow> virt_read src s;
     s1 \<leftarrow> virt_write dst b s;
     virt_memcpy (dst + 1) (src + 1) n s1 }"

definition kernel_regs :: "u32 \<Rightarrow> u32 \<Rightarrow> regs \<Rightarrow> regs" where
  "kernel_regs ip sp r = r\<lparr>esp := sp, eip := ip, cs := ucast GDT_SEG_KCODE, ss := ucast GDT_SEG_KSTACK,
     ds := ucast GDT_SEG_KDATA, es := ucast GDT_SEG_KDATA, fs := ucast GDT_SEG_KDATA, gs := ucast GDT_SEG_KDATA\<rparr>"

definition user_flags :: u32 where
  "user_flags = PAGE_PRESENT OR PAGE_WRITE OR PAGE_USER_SUPERVISOR"

definition process_ini_kern :: "u32 \<Rightarrow> u32 \<Rightarrow> u32 \<Rightarrow> 'a sched_st_scheme \<Rightarrow> (nat \<times> 'a sched_st_scheme) option" where
  "process_ini_kern v function n s =
     (case process_new s of (a, s1) \<Rightarrow>
      if a = 0 then Some (0, s1)
      else let give_up = (\<lambda>t. do { t1 \<leftarrow> free_process a t; Some (0, t1) }) in do {
        ((err, i), s2) \<leftarrow> process_alloc_pid s1;
        s3 \<leftarrow> update_proc a (\<lambda>p. p\<lparr>pid := i\<rparr>) s2;
        (if err \<noteq> 0 then give_up s3
         else do {
           (e1, s4) \<leftarrow> process_memory_add a n v user_flags (PROC_MEM_ADD_IMEDIATE OR PROC_MEM_ADD_CODE) s3;
           (if e1 \<noteq> 0 then give_up s4
            else do {
              s5 \<leftarrow> virt_memcpy (v AND PAGE_ADDR) (function AND PAGE_ADDR) (unat (n + (v AND PAGE_FLAG))) s4;
              (e2, s6) \<leftarrow> process_memory_add a 4096 (0xC0000000 - 4096) user_flags
                             (PROC_MEM_ADD_IMEDIATE OR PROC_MEM_ADD_STACK) s5;
              (if e2 \<noteq> 0 then give_up s6
               else do {
                 s7 \<leftarrow> update_proc a (\<lambda>p. p\<lparr>pregs := kernel_regs v (0xC0000000 - 0x10) zero_regs\<rparr>) s6;
                 Some (a, s7\<lparr>process_list := a # process_list s7\<rparr>) }) }) }) })"

definition process_hlt_create :: "u32 \<Rightarrow> 'a sched_st_scheme \<Rightarrow> (nat \<times> 'a sched_st_scheme) option" where
  "process_hlt_create process_hlt_user s =
     (case kmalloc 4096 s of
        (None, s1) \<Rightarrow> Some (0, s1)
      | (Some stack, s1) \<Rightarrow>
          (case process_new s1 of (a, s2) \<Rightarrow>
           if a = 0 then Some (0, kfree stack s2)
           else do {
             s3 \<leftarrow> update_proc a (\<lambda>p. p\<lparr>pregs := kernel_regs process_hlt_user (of_nat stack + 4096) (pregs p)\<rparr>) s2;
             Some (a, s3) }))"

text \<open>\<open>init\<close> and \<open>process_hlt_user\<close> are the addresses of the two programs.\<close>

definition init_process :: "u32 \<Rightarrow> u32 \<Rightarrow> 'a sched_st_scheme \<Rightarrow> (string option \<times> 'a sched_st_scheme) option" where
  "init_process init process_hlt_user s = do {
     (w, s1) \<leftarrow> process_ini_kern init (init + 0xC0000000) 4096 s;
     (if w = 0 then Some (None, s1)
      else do {
        (_, s2) \<leftarrow> process_memory_switch w False s1;
        (h, s3) \<leftarrow> process_hlt_create process_hlt_user s2;
        (let s4 = s3\<lparr>process_hlt := h\<rparr> in
         if h = 0 then Some (Some ''Can not setup process'', s4) else Some (None, printk ''Process'' s4)) }) }"

end
