(* ===== verification/Process_Table.thy ===== *)
theory Process_Table
  imports Signal Heap_Frame Kmalloc_Correct
begin

text \<open>
  What the process operations do to the process table: identifiers are unique, a signal reaches
  exactly the processes its sender may reach, an exit status travels to the process that
  waits for it, and where a process structure is read after it was freed.
\<close>

subsection \<open>The table survives the layers below\<close>

lemma heap_frame_proc:
  assumes "heap_frame s s'"
  shows "procs s' = procs s" "process_list s' = process_list s" "current s' = current s"
    "process_hlt s' = process_hlt s" "last_pid s' = last_pid s"
  using assms by (cases s; cases s'; simp add: heap_frame_def)+

lemmas proc_kfree [simp] = heap_frame_proc [OF heap_frame_kfree]
lemmas proc_page_unmap_at [simp] = heap_frame_proc [OF heap_frame_page_unmap_at]
lemmas proc_free_phys_block [simp] =
  heap_frame_proc [OF heap_frame_free_phys_block [THEN iffD2, OF heap_frame_refl]]
lemmas proc_kmalloc = heap_frame_proc [OF heap_frame_kmalloc]

lemma proc_free_maps [simp]:
  "procs (free_maps b l s) = procs s" "process_list (free_maps b l s) = process_list s"
  "current (free_maps b l s) = current s"
  by (induction b l s rule: free_maps.induct) (auto simp: Let_def)

lemma update_proc_eq:
  "update_proc a f s = Some s' \<longleftrightarrow> (\<exists>p. procs s a = Some p \<and> s' = s\<lparr>procs := (procs s)(a \<mapsto> f p)\<rparr>)"
  by (auto simp: update_proc_def)

lemma update_proc_None: "update_proc a f s = None \<longleftrightarrow> procs s a = None"
  by (simp add: update_proc_def)

lemma update_procE:
  assumes "update_proc a f s = Some s'"
  obtains p where "procs s a = Some p" "procs s' = (procs s)(a \<mapsto> f p)" "process_list s' = process_list s"
    "current s' = current s"
  using assms by (auto simp: update_proc_eq)

subsection \<open>Process identifiers\<close>

lemma alloc_pid_result:
  assumes "alloc_pid_loop taken t l = ((e, n), l')" "1 \<le> l" "l \<le> 0xffe \<or> l = 0xfff \<and> t \<le> 0xffe"
  shows "1 \<le> l' \<and> l' \<le> 0xfff \<and> (e = 0 \<and> n \<notin> set taken \<and> 1 \<le> n \<and> n \<le> 0xfff \<or> e = - EAGAIN)"
  using assms
proof (induction taken t l arbitrary: e n l' rule: alloc_pid_loop.induct)
  case (1 taken t l)
  let ?l = "if l + 1 \<ge> PROC_MAX_PID then PROC_MIN_PID else l + 1"
  have l: "1 \<le> ?l" "?l \<le> 0xffe" using 1(3) by (auto simp: PROC_MAX_PID_def PROC_MIN_PID_def)
  consider "t > PROC_MAX_PID - PROC_MIN_PID" | "\<not> t > PROC_MAX_PID - PROC_MIN_PID" "l \<in> set taken"
    | "\<not> t > PROC_MAX_PID - PROC_MIN_PID" "l \<notin> set taken" by blast
  then show ?case
  proof cases
    case 1
    then show ?thesis using "1.prems"
      by (subst (asm) alloc_pid_loop.simps) (auto simp: PROC_MAX_PID_def PROC_MIN_PID_def)
  next
    case 2
    then have "alloc_pid_loop taken (t + 1) ?l = ((e, n), l')" using "1.prems"(1)
      by (subst (asm) alloc_pid_loop.simps) (simp add: Let_def)
    then show ?thesis using "1.IH" [OF 2(1) refl 2(2)] l by blast
  next
    case 3
    then show ?thesis using "1.prems" l
      by (subst (asm) alloc_pid_loop.simps) (auto simp: Let_def)
  qed
qed

lemma alloc_pid_exhausted:
  assumes "alloc_pid_loop taken t l = ((e, n), l')" "1 \<le> l" "l \<le> 0xffe" "e \<noteq> 0" "0 \<le> i" "i < 0xfff - t"
  shows "(l - 1 + i) mod 4094 + 1 \<in> set taken"
  using assms
proof (induction taken t l arbitrary: e n l' i rule: alloc_pid_loop.induct)
  case (1 taken t l)
  let ?l = "if l + 1 \<ge> PROC_MAX_PID then PROC_MIN_PID else l + 1"
  have t: "\<not> t > PROC_MAX_PID - PROC_MIN_PID" using 1(6,7) by (simp add: PROC_MAX_PID_def PROC_MIN_PID_def)
  have l: "l \<in> set taken" and run: "alloc_pid_loop taken (t + 1) ?l = ((e, n), l')"
    using 1(2,5) t by (subst (asm) alloc_pid_loop.simps; auto simp: Let_def split: if_splits)+
  have l': "?l = l mod 4094 + 1"
    using 1(3,4) by (cases "l = 0xffe") (auto simp: PROC_MAX_PID_def PROC_MIN_PID_def)
  show ?case
  proof (cases "i = 0")
    case True
    then show ?thesis using l 1(3,4) by simp
  next
    case False
    have "(?l - 1 + (i - 1)) mod 4094 + 1 \<in> set taken"
      by (rule 1(1) [OF t refl l run])
         (use 1(3,4,5,6,7) False in \<open>auto simp: PROC_MAX_PID_def PROC_MIN_PID_def\<close>)
    moreover have "(?l - 1 + (i - 1)) mod 4094 = (l - 1 + i) mod 4094"
      unfolding l' by (simp add: mod_add_left_eq) (simp add: algebra_simps)
    ultimately show ?thesis by simp
  qed
qed

lemma alloc_pid_fails_when_full:
  assumes "alloc_pid_loop taken 0 l = ((e, n), l')" "1 \<le> l" "l \<le> 0xfff" "e \<noteq> 0" "1 \<le> k" "k \<le> 0xffe"
  shows "k \<in> set taken"
proof (cases "l = 0xfff")
  case True
  then have "alloc_pid_loop taken 1 1 = ((e, n), l')"
    using assms(1,4) by (subst (asm) alloc_pid_loop.simps) (auto simp: PROC_MAX_PID_def PROC_MIN_PID_def split: if_splits)
  from alloc_pid_exhausted [OF this, of "k - 1"] show ?thesis using assms by simp
next
  case False
  have "(l - 1 + (k - l) mod 4094) mod 4094 + 1 \<in> set taken"
    by (rule alloc_pid_exhausted [OF assms(1)]) (use assms False in auto)
  moreover have "(l - 1 + (k - l) mod 4094) mod 4094 = k - 1"
    using assms(5,6) by (simp add: mod_add_right_eq)
  ultimately show ?thesis by simp
qed

lemma those_set:
  "those (map f xs) = Some ys \<Longrightarrow> (\<forall>x \<in> set xs. \<exists>y \<in> set ys. f x = Some y) \<and> (\<forall>y \<in> set ys. \<exists>x \<in> set xs. f x = Some y)"
proof (induction xs arbitrary: ys)
  case (Cons x xs)
  then obtain z zs where "f x = Some z" "those (map f xs) = Some zs" "ys = z # zs"
    by (auto split: option.splits)
  with Cons.IH show ?case by (metis list.set_intros set_ConsD)
qed simp

lemma process_alloc_pid_facts:
  assumes "process_alloc_pid s = Some ((err, n), s')" "1 \<le> last_pid s" "last_pid s \<le> 0xfff"
  shows "1 \<le> last_pid s' \<and> last_pid s' \<le> 0xfff \<and>
    (if err = 0
     then 1 \<le> n \<and> n \<le> 0xfff \<and> (\<nexists>a p. a \<in> set (process_list s) \<and> procs s a = Some p \<and> pid p = n)
     else err = - EAGAIN \<and> (\<forall>k. 1 \<le> k \<and> k \<le> 0xffe \<longrightarrow>
            (\<exists>a p. a \<in> set (process_list s) \<and> procs s a = Some p \<and> pid p = k)))"
proof -
  obtain taken l' where u: "pids s = Some taken" "alloc_pid_loop taken 0 (last_pid s) = ((err, n), l')" "s' = s\<lparr>last_pid := l'\<rparr>"
    using assms(1) by (cases "alloc_pid_loop (the (pids s)) 0 (last_pid s)")
      (auto simp: process_alloc_pid_def bind_eq_Some_conv)
  have taken: "k \<in> set taken \<longleftrightarrow> (\<exists>a p. a \<in> set (process_list s) \<and> procs s a = Some p \<and> pid p = k)" for k
    using those_set [OF u(1) [unfolded pids_def]] by fastforce
  have r: "1 \<le> l' \<and> l' \<le> 0xfff \<and> (err = 0 \<and> n \<notin> set taken \<and> 1 \<le> n \<and> n \<le> 0xfff \<or> err = - EAGAIN)"
    by (rule alloc_pid_result [OF u(2) assms(2)]) (use assms(3) in auto)
  have "EAGAIN \<noteq> 0" by (simp add: EAGAIN_def)
  with r show ?thesis
    using alloc_pid_fails_when_full [OF u(2) assms(2,3)] taken
    by (auto simp: u(3))
qed

text \<open>The candidates in the order in which they are tried, and that the loop takes the first free one within 4095 tries.\<close>

definition next_pid :: "int \<Rightarrow> int" where
  "next_pid l = (if l + 1 \<ge> PROC_MAX_PID then PROC_MIN_PID else l + 1)"

definition pid_taken :: "'a proc_st_scheme \<Rightarrow> int \<Rightarrow> bool" where
  "pid_taken s k \<longleftrightarrow> (\<exists>a p. a \<in> set (process_list s) \<and> procs s a = Some p \<and> pid p = k)"

lemma alloc_pid_first_free:
  assumes "alloc_pid_loop us t l = ((e, n), l')" "0 \<le> t" "t \<le> 4095"
  shows "\<exists>j. n = (next_pid ^^ j) l \<and> (\<forall>i < j. (next_pid ^^ i) l \<in> set us) \<and>
    (if e = 0 then t + int j < 4095 \<and> n \<notin> set us else t + int j = 4095)"
  using assms
proof (induction us t l rule: alloc_pid_loop.induct)
  case (1 us t l)
  have max: "PROC_MAX_PID - PROC_MIN_PID = 4094" by (simp add: PROC_MAX_PID_def PROC_MIN_PID_def)
  show ?case
  proof (cases "t \<le> 4094 \<and> l \<in> set us")
    case False
    then show ?thesis
      using "1.prems" max by (subst (asm) alloc_pid_loop.simps) (auto simp: Let_def EAGAIN_def split: if_splits intro!: exI [of _ 0])
  next
    case True
    then have "alloc_pid_loop us (t + 1) (next_pid l) = ((e, n), l')"
      using "1.prems"(1) max by (subst (asm) alloc_pid_loop.simps) (auto simp: Let_def next_pid_def split: if_splits)
    with "1.IH" [OF _ next_pid_def] True "1.prems" max
    have "\<exists>j. n = (next_pid ^^ j) (next_pid l) \<and> (\<forall>i < j. (next_pid ^^ i) (next_pid l) \<in> set us) \<and>
        (if e = 0 then t + 1 + int j < 4095 \<and> n \<notin> set us else t + 1 + int j = 4095)" by simp
    then obtain j where j: "n = (next_pid ^^ j) (next_pid l)" "\<forall>i < j. (next_pid ^^ i) (next_pid l) \<in> set us"
        "if e = 0 then t + 1 + int j < 4095 \<and> n \<notin> set us else t + 1 + int j = 4095"
      by blast
    have "(next_pid ^^ i) l \<in> set us" if "i < Suc j" for i
      using that j(2) True by (cases i) (simp_all add: funpow_swap1)
    moreover have "n = (next_pid ^^ Suc j) l" using j(1) by (simp add: funpow_swap1)
    ultimately show ?thesis using j(3) by (intro exI [of _ "Suc j"]) (auto split: if_splits)
  qed
qed

text \<open>
  C16. When the list holds processes only and the static counter is between 1 and 4095, \<^verbatim>\<open>process_alloc_pid\<close> returns, and changes nothing but that counter, which
  stays in this range for the next call. It returns the first identifier that no process of the list has, going on from the counter in
  circular order, after at most 4095 tries; or \<^verbatim>\<open>-EAGAIN\<close>, and this only when all the identifiers from 1 to 4094 are taken.
\<close>

theorem process_alloc_pid_unique:
  assumes "set (process_list s) \<subseteq> dom (procs s)" "1 \<le> last_pid s" "last_pid s \<le> 0xfff"
  shows "\<exists>err n l. process_alloc_pid s = Some ((err, n), s\<lparr>last_pid := l\<rparr>) \<and> 1 \<le> l \<and> l \<le> 0xfff \<and>
    (if err = 0
     then 1 \<le> n \<and> n \<le> 0xfff \<and> \<not> pid_taken s n \<and>
       (\<exists>j < 4095. n = (next_pid ^^ j) (last_pid s) \<and> (\<forall>i < j. pid_taken s ((next_pid ^^ i) (last_pid s))))
     else err = - EAGAIN \<and> (\<forall>k. 1 \<le> k \<and> k \<le> 0xffe \<longrightarrow> pid_taken s k))"
proof -
  have "pids s \<noteq> None" unfolding pids_def by (rule those_not_None) (use assms(1) in auto)
  then obtain u where u: "pids s = Some u" by blast
  obtain err n l where r: "alloc_pid_loop u 0 (last_pid s) = ((err, n), l)" by (metis surj_pair)
  have run: "process_alloc_pid s = Some ((err, n), s\<lparr>last_pid := l\<rparr>)" using u r by (simp add: process_alloc_pid_def)
  have taken: "k \<in> set u \<longleftrightarrow> pid_taken s k" for k
    using those_set [OF u [unfolded pids_def]] unfolding pid_taken_def by fastforce
  from alloc_pid_first_free [OF r] have "err = 0 \<Longrightarrow> \<exists>j < 4095. n = (next_pid ^^ j) (last_pid s) \<and>
      (\<forall>i < j. pid_taken s ((next_pid ^^ i) (last_pid s)))"
    by (auto simp: taken)
  then show ?thesis
    using process_alloc_pid_facts [OF run assms(2,3)] run by (auto simp: pid_taken_def)
qed

text \<open>A kernel with processes on top of the heap of \<open>demo_heap\<close>.\<close>

definition demo_procs :: "(nat \<Rightarrow> process option) \<Rightarrow> nat list \<Rightarrow> proc_st" where
  "demo_procs t l = heap_st.extend demo_heap
     \<lparr>procs = t, process_list = l, current = 0, process_hlt = 0, last_pid = 1\<rparr>"

lemma demo_procs_simps [simp]:
  "procs (demo_procs t l) = t" "process_list (demo_procs t l) = l" "last_pid (demo_procs t l) = 1"
  "current (demo_procs t l) = 0" "heap (demo_procs t l) = heap demo_heap" "lay (demo_procs t l) = demo_layout"
  "headers (demo_procs t l) = headers demo_heap" "mm_virt_heap (demo_procs t l) = mm_virt_heap demo_heap"
  by (simp_all add: demo_procs_def heap_st.defs demo_heap_def)

theorem process_alloc_pid_unique_witness:
  "\<exists>l. process_alloc_pid (demo_procs [0x1000 \<mapsto> empty_process\<lparr>pid := 1\<rparr>] [0x1000]) =
     Some ((0, 2), (demo_procs [0x1000 \<mapsto> empty_process\<lparr>pid := 1\<rparr>] [0x1000])\<lparr>last_pid := l\<rparr>) \<and> 1 \<le> l \<and> l \<le> 0xfff"
proof -
  let ?s = "demo_procs [0x1000 \<mapsto> empty_process\<lparr>pid := 1\<rparr>] [0x1000]"
  obtain s' where "process_alloc_pid ?s = Some ((0, 2), s')"
    by (simp add: process_alloc_pid_def pids_def alloc_pid_loop.simps PROC_MAX_PID_def PROC_MIN_PID_def)
  then show ?thesis using process_alloc_pid_unique [of ?s] by auto
qed

subsection \<open>Sending signals\<close>

definition add_result :: "int set" where
  "add_result = {0, - EINVAL, - ENOMEM}"

definition queued_more :: "process \<Rightarrow> process \<Rightarrow> bool" where
  "queued_more p p' \<longleftrightarrow> (\<exists>q m. p' = p\<lparr>sigs := q, sig_avalaible := m\<rparr> \<and> set (sigs p) \<subseteq> set q)"

lemma add_signal_cases:
  assumes "add_signal sig a type s = Some (e, s')"
  obtains (Refused) "e \<in> {0, - EINVAL}" "s' = s"
  | (Full) p where "procs s a = Some p" "state p \<noteq> ZOMBIE" "e = - ENOMEM" "kmalloc sizeof_sig_queue s = (None, s')"
  | (Queued) p n t where "procs s a = Some p" "state p \<noteq> ZOMBIE" "e = 0" "kmalloc sizeof_sig_queue s = (Some n, t)"
      "s' = t\<lparr>procs := (procs t)(a \<mapsto> enqueue_signal n sig type p)\<rparr>"
proof -
  obtain r t where k: "kmalloc sizeof_sig_queue s = (r, t)" by (cases "kmalloc sizeof_sig_queue s")
  note pk = proc_kmalloc(1) [OF k]
  have "e \<in> {0, - EINVAL} \<and> s' = s \<or> (\<exists>p. procs s a = Some p \<and> state p \<noteq> ZOMBIE \<and>
      (r = None \<and> e = - ENOMEM \<and> s' = t \<or>
       (\<exists>n. r = Some n \<and> e = 0 \<and> s' = t\<lparr>procs := (procs t)(a \<mapsto> enqueue_signal n sig type p)\<rparr>)))"
    using assms unfolding add_signal_def k
    by (cases r; cases "procs s a") (auto simp: update_proc_def pk bind_eq_Some_conv split: if_splits)
  then show ?thesis
    using Refused Full [OF _ _ _ k [THEN trans]] Queued [OF _ _ _ k [THEN trans]] by (cases r) auto
qed

lemma queued_more_enqueue [simp]: "queued_more p (enqueue_signal n sig type p)"
  unfolding queued_more_def enqueue_signal_def Let_def by auto

lemma add_signal_effect:
  assumes "add_signal sig a type s = Some (e, s')"
  shows "e \<in> add_result" "process_list s' = process_list s" "current s' = current s"
    "procs s' = procs s \<or> (\<exists>p p'. procs s a = Some p \<and> state p \<noteq> ZOMBIE \<and> queued_more p p' \<and> procs s' = (procs s)(a \<mapsto> p'))"
proof -
  show "e \<in> add_result" using assms by (cases rule: add_signal_cases) (auto simp: add_result_def)
  show "process_list s' = process_list s" "current s' = current s"
    using assms by (cases rule: add_signal_cases; simp add: proc_kmalloc)+
  show "procs s' = procs s \<or> (\<exists>p p'. procs s a = Some p \<and> state p \<noteq> ZOMBIE \<and> queued_more p p' \<and> procs s' = (procs s)(a \<mapsto> p'))"
    using assms by (cases rule: add_signal_cases) (auto simp: proc_kmalloc intro!: exI)
qed

lemma queued_more_refl [simp]: "queued_more p p"
  unfolding queued_more_def by (rule exI [of _ "sigs p"], rule exI [of _ "sig_avalaible p"]) simp

lemma queued_more_trans: "queued_more p q \<Longrightarrow> queued_more q r \<Longrightarrow> queued_more p r"
  by (fastforce simp: queued_more_def)

text \<open>The processes a sender of user \<open>u\<close> means with \<open>n\<close>, and those of them it may signal.\<close>

definition meant :: "int \<Rightarrow> process \<Rightarrow> bool" where
  "meant n p \<longleftrightarrow> state p \<noteq> ZOMBIE \<and> (pid p = n \<or> n = - 1)"

definition may_signal :: "u32 \<Rightarrow> process \<Rightarrow> bool" where
  "may_signal u p \<longleftrightarrow> u = 0 \<or> u = uid p"

definition some_proc :: "(process \<Rightarrow> bool) \<Rightarrow> nat list \<Rightarrow> 'a proc_st_scheme \<Rightarrow> bool" where
  "some_proc P as s \<longleftrightarrow> (\<exists>a \<in> set as. \<exists>p. procs s a = Some p \<and> P p)"

definition only_queued :: "'a proc_st_scheme \<Rightarrow> 'a proc_st_scheme \<Rightarrow> (nat \<Rightarrow> process \<Rightarrow> bool) \<Rightarrow> bool" where
  "only_queued s s' P \<longleftrightarrow> (\<forall>b. procs s' b = procs s b \<or>
     (\<exists>p p'. procs s b = Some p \<and> procs s' b = Some p' \<and> queued_more p p' \<and> P b p))"

lemma only_queued_trans:
  assumes "only_queued s t P" "only_queued t u P"
  shows "only_queued s u P"
  unfolding only_queued_def
proof
  fix b
  show "procs u b = procs s b \<or> (\<exists>p p'. procs s b = Some p \<and> procs u b = Some p' \<and> queued_more p p' \<and> P b p)"
  proof (cases "procs t b = procs s b \<or> procs u b = procs t b")
    case True
    then show ?thesis using assms(1,2) unfolding only_queued_def by metis
  next
    case False
    then obtain p q where p: "procs s b = Some p" "procs t b = Some q" "queued_more p q" "P b p"
      using assms(1) unfolding only_queued_def by metis
    moreover obtain r where "procs u b = Some r" "queued_more q r"
      using False p(2) assms(2) unfolding only_queued_def by (metis option.inject)
    ultimately show ?thesis using queued_more_trans by blast
  qed
qed

lemma only_queued_mono: "only_queued s t P \<Longrightarrow> (\<And>b p. P b p \<Longrightarrow> Q b p) \<Longrightarrow> only_queued s t Q"
  unfolding only_queued_def by blast

abbreviation target :: "u32 \<Rightarrow> int \<Rightarrow> process \<Rightarrow> bool" where
  "target u n p \<equiv> meant n p \<and> may_signal u p"

lemma some_proc_Cons: "procs s a = Some p \<Longrightarrow> some_proc P (a # as) s \<longleftrightarrow> P p \<or> some_proc P as s"
  by (auto simp: some_proc_def)

lemma kill_loop_effect:
  assumes "kill_loop u n sig as err s = Some (err', s')" "err \<in> add_result \<or> err = - ESRCH \<or> err = - EPERM"
  shows "only_queued s s' (\<lambda>b p. b \<in> set as \<and> target u n p) \<and>
    (if some_proc (target u n) as s \<or> err \<in> add_result then err' \<in> add_result
     else err' = (if some_proc (meant n) as s then - EPERM else err))"
  using assms
proof (induction as arbitrary: err s)
  case Nil
  then show ?case by (auto simp: only_queued_def some_proc_def)
next
  case (Cons a as)
  have ne: "- ESRCH \<notin> add_result" "- EPERM \<notin> add_result" "ESRCH \<noteq> EPERM"
    by (simp_all add: add_result_def errno_defs)
  obtain p where p: "procs s a = Some p" using Cons.prems(1) by (auto simp: bind_eq_Some_conv)
  note sp = some_proc_Cons [OF p]
  consider "target u n p" | "meant n p" "\<not> may_signal u p" | "\<not> meant n p" by blast
  then show ?case
  proof cases
    case 1
    then obtain e t where t: "add_signal sig a SIG_SOFT s = Some (e, t)" "kill_loop u n sig as e t = Some (err', s')"
      using Cons.prems(1) p by (auto simp: meant_def may_signal_def bind_eq_Some_conv)
    note eff = add_signal_effect [OF t(1)]
    have st: "only_queued s t (\<lambda>b p. b \<in> set (a # as) \<and> target u n p)"
      using eff(4) 1 p by (auto simp: only_queued_def)
    have "only_queued t s' (\<lambda>b p. b \<in> set as \<and> target u n p) \<and> err' \<in> add_result"
      using Cons.IH [OF t(2)] eff(1) by (auto split: if_splits)
    moreover from this have "only_queued t s' (\<lambda>b p. b \<in> set (a # as) \<and> target u n p)"
      by (auto elim: only_queued_mono)
    ultimately show ?thesis using only_queued_trans [OF st] 1 sp [of "target u n"] by simp
  next
    case 2
    then have r: "kill_loop u n sig as (if err = - ESRCH then - EPERM else err) s = Some (err', s')"
      using Cons.prems(1) p by (auto simp: meant_def may_signal_def)
    have "(if err = - ESRCH then - EPERM else err) \<in> add_result \<or> (if err = - ESRCH then - EPERM else err) = - EPERM"
      using Cons.prems(2) by auto
    with Cons.IH [OF r] Cons.prems(2) 2 sp ne show ?thesis
      using only_queued_mono [of s s' "\<lambda>b p. b \<in> set as \<and> target u n p" "\<lambda>b p. b \<in> set (a # as) \<and> target u n p"]
      by (auto split: if_splits)
  next
    case 3
    then have r: "kill_loop u n sig as err s = Some (err', s')"
      using Cons.prems(1) p by (auto simp: meant_def may_signal_def split: if_splits)
    show ?thesis
      using Cons.IH [OF r Cons.prems(2)] 3 sp
        only_queued_mono [of s s' "\<lambda>b p. b \<in> set as \<and> target u n p" "\<lambda>b p. b \<in> set (a # as) \<and> target u n p"]
      by auto
  qed
qed

text \<open>
  C17. \<^verbatim>\<open>kill\<close> touches only processes that its arguments mean, that are not zombies and that the
  sender may signal (it is user 0 or the owner), and to these it only adds to the queue. It reports
  \<^verbatim>\<open>-ESRCH\<close> when nobody is meant and \<^verbatim>\<open>-EPERM\<close> when somebody is meant but nobody may be signalled;
  otherwise what it returns is a result of \<^verbatim>\<open>add_signal\<close>.
\<close>

theorem kill_respects_owners:
  assumes "kill a n sig s = Some (err, s')" "procs s a = Some me" "n = - 1 \<or> n > 0"
  shows "only_queued s s' (\<lambda>b p. b \<in> set (process_list s) \<and> meant n p \<and> may_signal (uid me) p) \<and>
    (if some_proc (\<lambda>p. meant n p \<and> may_signal (uid me) p) (process_list s) s then err \<in> {0, - EINVAL, - ENOMEM}
     else err = (if some_proc (meant n) (process_list s) s then - EPERM else - ESRCH))"
proof -
  have "kill_loop (uid me) n sig (process_list s) (- ESRCH) s = Some (err, s')"
    using assms by (auto simp: kill_def)
  from kill_loop_effect [OF this] show ?thesis
    by (auto simp: add_result_def errno_defs split: if_splits)
qed

theorem kill_respects_owners_witness:
  "\<exists>s'. kill 0x1000 2 9 (demo_procs [0x1000 \<mapsto> empty_process\<lparr>pid := 1, uid := 7\<rparr>, 0x2000 \<mapsto> empty_process\<lparr>pid := 2, uid := 8\<rparr>]
           [0x1000, 0x2000]) = Some (- EPERM, s')"
proof -
  let ?s = "demo_procs [0x1000 \<mapsto> empty_process\<lparr>pid := 1, uid := 7\<rparr>, 0x2000 \<mapsto> empty_process\<lparr>pid := 2, uid := 8\<rparr>] [0x1000, 0x2000]"
  obtain err s' where k: "kill 0x1000 2 9 ?s = Some (err, s')"
    by (simp add: kill_def empty_process_def)
  have "\<not> some_proc (\<lambda>p. meant 2 p \<and> may_signal 7 p) [0x1000, 0x2000] ?s" "some_proc (meant 2) [0x1000, 0x2000] ?s"
    by (auto simp: some_proc_def meant_def may_signal_def empty_process_def)
  then show ?thesis using kill_respects_owners [OF k, of "empty_process\<lparr>pid := 1, uid := 7\<rparr>"] k by simp
qed

subsection \<open>Freeing a process\<close>

definition childless :: "process \<Rightarrow> process" where
  "childless p = p\<lparr>children := []\<rparr>"

definition only_children :: "nat set \<Rightarrow> (nat \<Rightarrow> process option) \<Rightarrow> (nat \<Rightarrow> process option) \<Rightarrow> bool" where
  "only_children A t t' \<longleftrightarrow> (\<forall>b. b \<notin> A \<longrightarrow> map_option childless (t' b) = map_option childless (t b))"

lemma only_children_refl [simp]: "only_children A t t"
  by (simp add: only_children_def)

lemma only_children_trans: "only_children A t u \<Longrightarrow> only_children A u v \<Longrightarrow> only_children A t v"
  by (simp add: only_children_def)

lemma only_children_upd: "t a = Some p \<Longrightarrow> only_children A t (t(a \<mapsto> p\<lparr>children := ks\<rparr>))"
  by (simp add: only_children_def childless_def)

lemma only_children_dom: "only_children {} t u \<Longrightarrow> dom u = dom t"
proof -
  assume "only_children {} t u"
  then have "map_option childless (u b) = None \<longleftrightarrow> map_option childless (t b) = None" for b
    by (simp add: only_children_def)
  then show ?thesis by (auto simp: dom_def)
qed

lemma only_children_get:
  assumes "only_children A t u" "b \<notin> A" "t b = Some p"
  shows "\<exists>ks. u b = Some (p\<lparr>children := ks\<rparr>)"
proof -
  have "map_option childless (u b) = Some (childless p)" using assms by (simp add: only_children_def)
  then obtain q where q: "u b = Some q" "childless q = childless p" by auto
  then have "q = p\<lparr>children := children q\<rparr>" by (cases p; cases q) (simp add: childless_def)
  with q(1) show ?thesis by metis
qed

lemma get_with_pid_result:
  "get_with_pid n as s = Some a \<Longrightarrow> a \<noteq> 0 \<Longrightarrow> a \<in> set as \<and> (\<exists>p. procs s a = Some p \<and> pid p = n)"
  by (induction as) (auto simp: bind_eq_Some_conv split: if_splits)

lemma get_with_pid_total: "set as \<subseteq> dom (procs s) \<Longrightarrow> \<exists>a. get_with_pid n as s = Some a"
  by (induction as) (auto simp: dom_def)

lemma reparent_effect:
  assumes "reparent ks s = Some s'"
  shows "only_children {} (procs s) (procs s') \<and> process_list s' = process_list s \<and> current s' = current s"
  using assms
proof (induction ks arbitrary: s)
  case (Cons c ks)
  obtain i t where t: "process_get_with_pid 1 s = Some i" "reparent ks t = Some s'"
    "(if i \<noteq> 0 then update_proc i (\<lambda>p. p\<lparr>children := c # children p\<rparr>) s else Some (kfree (ch_node c) s)) = Some t"
    using Cons.prems by (auto simp: bind_eq_Some_conv)
  have "only_children {} (procs s) (procs t) \<and> process_list t = process_list s \<and> current t = current s"
    using t(3) by (auto simp: update_proc_eq only_children_upd split: if_splits)
  with Cons.IH [OF t(2)] show ?case using only_children_trans by metis
qed simp

lemma reparent_total: "set (process_list s) \<subseteq> dom (procs s) \<Longrightarrow> \<exists>s'. reparent ks s = Some s'"
proof (induction ks arbitrary: s)
  case (Cons c ks)
  obtain i where i: "process_get_with_pid 1 s = Some i"
    using get_with_pid_total [OF Cons.prems] by (auto simp: process_get_with_pid_def)
  obtain t where t: "(if i \<noteq> 0 then update_proc i (\<lambda>p. p\<lparr>children := c # children p\<rparr>) s
      else Some (kfree (ch_node c) s)) = Some t"
    using get_with_pid_result [OF i [unfolded process_get_with_pid_def]] by (cases "i = 0") (auto simp: update_proc_def)
  have "set (process_list t) \<subseteq> dom (procs t)" using t Cons.prems by (auto simp: update_proc_eq split: if_splits)
  then show ?case using Cons.IH [of t] i t by simp
qed simp

lemma leave_father_effect:
  assumes "leave_father a f s = Some s'"
  shows "only_children {} (procs s) (procs s') \<and> process_list s' = process_list s \<and> current s' = current s"
proof (cases "f = 0")
  case False
  then obtain pf where pf: "procs s f = Some pf" using assms by (auto simp: leave_father_def bind_eq_Some_conv)
  obtain r ks where "unlink_child a (children pf) = (r, ks)" by (cases "unlink_child a (children pf)")
  with assms False pf show ?thesis by (cases r) (auto simp: leave_father_def only_children_upd)
qed (use assms in \<open>simp add: leave_father_def\<close>)

lemma leave_father_total: "f = 0 \<or> f \<in> dom (procs s) \<Longrightarrow> \<exists>s'. leave_father a f s = Some s'"
  by (auto simp: leave_father_def split: prod.split option.split)

lemma free_process_effect:
  assumes "free_process a s = Some s'"
  shows "procs s' a = None" "only_children {a} (procs s) (procs s')"
    "process_list s' = removeAll a (process_list s)" "current s' = current s"
proof -
  obtain p s1 p1 s2 where st: "procs s a = Some p"
    "leave_father a (father p) (s\<lparr>process_list := removeAll a (process_list s)\<rparr>) = Some s1" "procs s1 a = Some p1"
    "reparent (children p1) (s1\<lparr>procs := (procs s1)(a \<mapsto> p1\<lparr>children := []\<rparr>)\<rparr>) = Some s2"
    "s' = kfree a s2\<lparr>procs := (procs s2)(a := None)\<rparr>"
    using assms by (auto simp: free_process_def bind_eq_Some_conv Let_def)
  note l = leave_father_effect [OF st(2)] and r = reparent_effect [OF st(4)]
  have "only_children {} (procs s1) (procs s2)"
    using only_children_trans [OF only_children_upd [of "procs s1" a p1 _ "[]"], OF st(3)] r by simp
  then have "only_children {} (procs s) (procs s2)" using l only_children_trans [of "{}" "procs s" "procs s1"] by simp
  then show "only_children {a} (procs s) (procs s')" by (auto simp: st(5) only_children_def)
  show "procs s' a = None" "process_list s' = removeAll a (process_list s)" "current s' = current s"
    using l r by (simp_all add: st(5))
qed

lemma free_process_total:
  assumes "procs s a = Some p" "father p = 0 \<or> father p \<in> dom (procs s)" "set (process_list s) \<subseteq> dom (procs s)"
  shows "\<exists>s'. free_process a s = Some s'"
proof -
  let ?s = "s\<lparr>process_list := removeAll a (process_list s)\<rparr>"
  obtain s1 where s1: "leave_father a (father p) ?s = Some s1"
    using leave_father_total [of "father p" ?s] assms(2) by auto
  note l = leave_father_effect [OF s1]
  then obtain p1 where p1: "procs s1 a = Some p1"
    using only_children_get [of "{}" "procs ?s" "procs s1" a] assms(1) by auto
  have "set (process_list s1) \<subseteq> dom ((procs s1)(a \<mapsto> p1\<lparr>children := []\<rparr>))"
    using l only_children_dom [of "procs ?s" "procs s1"] assms(3) by auto
  then obtain s2 where "reparent (children p1) (s1\<lparr>procs := (procs s1)(a \<mapsto> p1\<lparr>children := []\<rparr>)\<rparr>) = Some s2"
    using reparent_total [of "s1\<lparr>procs := (procs s1)(a \<mapsto> p1\<lparr>children := []\<rparr>)\<rparr>"] by auto
  then show ?thesis using assms(1) s1 p1 by (simp add: free_process_def)
qed

subsection \<open>The end of a process and its father\<close>

lemma free_all_memory_eq:
  assumes "procs s a = Some p"
  shows "\<exists>t. process_free_all_memory a s = Some t \<and> procs t = (procs s)(a \<mapsto> p\<lparr>mm_heap := [], mm_stack := []\<rparr>)
    \<and> process_list t = process_list s \<and> current t = current s"
  using assms by (auto simp: process_free_all_memory_def Let_def update_proc_def)

text \<open>
  C34. The \<^verbatim>\<open>father\<close> pointers of the children of a freed process are not reset (only its nodes go to
  process 1), so when such an orphan exits, \<^verbatim>\<open>process_die_safe\<close> reads the freed structure of the
  father: the operation has no meaning.
\<close>

theorem orphan_exit_reads_freed_father:
  assumes "free_process f s = Some s'" "procs s c = Some p" "father p = f" "f \<noteq> 0" "c \<noteq> f"
  shows "exit c status s' = None"
proof -
  note e = free_process_effect [OF assms(1)]
  obtain ks where c: "procs s' c = Some (p\<lparr>children := ks\<rparr>)"
    using only_children_get [OF e(2) _ assms(2)] assms(5) by auto
  define q where "q = p\<lparr>children := ks, end_value := WAIT_EXITCODE (uint status) 0\<rparr>"
  define s1 where "s1 = s'\<lparr>procs := (procs s')(c \<mapsto> q)\<rparr>"
  have q: "procs s1 c = Some q" "father q = f" "procs s1 f = None"
    using e(1) assms(3,5) by (simp_all add: s1_def q_def)
  obtain t where t: "process_free_all_memory c s1 = Some t" "procs t = (procs s1)(c \<mapsto> q\<lparr>mm_heap := [], mm_stack := []\<rparr>)"
    using free_all_memory_eq [OF q(1)] by blast
  have "add_signal (uint SIGCHLD) f SIG_SOFT u = None" if "procs u f = None" for u :: "'a proc_st_scheme"
    using that assms(4) by (simp add: add_signal_def SIGCHLD_def sig_flag_defs)
  then have "process_die_safe c s1 = None"
    using t q assms(4,5) by (simp add: process_die_safe_def update_proc_def)
  then show ?thesis using c by (simp add: exit_def process_die_def update_proc_def s1_def q_def)
qed

theorem orphan_exit_reads_freed_father_witness:
  "\<exists>s'. free_process 0x2000 (demo_procs [0x1000 \<mapsto> empty_process\<lparr>pid := 1\<rparr>,
        0x2000 \<mapsto> empty_process\<lparr>pid := 2, children := [\<lparr>ch_node = 0x5000, ch_p = 0x3000\<rparr>]\<rparr>,
        0x3000 \<mapsto> empty_process\<lparr>pid := 3, father := 0x2000\<rparr>] [0x1000, 0x2000, 0x3000]) = Some s'
     \<and> exit 0x3000 0 s' = None"
proof -
  let ?s = "demo_procs [0x1000 \<mapsto> empty_process\<lparr>pid := 1\<rparr>,
        0x2000 \<mapsto> empty_process\<lparr>pid := 2, children := [\<lparr>ch_node = 0x5000, ch_p = 0x3000\<rparr>]\<rparr>,
        0x3000 \<mapsto> empty_process\<lparr>pid := 3, father := 0x2000\<rparr>] [0x1000, 0x2000, 0x3000]"
  obtain s' where s': "free_process 0x2000 ?s = Some s'"
    using free_process_total [of ?s "0x2000"] by (auto simp: empty_process_def)
  from orphan_exit_reads_freed_father [OF s', of "0x3000" "empty_process\<lparr>pid := 3, father := 0x2000\<rparr>" 0]
  show ?thesis using s' by (simp add: empty_process_def)
qed

text \<open>A process that ends while its father has no handler for \<^verbatim>\<open>SIGCHLD\<close> stays as a zombie.\<close>

lemma add_signal_total:
  assumes "procs s a = Some p" "sig \<le> 32"
  shows "\<exists>e s'. add_signal sig a type s = Some (e, s')"
proof -
  obtain r t where k: "kmalloc sizeof_sig_queue s = (r, t)" by (cases "kmalloc sizeof_sig_queue s")
  show ?thesis using assms proc_kmalloc(1) [OF k]
    by (cases r) (auto simp: add_signal_def k update_proc_def SIG_UNAVAILABLE_def)
qed

lemma exit_leaves_zombie:
  assumes "procs s c = Some pc" "father pc = f" "f \<noteq> 0" "f \<noteq> c" "procs s f = Some pf" "sig_handler pf (unat SIGCHLD) = Null"
  shows "\<exists>r s' pf'. exit c status s = Some (r, s') \<and> process_list s' = process_list s \<and>
    procs s' = (procs s)(c \<mapsto> pc\<lparr>end_value := WAIT_EXITCODE (uint status) 0, mm_heap := [], mm_stack := [], sigs := [], state := ZOMBIE\<rparr>,
      f \<mapsto> pf') \<and> queued_more pf pf'"
proof -
  define q where "q = pc\<lparr>end_value := WAIT_EXITCODE (uint status) 0\<rparr>"
  define s1 where "s1 = s\<lparr>procs := (procs s)(c \<mapsto> q)\<rparr>"
  have q: "procs s1 c = Some q" by (simp add: s1_def)
  obtain t where t: "process_free_all_memory c s1 = Some t" "procs t = (procs s1)(c \<mapsto> q\<lparr>mm_heap := [], mm_stack := []\<rparr>)"
    "process_list t = process_list s"
    using free_all_memory_eq [OF q] by (auto simp: s1_def)
  let ?q = "q\<lparr>mm_heap := [], mm_stack := [], sigs := []\<rparr>"
  let ?u = "t\<lparr>procs := (procs t)(c \<mapsto> ?q)\<rparr>"
  have uf: "procs ?u f = Some pf" using t(2) assms(4,5) by (simp add: s1_def)
  obtain e v where v: "add_signal (uint SIGCHLD) f SIG_SOFT ?u = Some (e, v)"
    using add_signal_total [OF uf, of "uint SIGCHLD" SIG_SOFT] by (auto simp: SIGCHLD_def)
  note eff = add_signal_effect [OF v]
  obtain pf' where pf': "procs v = (procs ?u)(f \<mapsto> pf')" "queued_more pf pf'"
    using eff(4) uf by (metis fun_upd_triv option.inject queued_more_refl)
  have h: "sig_handler pf' (unat SIGCHLD) = Null" using pf'(2) assms(6) by (auto simp: queued_more_def)
  have cv: "procs v c = Some ?q" using pf'(1) assms(4) by simp
  let ?w = "v\<lparr>procs := (procs v)(c \<mapsto> ?q\<lparr>state := ZOMBIE\<rparr>)\<rparr>"
  have d: "process_die_safe c s1 = Some (if c = current ?w then (Resched, ?w\<lparr>current := 0\<rparr>) else (Returned 0, ?w))"
    using t(1,2) v pf'(1) h cv assms(2-4) by (simp add: process_die_safe_def update_proc_def q_def)
  have "exit c status s = process_die_safe c s1"
    using assms(1) by (simp add: exit_def process_die_def update_proc_def s1_def q_def)
  with d have "\<exists>r s'. exit c status s = Some (r, s') \<and> procs s' = procs ?w \<and> process_list s' = process_list ?w"
    by (cases "c = current ?w") auto
  moreover have "procs ?w = (procs s)(c \<mapsto> ?q\<lparr>state := ZOMBIE\<rparr>, f \<mapsto> pf')"
    using pf'(1) t(2) assms(4) by (auto simp: s1_def)
  moreover have "process_list ?w = process_list s" using eff(2) t(3) by simp
  ultimately show ?thesis using pf'(2) unfolding q_def by (smt (verit) process.simps)
qed

lemma find_child_cong:
  assumes "\<And>b. map_option pid (procs s' b) = map_option pid (procs s b)" "n \<noteq> - 1"
  shows "find_child n ks s' = find_child n ks s"
proof (induction ks)
  case (Cons k ks)
  have "map_option pid (procs s' (ch_p k)) = map_option pid (procs s (ch_p k))" by (rule assms)
  then show ?case using Cons assms(2) by (cases "procs s (ch_p k)"; cases "procs s' (ch_p k)") auto
qed simp

lemma end_of_child_effect:
  assumes "procs s c = Some pc" "procs s f = Some pf" "c \<noteq> f" "father pc = 0 \<or> father pc \<in> dom (procs s)"
    "set (process_list s) \<subseteq> dom (procs s)"
  shows "\<exists>s' ks. end_of_child c f s = Some s' \<and> procs s' c = None \<and> process_list s' = removeAll c (process_list s) \<and>
    procs s' f = Some (pf\<lparr>waiting_return := end_value pc, waiting_pid := pid pc, children := ks, state := RUN\<rparr>)"
proof -
  let ?pf = "pf\<lparr>waiting_return := end_value pc, waiting_pid := pid pc\<rparr>"
  let ?s = "s\<lparr>procs := (procs s)(f \<mapsto> ?pf)\<rparr>"
  have "procs ?s c = Some pc" using assms(1,3) by simp
  moreover have "father pc = 0 \<or> father pc \<in> dom (procs ?s)" "set (process_list ?s) \<subseteq> dom (procs ?s)"
    using assms(2,4,5) by auto
  ultimately obtain t where t: "free_process c ?s = Some t" using free_process_total by blast
  note e = free_process_effect [OF t]
  obtain ks where ks: "procs t f = Some (?pf\<lparr>children := ks\<rparr>)"
    using only_children_get [OF e(2), of f] assms(3) by auto
  then have "end_of_child c f s = Some (t\<lparr>procs := (procs t)(f \<mapsto> ?pf\<lparr>children := ks, state := RUN\<rparr>)\<rparr>)"
    using assms(1,2) t by (simp add: end_of_child_def update_proc_def)
  then show ?thesis using e(1,3) assms(3) by auto
qed

text \<open>
  C15. The status of an exit reaches the father: when a child whose father has no handler for
  \<^verbatim>\<open>SIGCHLD\<close> calls \<^verbatim>\<open>exit\<close>, a later \<^verbatim>\<open>process_waitpid\<close> of the father for this child returns its identifier
  and writes the status, shifted by 8 bits; the structure of the child is freed, it has left the
  process list, and the father is ready to run. Both calls do return.
\<close>

theorem exit_status_reaches_waiter:
  assumes "procs s c = Some pc" "father pc = f" "f \<noteq> 0" "f \<noteq> c" "c \<noteq> 0" "procs s f = Some pf"
    "sig_handler pf (unat SIGCHLD) = Null" "waiting_return pf = 0"
    "find_child (pid pc) (children pf) s = Some c" "pid pc > 0" "set (process_list s) \<subseteq> dom (procs s)"
  shows "\<exists>r s' s'' p. exit c status s = Some (r, s') \<and>
    process_waitpid f (pid pc) opt s' = Some (pid pc, Some (256 * uint status), s'') \<and>
    procs s'' c = None \<and> c \<notin> set (process_list s'') \<and> procs s'' f = Some p \<and> state p = RUN \<and> waiting_return p = 0"
proof -
  let ?z = "pc\<lparr>end_value := WAIT_EXITCODE (uint status) 0, mm_heap := [], mm_stack := [], sigs := [], state := ZOMBIE\<rparr>"
  obtain r s' pf' where s': "exit c status s = Some (r, s')" "process_list s' = process_list s"
    "procs s' = (procs s)(c \<mapsto> ?z, f \<mapsto> pf')" and pf': "queued_more pf pf'"
    using exit_leaves_zombie [OF assms(1-4,6,7), of status] by auto
  have pf'_eq: "children pf' = children pf" "waiting_return pf' = 0" "waiting_pid pf' = waiting_pid pf" "pid pf' = pid pf"
    using pf' assms(8) by (auto simp: queued_more_def)
  have "find_child (pid pc) (children pf') s' = Some c"
    unfolding pf'_eq(1) assms(9) [symmetric]
    by (rule find_child_cong) (use s'(3) assms(1,6,10) pf'_eq(4) in auto)
  moreover have c: "procs s' c = Some ?z" "procs s' f = Some pf'" using s'(3) assms(4) by auto
  moreover obtain t ks where t: "end_of_child c f s' = Some t" "procs t c = None" "process_list t = removeAll c (process_list s)"
    "procs t f = Some (pf'\<lparr>waiting_return := WAIT_EXITCODE (uint status) 0, waiting_pid := pid pc, children := ks, state := RUN\<rparr>)"
    using end_of_child_effect [OF c] assms(2,4,11) s'(2,3) by auto
  moreover have "WAIT_EXITCODE (uint status) 0 = 256 * uint status"
    by (simp add: WAIT_EXITCODE_def push_bit_eq_mult)
  ultimately show ?thesis
    using s'(1) assms(4,5,10) pf'_eq(2) by (simp add: process_waitpid_def)
qed

theorem exit_status_reaches_waiter_witness:
  "\<exists>r s' s''. exit 0x2000 3 (demo_procs [0x1000 \<mapsto> empty_process\<lparr>pid := 1, children := [\<lparr>ch_node = 0x5000, ch_p = 0x2000\<rparr>]\<rparr>,
        0x2000 \<mapsto> empty_process\<lparr>pid := 2, father := 0x1000\<rparr>] [0x1000, 0x2000]) = Some (r, s') \<and>
     process_waitpid 0x1000 2 0 s' = Some (2, Some 768, s'')"
proof -
  let ?s = "demo_procs [0x1000 \<mapsto> empty_process\<lparr>pid := 1, children := [\<lparr>ch_node = 0x5000, ch_p = 0x2000\<rparr>]\<rparr>,
        0x2000 \<mapsto> empty_process\<lparr>pid := 2, father := 0x1000\<rparr>] [0x1000, 0x2000]"
  show ?thesis
    using exit_status_reaches_waiter [of ?s "0x2000" "empty_process\<lparr>pid := 2, father := 0x1000\<rparr>" "0x1000"
        "empty_process\<lparr>pid := 1, children := [\<lparr>ch_node = 0x5000, ch_p = 0x2000\<rparr>]\<rparr>" 3 0]
    by (auto simp: empty_process_def)
qed

end
