(* ===== verification/Mmap_Correct.thy ===== *)
theory Mmap_Correct
  imports Process_Memory Process_Table
begin

text \<open>
  \<^verbatim>\<open>mmap\<close> always returns, and the block it adds to the heap of a process covers only pages that no
  block of the process covered before; what \<^verbatim>\<open>munmap\<close> frees instead of the pages it is asked for.
\<close>

subsection \<open>Frames\<close>

lemma vm_frame_phys_bzero:
  assumes "phys_bzero a n s = (e, s')"
  shows "vm_frame s s'"
proof -
  let ?f = "\<lambda>i t. case access_table_with_physical (page_swap (lay t)) (nth_page a i) t of (err, t1) \<Rightarrow>
            if err \<noteq> 0 then (err, t1)
            else (err, t1\<lparr>pmem := (pmem t1)(window_frame (page_swap (lay t)) t1 :=
                    (\<lambda>w. if w < 1024 then 0 else pmem t1 (window_frame (page_swap (lay t)) t1) w))\<rparr>)"
  obtain e1 j t where run: "until_error ?f 0 n s = (e1, j, t)" by (rule prod_cases3)
  have "vm_frame t t'" if "?f i t = (e, t')" for i t e t'
    using that by (auto split: prod.splits if_splits dest: vm_frame_access intro: vm_frame_trans)
  then have "vm_frame s t" using vm_frame_until_error [OF _ run] by blast
  with assms run show ?thesis by (simp add: phys_bzero_def)
qed

lemmas proc_vm = vm_heap_frames [THEN heap_frame_proc(1)]
  vm_frame_phys_bzero [THEN vm_frame_heap_frame, THEN heap_frame_proc(1)]

text \<open>The error numbers of the operations on page tables.\<close>

definition mem_errors :: "int set" where
  "mem_errors = {- EINVAL, - ENOMEM}"

lemma until_error_in:
  assumes "until_error f 0 n s = (e, j, t)" "\<And>i u e u'. f i u = (e, u') \<Longrightarrow> e = 0 \<or> e \<in> A"
  shows "e = 0 \<or> e \<in> A"
  using until_error_splits [OF assms(1)] assms(2) by blast

lemma table_errors:
  "access_table_with_physical w f s = (e, s') \<Longrightarrow> e = 0 \<or> e \<in> mem_errors"
  "window_entry_set w i q fl s = (e, s') \<Longrightarrow> e = 0 \<or> e \<in> mem_errors"
  by (auto simp: access_table_with_physical_def window_entry_set_def Let_def page_entry_set_def mem_errors_def split: if_splits)

lemma page_unmap_errors: "page_unmap v fl s = (e, s') \<Longrightarrow> e = 0 \<or> e \<in> mem_errors"
  unfolding page_unmap_def Let_def
  by (auto simp: mem_errors_def [THEN eqset_imp_iff] split: if_splits prod.splits dest: table_errors)

lemma page_map_errors: "page_map q v fl s = (e, s') \<Longrightarrow> e = 0 \<or> e \<in> mem_errors"
  unfolding page_map_def Let_def
  by (auto simp: mem_errors_def [THEN eqset_imp_iff] split: if_splits prod.splits dest: table_errors page_unmap_errors)

lemma range_errors:
  "page_map_range q v fl n s = (e, s') \<Longrightarrow> e = 0 \<or> e \<in> mem_errors"
  "phys_bzero q n s = (e, s') \<Longrightarrow> e = 0 \<or> e \<in> mem_errors"
proof -
  assume "page_map_range q v fl n s = (e, s')"
  then obtain j t where "until_error (\<lambda>i. page_map (nth_page q i) (nth_page v i) fl) 0 n s = (e, j, t)"
    by (auto simp: page_map_range_def split: prod.splits if_splits)
  then show "e = 0 \<or> e \<in> mem_errors" by (rule until_error_in) (rule page_map_errors)
next
  assume a: "phys_bzero q n s = (e, s')"
  show "e = 0 \<or> e \<in> mem_errors"
    using a unfolding phys_bzero_def
    by (auto split: prod.splits if_splits elim!: until_error_in dest: table_errors)
qed

text \<open>Every outcome of adding to the heap: an error that leaves the table alone, or the new block.\<close>

lemma process_memory_add_heap:
  assumes "procs s a = Some p" "pf = PROC_MEM_ADD_HEAP \<or> pf = PROC_MEM_ADD_HEAP OR PROC_MEM_ADD_IMEDIATE"
  shows "\<exists>e s'. process_memory_add a n v mf pf s = Some (e, s') \<and>
    (e \<in> mem_errors \<and> procs s' = procs s \<or>
     (\<exists>pm. e = 0 \<and> v_addr pm = v AND PAGE_ADDR \<and> mm_size pm = pages_from v n \<and> flags pm = mf \<and>
        procs s' = (procs s)(a \<mapsto> p\<lparr>mm_heap := pm # mm_heap p\<rparr>)))"
proof -
  let ?np = "pages_from v n" and ?va = "v AND PAGE_ADDR"
  obtain ph s1 where 1: "page_get_phys ?va s = (ph, s1)" by (cases "page_get_phys ?va s")
  obtain r s2 where 2: "kmalloc sizeof_map_memory s1 = (r, s2)" by (cases "kmalloc sizeof_map_memory s1")
  obtain pa s3 where 3: "get_phys_block (unat ?np) s2 = (pa, s3)" by (cases "get_phys_block (unat ?np) s2")
  obtain e4 s4 where 4: "phys_bzero pa (unat ?np) s3 = (e4, s4)" by (cases "phys_bzero pa (unat ?np) s3")
  obtain e5 s5 where 5: "page_map_range pa ?va mf (unat ?np) s4 = (e5, s5)" by (cases "page_map_range pa ?va mf (unat ?np) s4")
  have eq: "procs s1 = procs s" "procs s2 = procs s" "procs s3 = procs s" "procs s4 = procs s" "procs s5 = procs s"
    using proc_vm(4) [OF 1] proc_kmalloc(1) [OF 2] proc_vm(1) [OF 3] proc_vm(8) [OF 4] proc_vm(2) [OF 5] by simp_all
  have pf: "pf AND NOT PROC_MEM_ADD_IMEDIATE = PROC_MEM_ADD_HEAP"
    using assms(2) by (auto simp: PROC_MEM_ADD_HEAP_def PROC_MEM_ADD_IMEDIATE_def)
  have er: "- EINVAL \<in> mem_errors" "- ENOMEM \<in> mem_errors" "e4 = 0 \<or> e4 \<in> mem_errors" "e5 = 0 \<or> e5 \<in> mem_errors"
    using range_errors(2) [OF 4] range_errors(1) [OF 5] by (simp_all add: mem_errors_def)
  have new: "\<exists>pm'. v_addr pm' = v_addr pm \<and> mm_size pm' = mm_size pm \<and> flags pm' = flags pm \<and>
      (procs s)(a \<mapsto> p\<lparr>mm_heap := pm # mm_heap p\<rparr>) = (procs s)(a \<mapsto> p\<lparr>mm_heap := pm' # mm_heap p\<rparr>)" for pm
    by blast
  show ?thesis
    using 1 2 3 4 5 eq assms(1) er new [of "\<lparr>mm_node = the r, v_addr = ?va, p_addr = pa, mm_size = ?np, flags = mf\<rparr>"]
    by (cases r) (auto simp: process_memory_add_def Let_def pf update_proc_def)
qed

subsection \<open>The search for free pages\<close>

definition page_addr :: "nat \<Rightarrow> u32" where
  "page_addr x = of_nat (4096 * x)"

lemma unat_page: "x < 1048576 \<Longrightarrow> unat (page_addr x) = 4096 * x"
  unfolding page_addr_def by (rule unat_of_nat_32) simp

definition free_range :: "process \<Rightarrow> nat \<Rightarrow> nat \<Rightarrow> bool" where
  "free_range p x n \<longleftrightarrow> (\<forall>k < n. mmap_is_free p (page_addr (x + k)))"

lemma free_range_Suc: "free_range p x (Suc n) \<longleftrightarrow> mmap_is_free p (page_addr x) \<and> free_range p (Suc x) n"
proof -
  have "(\<forall>k < Suc n. P (x + k)) \<longleftrightarrow> P x \<and> (\<forall>k < n. P (Suc x + k))" for P :: "nat \<Rightarrow> bool"
    by (auto simp: less_Suc_eq_0_disj)
  then show ?thesis unfolding free_range_def .
qed

lemma page_addr_pred: "x > 0 \<Longrightarrow> page_addr x - 4096 = page_addr (x - 1)"
  by (cases x) (simp_all add: page_addr_def algebra_simps)

lemma page_addr_inj: "x < 1048576 \<Longrightarrow> y < 1048576 \<Longrightarrow> page_addr x = page_addr y \<longleftrightarrow> x = y"
proof -
  assume "x < 1048576" "y < 1048576"
  then have "unat (page_addr x) = 4096 * x" "unat (page_addr y) = 4096 * y" by (simp_all add: unat_page)
  then show ?thesis by (metis mult_left_cancel zero_neq_numeral)
qed

text \<open>Positions in pages: the search is at page \<open>x\<close>, began at \<open>x0\<close>, wraps at \<open>mx\<close>.\<close>

definition next_page :: "nat \<Rightarrow> nat \<Rightarrow> nat" where
  "next_page mx x = (if x = 1 then mx else x - 1)"

lemma mmap_search_step:
  assumes "0 < x" "x \<le> mx" "mx < 1048576" "x0 < 1048576"
  shows "mmap_search p (page_addr mx) n (page_addr x0) (page_addr x) f =
    (let f1 = (if mmap_is_free p (page_addr x) then f + 1 else 0) in
     if mmap_is_free p (page_addr x) \<and> f1 = n then Some (Some (page_addr x))
     else if x0 = next_page mx x then Some None
     else mmap_search p (page_addr mx) n (page_addr x0) (page_addr (next_page mx x)) (if x = 1 then 0 else f1))"
proof -
  have z: "page_addr x - 4096 = 0 \<longleftrightarrow> x = 1"
  proof -
    have "page_addr (x - 1) = page_addr 0 \<longleftrightarrow> x - 1 = 0" by (rule page_addr_inj) (use assms in auto)
    moreover have "page_addr 0 = 0" by (simp add: page_addr_def)
    ultimately show ?thesis using assms(1) by (auto simp: page_addr_pred)
  qed
  have n: "(if page_addr x - 4096 = 0 then page_addr mx else page_addr x - 4096) = page_addr (next_page mx x)"
    using assms(1) z by (simp add: next_page_def page_addr_pred)
  have e: "page_addr x0 = page_addr (next_page mx x) \<longleftrightarrow> x0 = next_page mx x"
    by (rule page_addr_inj) (use assms in \<open>auto simp: next_page_def\<close>)
  show ?thesis
    by (subst mmap_search.simps) (simp only: Let_def n e, simp only: z)
qed

lemma mmap_search_returns:
  assumes "0 < x" "x \<le> mx" "mx < 1048576" "0 < x0" "x0 \<le> mx" "unat f + x \<le> mx \<or> f = 0" "free_range p (x + 1) (unat f)"
  shows "\<exists>r. mmap_search p (page_addr mx) n (page_addr x0) (page_addr x) f = Some r \<and>
    (\<forall>v. r = Some v \<longrightarrow> (\<exists>y. 0 < y \<and> y + unat n \<le> mx + 1 \<and> v = page_addr y \<and> free_range p y (unat n)))"
  using assms
proof (induction "if x \<le> x0 then x + (mx - x0) else x - x0" arbitrary: x f rule: less_induct)
  case less
  let ?f1 = "if mmap_is_free p (page_addr x) then f + 1 else 0"
  have f1: "unat (f + 1) = Suc (unat f)"
  proof -
    have "unat f < 1048576" using less.prems by auto
    then show ?thesis by (simp add: unat_word_ariths)
  qed
  have f1r: "free_range p x (unat ?f1)"
    using less.prems(7) by (cases "mmap_is_free p (page_addr x)") (simp_all add: f1 free_range_Suc, simp add: free_range_def)
  have f1b: "unat ?f1 + x \<le> mx + 1" using less.prems f1 by auto
  have x0: "x0 < 1048576" using less.prems by simp
  note step' = mmap_search_step [OF less.prems(1-3) x0, of p n f]
  note step = step' [unfolded Let_def]
  consider "mmap_is_free p (page_addr x)" "?f1 = n" | "\<not> (mmap_is_free p (page_addr x) \<and> ?f1 = n)" "x0 = next_page mx x"
    | "\<not> (mmap_is_free p (page_addr x) \<and> ?f1 = n)" "x0 \<noteq> next_page mx x" by blast
  then show ?case
  proof cases
    case 1
    then show ?thesis using f1r f1b less.prems(1) unfolding step by (intro exI [of _ "Some (page_addr x)"]) (auto simp: Let_def)
  next
    case 2
    then show ?thesis unfolding step by (intro exI [of _ None]) (auto simp: Let_def)
  next
    case 3
    let ?x = "next_page mx x" and ?f = "if x = 1 then 0 else ?f1"
    have d: "(if ?x \<le> x0 then ?x + (mx - x0) else ?x - x0) < (if x \<le> x0 then x + (mx - x0) else x - x0)"
      using 3(2) less.prems by (auto simp: next_page_def split: if_splits)
    have x: "0 < ?x" "?x \<le> mx" using less.prems by (auto simp: next_page_def)
    have b: "unat ?f + ?x \<le> mx \<or> ?f = 0" using f1b less.prems(1) by (auto simp: next_page_def)
    have r: "free_range p (?x + 1) (unat ?f)"
    proof (cases "x = 1")
      case True
      then show ?thesis by (simp add: free_range_def)
    next
      case False
      then have "?x + 1 = x" using less.prems(1) by (simp add: next_page_def)
      then show ?thesis using f1r False by (simp only: if_False)
    qed
    have eq: "mmap_search p (page_addr mx) n (page_addr x0) (page_addr x) f =
        mmap_search p (page_addr mx) n (page_addr x0) (page_addr ?x) ?f"
      unfolding step' Let_def by (simp only: 3 if_False)
    show ?thesis unfolding eq by (rule less.hyps [OF d x less.prems(3-5) b r])
  qed
qed

lemma page_addr_Suc: "page_addr x + 4096 = page_addr (Suc x)"
  by (simp add: page_addr_def algebra_simps)

lemma mmap_fixed_free_range:
  assumes "mmap_fixed_free p mx n (page_addr x) f"
  shows "free_range p x (unat (n - f))"
  using assms
proof (induction p mx n "page_addr x" f arbitrary: x rule: mmap_fixed_free.induct)
  case (1 p mx n f)
  have free: "mmap_is_free p (page_addr x)" using "1.prems" by (subst (asm) mmap_fixed_free.simps) (simp split: if_splits)
  show ?case
  proof (cases "n = f \<or> f + 1 = n")
    case True
    then show ?thesis
    proof
      assume "f + 1 = n"
      then have "n - f = 1" by (simp add: algebra_simps)
      then show ?thesis using free by (simp add: free_range_def)
    qed (simp add: free_range_def)
  next
    case False
    have nf: "n - f \<noteq> 0" using False by simp
    have "unat (n - f - 1) = unat (n - f) - 1" by (rule unat_minus_one [OF nf])
    moreover have "unat (n - f) \<noteq> 0" using nf by (metis unat_eq_zero)
    moreover have "n - f - 1 = n - (f + 1)" by (simp add: algebra_simps)
    ultimately have u: "unat (n - f) = Suc (unat (n - (f + 1)))" by simp
    have g: "\<not> page_addr x + 4096 > mx" "mmap_fixed_free p mx n (page_addr (Suc x)) (f + 1)"
      using "1.prems" False by (subst (asm) mmap_fixed_free.simps, simp add: page_addr_Suc split: if_splits)+
    have "free_range p (Suc x) (unat (n - (f + 1)))"
      by (rule "1.hyps") (use free False g in \<open>simp_all add: page_addr_Suc\<close>)
    then show ?thesis using free u by (simp add: free_range_Suc)
  qed
qed

lemma aligned_page_addr: "v AND PAGE_FLAG = 0 \<Longrightarrow> v = page_addr (unat v div 4096)"
proof -
  assume "v AND PAGE_FLAG = 0"
  then have "unat v = 4096 * (unat v div 4096)" by (simp add: aligned_iff minus_mod_eq_mult_div [symmetric])
  then show ?thesis unfolding page_addr_def by (metis word_of_nat_eq_iff word_unat_eq_iff unat_of_nat_32 unat_less_32)
qed

lemma page_addr_aligned: "page_addr x AND PAGE_ADDR = page_addr x"
proof (rule bit_word_eqI)
  fix n assume "n < LENGTH(32)"
  have "page_addr x = push_bit 12 (of_nat x)" by (simp add: page_addr_def push_bit_eq_mult)
  then have "bit (page_addr x) n \<Longrightarrow> 12 \<le> n" by (simp add: bit_simps)
  then show "bit (page_addr x AND PAGE_ADDR) n = bit (page_addr x) n" by (auto simp only: bit_page_addr)
qed

lemma pages_from_aligned:
  assumes "unat np < 1048576"
  shows "pages_from (page_addr x) (push_bit 12 np) = np"
proof -
  have "push_bit 12 np mod 4096 = 0"
    using assms by (simp add: word_unat_eq_iff unat_mod unat_push_bit_page)
  moreover have "drop_bit 12 (push_bit 12 np) = np"
    using assms by (simp only: word_unat_eq_iff unat_drop_bit unat_push_bit_page) simp
  ultimately show ?thesis by (simp add: pages_from_def page_addr_aligned)
qed

lemma number_of_page_less: "unat (mmap_get_number_of_page n) < 1048576"
  by (simp add: mmap_get_number_of_page_def unat_drop_bit)

lemma mmap_max_addr_page: "\<exists>mx. 0 < mx \<and> mx < 1048576 \<and> mmap_max_addr fl = page_addr mx"
proof (cases "fl AND MAP_KERNEL_SPACE = 0")
  case True
  then show ?thesis by (intro exI [of _ "0xBFFFF"]) (simp add: mmap_max_addr_def page_addr_def)
next
  case False
  then show ?thesis by (intro exI [of _ "0xFFFFF"]) (simp add: mmap_max_addr_def page_addr_def mask_eq_exp_minus_1)
qed

subsection \<open>Properties\<close>

definition heap_grown :: "u32 \<Rightarrow> u32 \<Rightarrow> process \<Rightarrow> process \<Rightarrow> bool" where
  "heap_grown r np p q \<longleftrightarrow> (\<exists>pm. q = p\<lparr>mm_heap := pm # mm_heap p\<rparr> \<and> v_addr pm = r \<and> mm_size pm = np)"

lemma mmap_add:
  assumes "procs s a = Some p" "unat np < 1048576"
    "pf = PROC_MEM_ADD_HEAP \<or> pf = PROC_MEM_ADD_HEAP OR PROC_MEM_ADD_IMEDIATE"
  shows "\<exists>e s' q. process_memory_add a (push_bit 12 np) (page_addr x) mf pf s = Some (e, s') \<and>
    procs s' = (procs s)(a \<mapsto> q) \<and> (e \<in> mem_errors \<and> q = p \<or> e = 0 \<and> heap_grown (page_addr x) np p q)"
proof -
  obtain e s' where r: "process_memory_add a (push_bit 12 np) (page_addr x) mf pf s = Some (e, s')"
    "e \<in> mem_errors \<and> procs s' = procs s \<or> (\<exists>q. e = 0 \<and> procs s' = (procs s)(a \<mapsto> q) \<and> heap_grown (page_addr x) np p q)"
    using process_memory_add_heap [OF assms(1,3), of "push_bit 12 np" "page_addr x" mf]
    unfolding page_addr_aligned pages_from_aligned [OF assms(2)] heap_grown_def by fastforce
  moreover have "procs s = (procs s)(a \<mapsto> p)" using assms(1) by auto
  ultimately show ?thesis by metis
qed

text \<open>The error numbers as addresses; none of them is the start of a page.\<close>

definition mmap_errors :: "u32 set" where
  "mmap_errors = {of_int (- EINVAL), of_int (- ENOSYS), of_int (- ENOMEM)}"

lemma mmap_errorsI [simp]:
  "of_int (- EINVAL) \<in> mmap_errors" "of_int (- ENOSYS) \<in> mmap_errors" "of_int (- ENOMEM) \<in> mmap_errors"
  by (simp_all add: mmap_errors_def)

lemma mem_errors_word: "e \<in> mem_errors \<Longrightarrow> e \<noteq> 0 \<and> of_int e \<in> mmap_errors"
  by (auto simp: mem_errors_def mmap_errors_def errno_defs)

text \<open>What a call may give: an error number and no change, or the new block.\<close>

definition mmap_outcome :: "nat \<Rightarrow> process \<Rightarrow> u32 \<Rightarrow> 'a proc_st_scheme \<Rightarrow> (u32 \<times> 'a proc_st_scheme) option \<Rightarrow> bool" where
  "mmap_outcome a p np s res \<longleftrightarrow> (\<exists>r s' q. res = Some (r, s') \<and> procs s' = (procs s)(a \<mapsto> q) \<and>
    (r \<in> mmap_errors \<and> r AND PAGE_FLAG \<noteq> 0 \<and> q = p \<or>
     r AND PAGE_FLAG = 0 \<and> heap_grown r np p q \<and> (\<exists>x. r = page_addr x \<and> free_range p x (unat np))))"

lemma mmap_errors_unaligned: "r \<in> mmap_errors \<Longrightarrow> r AND PAGE_FLAG \<noteq> 0"
  by (auto simp: mmap_errors_def errno_defs PAGE_FLAG_def)

lemma page_addr_flag: "page_addr x AND PAGE_FLAG = 0"
proof -
  have "page_addr x AND PAGE_FLAG = (page_addr x AND PAGE_ADDR) AND PAGE_FLAG" by (simp only: page_addr_aligned)
  then show ?thesis by (simp add: PAGE_ADDR_def and.assoc)
qed

lemma mmap_outcome_error:
  assumes "procs s a = Some p" "of_int e \<in> mmap_errors"
  shows "mmap_outcome a p np s (Some (of_int e, s))"
  unfolding mmap_outcome_def
  by (rule exI [of _ "of_int e"], rule exI [of _ s], rule exI [of _ p])
     (use assms mmap_errors_unaligned in \<open>auto simp: fun_upd_idem\<close>)

lemma mmap_result:
  assumes "procs s a = Some p"
  shows "mmap_outcome a p (mmap_get_number_of_page n) s (mmap a addr n prot fl fd off s)"
proof (cases "n = 0 \<or> addr AND PAGE_FLAG \<noteq> 0 \<or> fl AND MAP_ANON = 0 \<or> fd \<noteq> - 1 \<or> off \<noteq> 0")
  case True
  then show ?thesis using mmap_errorsI [THEN mmap_outcome_error [OF assms]] by (auto simp: mmap_def)
next
  case False
  define np where "np = mmap_get_number_of_page n"
  define pf where "pf = (if a = current s then PROC_MEM_ADD_HEAP OR PROC_MEM_ADD_IMEDIATE else PROC_MEM_ADD_HEAP)"
  have np: "unat np < 1048576" by (simp add: np_def number_of_page_less)
  have pfc: "pf = PROC_MEM_ADD_HEAP \<or> pf = PROC_MEM_ADD_HEAP OR PROC_MEM_ADD_IMEDIATE" by (simp add: pf_def)
  obtain mx where mx: "0 < mx" "mx < 1048576" "mmap_max_addr fl = page_addr mx" using mmap_max_addr_page by blast
  note err = mmap_errorsI [THEN mmap_outcome_error [OF assms, where np = np]]
  have add: "mmap_outcome a p np s (do { (err, s') \<leftarrow> process_memory_add a (push_bit 12 np) (page_addr x) (mmap_mflags prot) pf s;
         Some (if err \<noteq> 0 then of_int err else page_addr x, s') })"
    if fr: "free_range p x (unat np)" for x
  proof -
    obtain e t q where "process_memory_add a (push_bit 12 np) (page_addr x) (mmap_mflags prot) pf s = Some (e, t)"
      "procs t = (procs s)(a \<mapsto> q)" "e \<in> mem_errors \<and> q = p \<or> e = 0 \<and> heap_grown (page_addr x) np p q"
      using mmap_add [OF assms np pfc, of x "mmap_mflags prot"] by blast
    then show ?thesis
      using fr mem_errors_word [of e] mmap_errors_unaligned page_addr_flag [of x] unfolding mmap_outcome_def by auto
  qed
  define x1 where "x1 = unat addr div 4096"
  have x1: "addr = page_addr x1" using False by (simp add: x1_def aligned_page_addr)
  show ?thesis
  proof (cases "fl AND MAP_FIXED \<noteq> 0")
    case True
    show ?thesis
    proof (cases "mmap_fixed_free p (page_addr mx) np (page_addr x1) 0")
      case ok: True
      from mmap_fixed_free_range [OF ok] add [of x1] err False True ok assms show ?thesis
        unfolding mmap_def np_def [symmetric] pf_def [symmetric] mx(3) x1 Let_def by simp
    next
      case bad: False
      then show ?thesis
        using False True assms err unfolding mmap_def np_def [symmetric] pf_def [symmetric] mx(3) x1 Let_def by simp
    qed
  next
    case False': False
    define x0 where "x0 = (if addr = 0 \<or> addr \<ge> page_addr mx then mx else x1)"
    have frm: "(if addr = 0 \<or> addr \<ge> page_addr mx then page_addr mx else addr) = page_addr x0"
      by (simp add: x0_def x1)
    have x0: "0 < x0" "x0 \<le> mx"
    proof -
      have ua: "unat addr = 4096 * x1"
        using False by (simp add: x1_def aligned_iff minus_mod_eq_mult_div [symmetric])
      then have "addr \<noteq> 0 \<Longrightarrow> x1 \<noteq> 0" by (metis mult_0_right unat_eq_zero)
      moreover have "\<not> addr \<ge> page_addr mx \<Longrightarrow> x1 \<le> mx"
        using ua unat_page [OF mx(2)] by (simp add: word_le_nat_alt)
      ultimately show "0 < x0" "x0 \<le> mx" using mx(1) by (auto simp: x0_def)
    qed
    obtain r where r: "mmap_search p (page_addr mx) np (page_addr x0) (page_addr x0) 0 = Some r"
      "\<forall>v. r = Some v \<longrightarrow> (\<exists>y. 0 < y \<and> y + unat np \<le> mx + 1 \<and> v = page_addr y \<and> free_range p y (unat np))"
      using mmap_search_returns [OF x0 mx(2) x0, of 0 p np] by (auto simp: free_range_def)
    show ?thesis
    proof (cases r)
      case None
      then show ?thesis using False False' assms r(1) frm err
        unfolding mmap_def np_def [symmetric] pf_def [symmetric] mx(3) Let_def by simp
    next
      case (Some v)
      then obtain y where y: "v = page_addr y" "free_range p y (unat np)" using r(2) by blast
      from add [OF y(2)] False False' assms r(1) frm Some y(1) show ?thesis
        unfolding mmap_def np_def [symmetric] pf_def [symmetric] mx(3) Let_def by simp
    qed
  qed
qed

text \<open>
  C18. For a process that exists, \<^verbatim>\<open>mmap\<close> returns on every input: with one of three negative error numbers, and then no process has
  changed; or with the address of a page, and then the only change to a process is a new block at this address, at the
  front of the heap list of the caller. The new block has the number of pages that \<^verbatim>\<open>mmap_get_number_of_page\<close>
  computes (0 for the last 4095 lengths, where the rounding wraps around), and none of its pages lay in a block of the process before. An error number is never the address of a page.
\<close>

theorem mmap_takes_free_pages:
  assumes "procs s a = Some p"
  shows "\<exists>r s' q. mmap a addr n prot fl fd off s = Some (r, s') \<and> procs s' = (procs s)(a \<mapsto> q) \<and>
    (r \<in> mmap_errors \<and> r AND PAGE_FLAG \<noteq> 0 \<and> q = p \<or>
     r AND PAGE_FLAG = 0 \<and> heap_grown r (mmap_get_number_of_page n) p q \<and>
       (\<exists>x. r = page_addr x \<and> free_range p x (unat (mmap_get_number_of_page n))))"
  using mmap_result [OF assms] unfolding mmap_outcome_def .

theorem mmap_takes_free_pages_witness:
  "\<exists>r s' q. mmap 0x1000 0x400000 100 3 1 (- 1) 0 (demo_procs [0x1000 \<mapsto> empty_process\<lparr>pid := 1\<rparr>] [0x1000]) = Some (r, s')
     \<and> procs s' 0x1000 = Some q \<and> (r \<in> mmap_errors \<and> q = empty_process\<lparr>pid := 1\<rparr> \<or> heap_grown r 1 (empty_process\<lparr>pid := 1\<rparr>) q)"
proof -
  have "mmap_get_number_of_page 100 = 1" by (simp add: mmap_get_number_of_page_def)
  then show ?thesis
    using mmap_takes_free_pages [of "demo_procs [0x1000 \<mapsto> empty_process\<lparr>pid := 1\<rparr>] [0x1000]" "0x1000" "empty_process\<lparr>pid := 1\<rparr>"
        "0x400000" 100 3 1 "- 1" 0] by auto
qed

text \<open>
  C33. \<^verbatim>\<open>munmap\<close> takes the number of pages behind the range for the offset of the range. When it is asked
  for the first page of a heap block of three pages (of a process other than the current one, below \<open>0xB0000000\<close>, with memory for the new block record), it frees the physical page of the third one,
  which the block that stays behind still covers; the page it was asked for is not freed.
\<close>

theorem munmap_frees_the_wrong_page:
  assumes "procs s a = Some p" "mmap_get_block_l (mm_stack p) v = None" "mmap_get_block_l (mm_heap p) v = Some block"
    "v_addr block = v" "mm_size block = 3" "v AND PAGE_FLAG = 0" "v < 0xB0000000" "a \<noteq> current s"
    "kmalloc sizeof_map_memory s = (Some node, s1)"
  shows "\<exists>s' q. munmap a v 4096 0 s = Some (0, s') \<and> procs s' a = Some q \<and>
    mm_bitmap s' = mm_bitmap (kfree (mm_node block) (free_phys_block (p_addr block + 0x2000) 1 s1)) \<and>
    mm_heap q = replace_block (mm_node block)
      [\<lparr>mm_node = node, v_addr = v + 0x1000, p_addr = p_addr block + 0x1000, mm_size = 2, flags = flags block\<rparr>] (mm_heap p)"
proof -
  have v: "\<not> v + 4096 \<le> v" "\<not> v + 4096 > mmap_max_addr 0 + 4096"
    using assms(7) by (simp_all add: mmap_max_addr_def word_le_nat_alt word_less_nat_alt unat_word_ariths)
  have np: "mmap_get_number_of_page 4096 = 1" by (simp add: mmap_get_number_of_page_def)
  have b: "mmap_get_block p v = Some (In_heap, block)" using assms(2,3) by (simp add: mmap_get_block_def)
  have c: "current s1 = current s" "procs s1 = procs s" using proc_kmalloc [OF assms(9)] by simp_all
  have "\<not> (3 :: u32) \<le> 1" by (simp add: word_le_nat_alt)
  then show ?thesis
    using assms v np b c by (simp add: munmap_def Let_def update_proc_def)
qed

lemma demo_procs_kmalloc: "\<exists>s'. kmalloc sizeof_map_memory (demo_procs t l) = (Some 0xC0510030, s')"
  by (simp add: kmalloc_def sizeof_map_memory_def try_allocate_def demo_heap_def
      try_walk.simps MALLOC_ALIGN_def sizeof_defs Let_def)

theorem munmap_frees_the_wrong_page_witness:
  "\<exists>s' q. munmap 0x1000 0x400000 4096 0 (demo_procs [0x1000 \<mapsto> empty_process\<lparr>mm_heap :=
       [\<lparr>mm_node = 0x5000, v_addr = 0x400000, p_addr = 0x800000, mm_size = 3, flags = 7\<rparr>]\<rparr>] [0x1000]) = Some (0, s') \<and>
     procs s' 0x1000 = Some q \<and>
     mm_heap q = [\<lparr>mm_node = 0xC0510030, v_addr = 0x401000, p_addr = 0x801000, mm_size = 2, flags = 7\<rparr>]"
proof -
  let ?b = "\<lparr>mm_node = 0x5000, v_addr = 0x400000, p_addr = 0x800000, mm_size = 3, flags = 7\<rparr>"
  let ?p = "empty_process\<lparr>mm_heap := [?b]\<rparr>"
  let ?s = "demo_procs [0x1000 \<mapsto> ?p] [0x1000]"
  obtain s1 where k: "kmalloc sizeof_map_memory ?s = (Some 0xC0510030, s1)" using demo_procs_kmalloc by blast
  have l: "mmap_get_block_l (mm_stack ?p) 0x400000 = None" "mmap_get_block_l (mm_heap ?p) 0x400000 = Some ?b"
    by (simp_all add: mmap_get_block_l_def in_block_def empty_process_def word_less_nat_alt word_le_nat_alt)
  show ?thesis
    using munmap_frees_the_wrong_page [OF _ l _ _ _ _ _ k, where a = "0x1000"] by (simp add: PAGE_FLAG_def) blast
qed

end
