(* ===== verification/Scheduler_Correct.thy ===== *)
theory Scheduler_Correct
  imports Scheduler Process_Table
begin

text \<open>
  The scheduler serves the processes in turn: it picks the first ready process after the current one
  in the circular order of the list; when it does not return; and a context switch restores the
  registers it saved.
\<close>

subsection \<open>The circular order\<close>

definition ready :: "'a proc_st_scheme \<Rightarrow> nat \<Rightarrow> bool" where
  "ready s b \<longleftrightarrow> (case procs s b of None \<Rightarrow> False | Some p \<Rightarrow> state p = RUN \<or> sigs p \<noteq> [])"

definition asleep :: "'a proc_st_scheme \<Rightarrow> nat \<Rightarrow> bool" where
  "asleep s b \<longleftrightarrow> (case procs s b of None \<Rightarrow> False | Some p \<Rightarrow> state p \<noteq> RUN \<and> state p \<noteq> ZOMBIE \<and> sigs p = [])"

definition rotation :: "nat \<Rightarrow> nat list \<Rightarrow> nat list" where
  "rotation a l = tl (dropWhile (\<lambda>b. b \<noteq> a) l) @ takeWhile (\<lambda>b. b \<noteq> a) l @ [a]"

definition turn_order :: "'a proc_st_scheme \<Rightarrow> nat list" where
  "turn_order s = (if current s = 0 then process_list s else rotation (current s) (process_list s))"

definition list_wf :: "'a proc_st_scheme \<Rightarrow> bool" where
  "list_wf s \<longleftrightarrow> distinct (process_list s) \<and> 0 \<notin> set (process_list s) \<and> set (process_list s) \<subseteq> dom (procs s) \<and>
     (current s = 0 \<or> current s \<in> set (process_list s))"

lemma until_split [simp]:
  assumes "a \<notin> set xs"
  shows "dropWhile (\<lambda>b. b \<noteq> a) (xs @ a # ys) = a # ys" "takeWhile (\<lambda>b. b \<noteq> a) (xs @ a # ys) = xs"
  using assms by (induction xs) auto

lemma rotation_split: "a \<notin> set xs \<Longrightarrow> rotation a (xs @ a # ys) = ys @ xs @ [a]"
  by (simp add: rotation_def)

lemma set_rotation: "a \<in> set l \<Longrightarrow> set (rotation a l) = set l"
proof -
  assume "a \<in> set l"
  then obtain xs ys where "l = xs @ a # ys" "a \<notin> set xs" by (meson split_list_first)
  then show ?thesis by (auto simp: rotation_split)
qed

lemma set_turn_order: "list_wf s \<Longrightarrow> set (turn_order s) = set (process_list s)"
  by (auto simp: list_wf_def turn_order_def set_rotation)

primrec succs :: "'a proc_st_scheme \<Rightarrow> nat \<Rightarrow> nat list \<Rightarrow> bool" where
  "succs s x [] = True"
| "succs s x (y # ys) = (next_process x s = Some y \<and> succs s y ys)"

lemma succs_append: "succs s x (rs @ ts) \<longleftrightarrow> succs s x rs \<and> succs s (last (x # rs)) ts"
  by (induction rs arbitrary: x) auto

lemma succs_tail:
  assumes "process_list s = us @ b # vs" "distinct (process_list s)" "0 \<notin> set (process_list s)"
  shows "succs s b vs"
  using assms
proof (induction vs arbitrary: us b)
  case (Cons c vs)
  have "succs s c vs" by (rule Cons.IH [of "us @ [b]"]) (use Cons.prems in auto)
  moreover have "next_process b s = Some c" using Cons.prems by (simp add: next_process_def after_def)
  ultimately show ?case by simp
qed simp

lemma succs_wrap:
  assumes "process_list s = us @ [b]" "distinct (process_list s)" "0 \<notin> set (process_list s)"
  shows "next_process b s = Some (hd (process_list s))"
  using assms by (simp add: next_process_def after_def)

lemma turn_order_succs:
  assumes "list_wf s"
  shows "succs s (current s) (turn_order s)"
proof (cases "current s = 0")
  case True
  show ?thesis
  proof (cases "process_list s")
    case (Cons b l)
    have "succs s b l" by (rule succs_tail [of _ "[]"]) (use Cons assms in \<open>auto simp: list_wf_def\<close>)
    with True Cons show ?thesis by (simp add: turn_order_def next_process_def)
  qed (simp add: True turn_order_def)
next
  case False
  let ?a = "current s" and ?l = "process_list s"
  have wf: "distinct ?l" "0 \<notin> set ?l" "?a \<in> set ?l" using assms False by (auto simp: list_wf_def)
  then obtain xs ys where l: "?l = xs @ ?a # ys" "?a \<notin> set xs" by (meson split_list_first)
  have 1: "succs s ?a ys" by (rule succs_tail [OF l(1) wf(1,2)])
  define z where "z = last (?a # ys)"
  have "?l = butlast ?l @ [z]" using l(1) by (metis append_butlast_last_id last_append list.discI z_def append_is_Nil_conv)
  then have 2: "next_process z s = Some (hd ?l)" using succs_wrap wf(1,2) by blast
  have 3: "succs s z (xs @ [?a])"
  proof (cases xs)
    case Nil
    then show ?thesis using 2 l(1) by simp
  next
    case (Cons b us)
    have "succs s b (us @ ?a # ys)" by (rule succs_tail [of _ "[]"]) (use Cons l(1) wf in auto)
    then have "succs s b (us @ [?a])" by (simp add: succs_append)
    then show ?thesis using 2 l(1) Cons by simp
  qed
  have "turn_order s = ys @ xs @ [?a]"
    unfolding turn_order_def using False rotation_split [OF l(2), of ys] l(1) by simp
  then show ?thesis using 1 3 by (simp add: succs_append z_def)
qed

subsection \<open>What the loop returns\<close>

lemma select_walk:
  assumes "succs s x rs" "rs \<noteq> []" "0 \<notin> set rs" "set rs \<subseteq> dom (procs s)" "prev \<notin> set (butlast rs)"
    "last rs = prev \<or> (\<exists>b \<in> set rs. ready s b)"
  shows "select_loop s x prev m =
    (case find (ready s) rs of
       Some b \<Rightarrow> Some (b, m \<or> (\<exists>c \<in> set (takeWhile (\<lambda>c. \<not> ready s c) rs). asleep s c))
     | None \<Rightarrow> Some (0, m \<or> (\<exists>c \<in> set rs. asleep s c)))"
  using assms
proof (induction rs arbitrary: x m)
  case (Cons y rs)
  obtain p where p: "procs s y = Some p" using Cons.prems(4) by auto
  have y: "next_process x s = Some y" "y \<noteq> 0" "succs s y rs" using Cons.prems by auto
  show ?case
  proof (cases "ready s y")
    case True
    then show ?thesis using y p by (subst select_loop.simps) (auto simp: ready_def)
  next
    case nr: False
    then have st: "state p \<noteq> RUN" "sigs p = []" using p by (auto simp: ready_def)
    have as: "asleep s y \<longleftrightarrow> state p \<noteq> ZOMBIE" using p st by (simp add: asleep_def)
    show ?thesis
    proof (cases "rs = []")
      case True
      then have "y = prev" using Cons.prems(6) nr by auto
      then show ?thesis using y p st as nr True by (subst select_loop.simps) simp
    next
      case False
      then have ne: "y \<noteq> prev" using Cons.prems(5) by auto
      have "select_loop s x prev m = select_loop s y prev (m \<or> asleep s y)"
        using y p st ne as by (subst select_loop.simps) simp
      also have "\<dots> = (case find (ready s) rs of
           Some b \<Rightarrow> Some (b, (m \<or> asleep s y) \<or> (\<exists>c \<in> set (takeWhile (\<lambda>c. \<not> ready s c) rs). asleep s c))
         | None \<Rightarrow> Some (0, (m \<or> asleep s y) \<or> (\<exists>c \<in> set rs. asleep s c)))"
        by (rule Cons.IH) (use False y(3) Cons.prems nr in auto)
      finally show ?thesis using nr by (auto split: option.splits)
    qed
  qed
qed simp

lemma find_None_ready: "find P l = None \<longleftrightarrow> (\<forall>b \<in> set l. \<not> P b)"
  by (induction l) auto

lemma prev_not_before:
  assumes "list_wf s"
  shows "current s \<notin> set (butlast (turn_order s))" "current s \<noteq> 0 \<Longrightarrow> last (turn_order s) = current s"
proof -
  have "rotation a l = b @ [a]" if "b = tl (dropWhile (\<lambda>b. b \<noteq> a) l) @ takeWhile (\<lambda>b. b \<noteq> a) l" for a b l
    using that by (simp add: rotation_def)
  then show l: "current s \<noteq> 0 \<Longrightarrow> last (turn_order s) = current s" by (simp add: turn_order_def rotation_def)
  show "current s \<notin> set (butlast (turn_order s))"
  proof (cases "current s = 0")
    case True
    then show ?thesis using assms by (auto simp: turn_order_def list_wf_def dest: in_set_butlastD)
  next
    case False
    then have d: "distinct (process_list s)" "current s \<in> set (process_list s)" using assms by (auto simp: list_wf_def)
    then obtain xs ys where "process_list s = xs @ current s # ys" "current s \<notin> set xs" by (meson split_list_first)
    then show ?thesis using d(1) False rotation_split [of "current s" xs ys] by (auto simp: turn_order_def butlast_append)
  qed
qed

lemma select_serves:
  assumes "list_wf s" "current s \<noteq> 0 \<or> (\<exists>b \<in> set (process_list s). ready s b) \<or> process_list s = []"
  shows "case find (ready s) (turn_order s) of
       Some b \<Rightarrow> (\<exists>m. select_loop s (current s) (current s) False = Some (b, m))
     | None \<Rightarrow> select_loop s (current s) (current s) False = Some (0, \<exists>c \<in> set (process_list s). asleep s c)"
proof (cases "process_list s = []")
  case True
  then have "current s = 0" using assms(1) by (auto simp: list_wf_def)
  then show ?thesis using True by (subst select_loop.simps) (simp add: turn_order_def next_process_def)
next
  case False
  have st: "set (turn_order s) = set (process_list s)" by (rule set_turn_order [OF assms(1)])
  have "select_loop s (current s) (current s) False =
    (case find (ready s) (turn_order s) of
       Some b \<Rightarrow> Some (b, False \<or> (\<exists>c \<in> set (takeWhile (\<lambda>c. \<not> ready s c) (turn_order s)). asleep s c))
     | None \<Rightarrow> Some (0, False \<or> (\<exists>c \<in> set (turn_order s). asleep s c)))"
  proof (rule select_walk)
    show "succs s (current s) (turn_order s)" by (rule turn_order_succs [OF assms(1)])
    show "turn_order s \<noteq> []" using st False by (metis set_empty)
    show "0 \<notin> set (turn_order s)" "set (turn_order s) \<subseteq> dom (procs s)" using assms(1) st by (auto simp: list_wf_def)
    show "current s \<notin> set (butlast (turn_order s))" by (rule prev_not_before [OF assms(1)])
    show "last (turn_order s) = current s \<or> (\<exists>b \<in> set (turn_order s). ready s b)"
      using assms(2) False st prev_not_before(2) [OF assms(1)] by auto
  qed
  then show ?thesis using st by (auto split: option.splits)
qed

subsection \<open>What the switch does with it\<close>

lemma vm_frame_switch_maps: "switch_maps add pms s = (e, s') \<Longrightarrow> vm_frame s s'"
proof (induction add pms s rule: switch_maps.induct)
  case (2 add pm pms s)
  obtain e1 s1 where s1: "page_map_range (p_addr pm) (v_addr pm) (switch_flags add (flags pm)) (unat (mm_size pm)) s = (e1, s1)"
    by fastforce
  show ?case
    using "2.prems" "2.IH" [OF s1 [symmetric]] vm_frame_page_map_range [OF s1] s1 vm_frame_trans by (auto split: if_splits)
qed auto

lemma vm_frame_memory_switch:
  assumes "process_memory_switch a add s = Some (e, s')"
  shows "vm_frame s s'"
proof (cases "a = 0")
  case False
  then obtain p where p: "procs s a = Some p" using assms by (auto simp: process_memory_switch_def bind_eq_Some_conv)
  obtain e1 s1 e2 s2 e3 s3 where 1: "switch_maps add (mm_heap p) s = (e1, s1)" "switch_maps add (mm_stack p) s1 = (e2, s2)"
    "switch_maps add [mm_code p] s2 = (e3, s3)" by (metis surj_pair)
  note v = 1 [THEN vm_frame_switch_maps]
  have t: "vm_frame s s2" "vm_frame s s3" using vm_frame_trans [OF v(1,2)] vm_frame_trans [OF vm_frame_trans [OF v(1,2)] v(3)] by simp_all
  have "s' = s1 \<or> s' = s2 \<or> s' = s3"
    using assms False unfolding process_memory_switch_def p 1 prod.case Option.bind.simps by (simp add: 1 split: if_splits)
  then show ?thesis using v(1) t by blast
qed (use assms in \<open>simp add: process_memory_switch_def\<close>)

lemma memory_switch_total:
  fixes s :: "'a sched_st_scheme" and add :: bool
  assumes "a \<noteq> 0" "a \<in> dom (procs s)"
  obtains e s' where "process_memory_switch a add s = Some (e, s')" "procs s' = procs s" "current s' = current s"
    "scratch s' = scratch s"
proof -
  have "process_memory_switch a add s \<noteq> None" using assms by (auto simp: process_memory_switch_def)
  then obtain y where "process_memory_switch a add s = Some y" by blast
  then obtain e s' where r: "process_memory_switch a add s = Some (e, s')" by (cases y) auto
  from vm_frame_memory_switch [OF r] show ?thesis using that [OF r] by (auto simp: vm_frame_def)
qed

text \<open>The state in which the maps are exchanged: the registers of the old process are saved, the chosen one is current.\<close>

definition saved :: "interupt \<Rightarrow> nat \<Rightarrow> 'a sched_st_scheme \<Rightarrow> 'a sched_st_scheme" where
  "saved d b s = s\<lparr>current := b, procs := (if current s = 0 then procs s
     else (procs s)(current s := map_option (\<lambda>p. p\<lparr>pregs := proc_save d (pregs p)\<rparr>) (procs s (current s))))\<rparr>"

text \<open>Whether the maps of \<open>old\<close> are taken out and those of \<open>new\<close> put in without an error of \<^verbatim>\<open>page_map_range\<close>.\<close>

definition maps_switched :: "nat \<Rightarrow> nat \<Rightarrow> 'a sched_st_scheme \<Rightarrow> bool" where
  "maps_switched old new s \<longleftrightarrow> (\<exists>s1 s2. (if old \<noteq> 0 then process_memory_switch old False s else Some (0, s)) = Some (0, s1) \<and>
     process_memory_switch new True s1 = Some (0, s2))"

lemma proc_switch_p_resumes:
  assumes "procs s new = Some p" "state p = RUN" "sigs p = []" "new \<noteq> 0" "old \<noteq> 0 \<Longrightarrow> old \<in> dom (procs s)"
  shows "\<exists>out s'. proc_switch_p old new s = Some (Done out, s') \<and> current s' = current s \<and>
    (if maps_switched old new s then out = Resume new (proc_load (pregs p) (scratch s)) else \<exists>msg. out = Panic msg)"
proof -
  have "\<exists>e1 s1. (if old \<noteq> 0 then process_memory_switch old False s else Some (0, s)) = Some (e1, s1) \<and>
      procs s1 = procs s \<and> current s1 = current s \<and> scratch s1 = scratch s"
  proof (cases "old = 0")
    case False
    then show ?thesis by (metis memory_switch_total [OF False assms(5) [OF False]])
  qed simp
  then obtain e1 s1 where s1: "(if old \<noteq> 0 then process_memory_switch old False s else Some (0, s)) = Some (e1, s1)"
    "procs s1 = procs s" "current s1 = current s" "scratch s1 = scratch s" by blast
  obtain e2 s2 where s2: "process_memory_switch new True s1 = Some (e2, s2)" "procs s2 = procs s" "current s2 = current s"
    using memory_switch_total [where a = new and s = s1 and add = True] assms(1,4) s1 by (metis domI)
  have "maps_switched old new s \<longleftrightarrow> e1 = 0 \<and> e2 = 0"
    unfolding maps_switched_def s1(1) using s2(1) by auto
  then show ?thesis
    using assms(1-3) s1 s2 by (simp add: proc_switch_p_def kern_panic_def printk_def Let_def)
qed

lemma saved_simps [simp]:
  "current (saved d b s) = b" "scratch (saved d b s) = scratch s" "dom (procs (saved d b s)) = dom (procs s)"
  by (auto simp: saved_def dom_def)

lemma proc_switch_saved:
  assumes "list_wf s"
  shows "proc_switch (Some d) (current s) b (s\<lparr>current := b\<rparr>) =
    proc_switch_p (current s) (if b = 0 then process_hlt s else b) (saved d b s)"
proof (cases "current s = 0")
  case True
  then show ?thesis by (simp add: proc_switch_def saved_def)
next
  case False
  then obtain p where "procs s (current s) = Some p" using assms by (auto simp: list_wf_def)
  then show ?thesis using False by (simp add: proc_switch_def saved_def update_proc_def)
qed

lemma switch_process_resumes:
  assumes "list_wf s" "select_loop s (current s) (current s) False = Some (b, m)" "m \<or> b \<noteq> 0"
    "procs (saved d b s) w = Some p" "w = (if b = 0 then process_hlt s else b)" "w \<noteq> 0" "state p = RUN" "sigs p = []"
  shows "\<exists>out s'. switch_process (Some d) s = Some (out, s') \<and> current s' = b \<and>
    (if maps_switched (current s) w (saved d b s) then out = Resume w (proc_load (pregs p) (scratch s)) else \<exists>msg. out = Panic msg)"
proof -
  have "current s \<noteq> 0 \<Longrightarrow> current s \<in> dom (procs (saved d b s))" using assms(1) by (auto simp: list_wf_def)
  from proc_switch_p_resumes [OF assms(4,7,8,6) this] obtain out s'
    where r: "proc_switch_p (current s) w (saved d b s) = Some (Done out, s')" "current s' = b"
      "if maps_switched (current s) w (saved d b s) then out = Resume w (proc_load (pregs p) (scratch s)) else \<exists>msg. out = Panic msg"
    by auto
  have "switch_pass (Some d) s = Some (Done out, s')"
    using assms(2,3,5) r(1) by (auto simp: switch_pass_def proc_switch_saved [OF assms(1)])
  then have "switch_process (Some d) s = Some (out, s')" by (simp add: switch_process.simps)
  then show ?thesis using r by blast
qed

text \<open>
  C12. The scheduler serves in turn. Let the list hold processes, each once, and the current process, if any, be one of them. Whenever there is a current process, a ready one (one that runs or has a
  signal waiting) or no process at all, the loop \<^verbatim>\<open>select\<close> returns, and it picks the first ready process after the
  current one in the circular order of the process list. When that process runs and has no signal waiting,
  \<^verbatim>\<open>switch_process\<close> returns: the process is the current one, and it goes on with the frame that \<^verbatim>\<open>proc_load\<close> fills from its
  registers (just saved, when it is the old process too), provided that \<^verbatim>\<open>page_map_range\<close> reports no error when the maps are exchanged; otherwise
  the kernel panics. When none is ready and one is asleep, \<^verbatim>\<open>switch_process\<close> returns to the idle process in the
  same way, with no current process (when there is an idle process, which runs without a signal); when none is even asleep, it panics. (A process that is picked for its signal may change state in the
  delivery and be passed over after all; of this the second half says nothing.)
\<close>

theorem scheduler_serves_in_turn:
  assumes "list_wf s" "current s \<noteq> 0 \<or> (\<exists>b \<in> set (process_list s). ready s b) \<or> process_list s = []"
  shows "case find (ready s) (turn_order s) of
       Some b \<Rightarrow> (\<exists>m. select_loop s (current s) (current s) False = Some (b, m)) \<and>
         (\<forall>p. procs (saved d b s) b = Some p \<and> state p = RUN \<and> sigs p = [] \<longrightarrow>
           (\<exists>out s'. switch_process (Some d) s = Some (out, s') \<and> current s' = b \<and>
             (if maps_switched (current s) b (saved d b s) then out = Resume b (proc_load (pregs p) (scratch s))
              else \<exists>msg. out = Panic msg)))
     | None \<Rightarrow> select_loop s (current s) (current s) False = Some (0, \<exists>c \<in> set (process_list s). asleep s c) \<and>
         (if \<exists>c \<in> set (process_list s). asleep s c
          then \<forall>p. procs (saved d 0 s) (process_hlt s) = Some p \<and> process_hlt s \<noteq> 0 \<and> state p = RUN \<and> sigs p = [] \<longrightarrow>
           (\<exists>out s'. switch_process (Some d) s = Some (out, s') \<and> current s' = 0 \<and>
             (if maps_switched (current s) (process_hlt s) (saved d 0 s)
              then out = Resume (process_hlt s) (proc_load (pregs p) (scratch s)) else \<exists>msg. out = Panic msg))
          else \<exists>s'. switch_process (Some d) s = Some (Panic ''No more task'', s'))"
proof (cases "find (ready s) (turn_order s)")
  case (Some b)
  then have "b \<in> set (turn_order s)" by (metis find_Some_iff nth_mem)
  then have b: "b \<noteq> 0" using assms(1) set_turn_order [OF assms(1)] unfolding list_wf_def by metis
  obtain m where m: "select_loop s (current s) (current s) False = Some (b, m)" using select_serves [OF assms] Some by auto
  show ?thesis
    using switch_process_resumes [OF assms(1) m _ _ _ b, where d = d] b m Some by auto
next
  case None
  let ?a = "\<exists>c \<in> set (process_list s). asleep s c"
  have m: "select_loop s (current s) (current s) False = Some (0, ?a)" using select_serves [OF assms] None by simp
  have "\<exists>s'. switch_process (Some d) s = Some (Panic ''No more task'', s')" if "\<not> ?a"
    using m that by (simp add: switch_process.simps switch_pass_def kern_panic_def)
  then show ?thesis
    using switch_process_resumes [OF assms(1) m, where d = d and w = "process_hlt s"] m None by auto
qed

text \<open>A scheduler with processes that have no memory of their own, so that there is nothing to map.\<close>

definition demo_sched :: "(nat \<Rightarrow> process option) \<Rightarrow> nat list \<Rightarrow> sched_st" where
  "demo_sched t l = proc_st.extend (demo_procs t l) \<lparr>scratch = \<lparr>i_ds = 0, i_es = 0, i_fs = 0, i_gs = 0, i_edi = 0, i_esi = 0,
     i_ebp = 0, i_esp = 0, i_ebx = 0, i_edx = 0, i_ecx = 0, i_eax = 0, int_no = 0, err_code = 0, i_eip = 0, i_cs = 0,
     i_eflags = 0, useresp = 0, i_ss = 0\<rparr>\<rparr>"

lemma demo_sched_simps [simp]:
  "procs (demo_sched t l) = t" "process_list (demo_sched t l) = l" "current (demo_sched t l) = 0"
  by (simp_all add: demo_sched_def demo_procs_def proc_st.defs heap_st.defs)

lemma demo_no_maps:
  assumes "mm_code p = zero_map" "mm_heap p = []" "mm_stack p = []" "procs s a = Some p" "a \<noteq> 0"
  shows "process_memory_switch a add s = Some (0, s)"
  using assms by (simp add: process_memory_switch_def page_map_range_def until_error.simps zero_map_def)

theorem scheduler_serves_in_turn_witness:
  "\<exists>s'. switch_process (Some (scratch (demo_sched Map.empty []))) ((demo_sched [0x1000 \<mapsto> empty_process, 0x2000 \<mapsto> empty_process\<lparr>state := STOPPED\<rparr>,
       0x3000 \<mapsto> empty_process\<lparr>pregs := zero_regs\<lparr>eax := 7\<rparr>\<rparr>] [0x1000, 0x2000, 0x3000])\<lparr>current := 0x1000\<rparr>) =
     Some (Resume 0x3000 (proc_load (zero_regs\<lparr>eax := 7\<rparr>) (scratch (demo_sched Map.empty []))), s') \<and> current s' = 0x3000"
proof -
  let ?d = "scratch (demo_sched Map.empty [])"
  let ?s = "(demo_sched [0x1000 \<mapsto> empty_process, 0x2000 \<mapsto> empty_process\<lparr>state := STOPPED\<rparr>,
       0x3000 \<mapsto> empty_process\<lparr>pregs := zero_regs\<lparr>eax := 7\<rparr>\<rparr>] [0x1000, 0x2000, 0x3000])\<lparr>current := 0x1000\<rparr>"
  have wf: "list_wf ?s" by (auto simp: list_wf_def)
  have c: "current ?s = 0x1000" by simp
  have q: "state (empty_process\<lparr>pregs := r\<rparr>) = RUN" "sigs (empty_process\<lparr>pregs := r\<rparr>) = []"
    "pregs (empty_process\<lparr>pregs := r\<rparr>) = r" for r by (simp_all add: empty_process_def)
  have sc: "scratch ?s = scratch (demo_sched Map.empty [])" by (simp add: demo_sched_def proc_st.defs)
  have "ready ?s 0x3000" "\<not> ready ?s 0x2000" by (simp_all add: ready_def empty_process_def)
  then have f: "find (ready ?s) (turn_order ?s) = Some 0x3000" by (simp add: turn_order_def rotation_def)
  have p: "procs (saved ?d 0x3000 ?s) 0x3000 = Some (empty_process\<lparr>pregs := zero_regs\<lparr>eax := 7\<rparr>\<rparr>)"
    "procs (saved ?d 0x3000 ?s) 0x1000 = Some (empty_process\<lparr>pregs := proc_save ?d zero_regs\<rparr>)"
    by (simp_all add: saved_def empty_process_def)
  have "process_memory_switch 0x1000 False (saved ?d 0x3000 ?s) = Some (0, saved ?d 0x3000 ?s)"
    "process_memory_switch 0x3000 True (saved ?d 0x3000 ?s) = Some (0, saved ?d 0x3000 ?s)"
    by (rule demo_no_maps [OF _ _ _ p(2)] demo_no_maps [OF _ _ _ p(1)]; simp add: empty_process_def)+
  then have "maps_switched 0x1000 0x3000 (saved ?d 0x3000 ?s)" by (simp add: maps_switched_def)
  then show ?thesis
    using scheduler_serves_in_turn [OF wf, where d = ?d] f p(1) q sc c by simp
qed

subsection \<open>When the loop does not end\<close>

definition nothing_ready :: "'a proc_st_scheme \<Rightarrow> bool" where
  "nothing_ready s \<longleftrightarrow> (\<forall>b \<in> set (process_list s). \<not> ready s b)"

lemma next_in_list:
  assumes "list_wf s" "process_list s \<noteq> []" "x = 0 \<or> x \<in> set (process_list s)"
  shows "\<exists>b. next_process x s = Some b \<and> b \<in> set (process_list s)"
proof (cases "x = 0")
  case True
  then show ?thesis using assms(2) by (auto simp: next_process_def split: list.split)
next
  case False
  then have "x \<in> set (process_list s)" using assms(3) by simp
  then obtain us vs where "process_list s = us @ x # vs" "x \<notin> set us" by (meson split_list_first)
  then show ?thesis using False assms(2) by (cases vs) (auto simp: next_process_def after_def hd_append)
qed

definition stuck :: "'a proc_st_scheme \<Rightarrow> nat \<Rightarrow> bool" where
  "stuck s x \<longleftrightarrow> list_wf s \<and> process_list s \<noteq> [] \<and> nothing_ready s \<and> (x = 0 \<or> x \<in> set (process_list s))"

lemma stuck_step:
  assumes "stuck s x"
  obtains b p where "next_process x s = Some b" "b \<noteq> 0" "procs s b = Some p" "state p \<noteq> RUN" "sigs p = []" "stuck s b"
proof -
  obtain b where b: "next_process x s = Some b" "b \<in> set (process_list s)"
    using next_in_list assms by (auto simp: stuck_def)
  obtain p where p: "procs s b = Some p" "b \<noteq> 0" using assms b(2) by (auto simp: stuck_def list_wf_def)
  have "\<not> ready s b" using assms b(2) by (auto simp: stuck_def nothing_ready_def)
  then show ?thesis using that b p assms by (auto simp: ready_def stuck_def)
qed

lemma select_never_returns:
  assumes "select_loop s x 0 m = Some y"
  shows "\<not> stuck s x"
proof -
  have "prev = 0 \<longrightarrow> \<not> stuck s x" if "select_loop s x prev m = Some y" for prev
    using that
  proof (rule select_loop.raw_induct [where P = "\<lambda>s x prev m y. prev = 0 \<longrightarrow> \<not> stuck s x", rotated])
    fix loop :: "'a proc_st_scheme \<Rightarrow> nat \<Rightarrow> nat \<Rightarrow> bool \<Rightarrow> (nat \<times> bool) option"
      and s :: "'a proc_st_scheme" and x prev m y
    assume ih: "\<And>s x prev m y. loop s x prev m = Some y \<Longrightarrow> prev = 0 \<longrightarrow> \<not> stuck s x"
      and run: "Option.bind (next_process x s) (\<lambda>nxt.
       if nxt = 0 then Some (0, m)
       else Option.bind (procs s nxt) (\<lambda>p.
         if state p \<noteq> RUN \<and> sigs p = []
         then if nxt = prev then Some (0, m \<or> state p \<noteq> ZOMBIE)
              else loop s nxt prev (m \<or> state p \<noteq> ZOMBIE)
         else Some (nxt, m))) = Some y"
    show "prev = 0 \<longrightarrow> \<not> stuck s x"
    proof (intro impI notI)
      assume 0: "prev = 0" and "stuck s x"
      then obtain b p where b: "next_process x s = Some b" "b \<noteq> 0" "procs s b = Some p" "state p \<noteq> RUN" "sigs p = []" "stuck s b"
        using stuck_step by blast
      then have "loop s b prev (m \<or> state p \<noteq> ZOMBIE) = Some y" using run 0 by simp
      with ih b(6) 0 show False by blast
    qed
  qed
  with assms show ?thesis by blast
qed

text \<open>
  C35. When there is no current process (the last one has just ended, or the machine was idle) and no
  process of the list is ready, the scheduler never returns: its loop only stops at the process it
  began with, and there is none. The machine hangs in it with interrupts disabled, although processes
  may only be asleep.
\<close>

theorem scheduler_hangs_without_current:
  assumes "list_wf s" "current s = 0" "process_list s \<noteq> []" "nothing_ready s"
  shows "switch_process data s = None"
proof -
  have "select_loop s 0 0 False = None"
    using select_never_returns [of s 0 False] assms by (cases "select_loop s 0 0 False") (auto simp: stuck_def)
  then show ?thesis using assms(2) by (subst switch_process.simps) (simp add: switch_pass_def)
qed

theorem scheduler_hangs_without_current_witness:
  "switch_process None (demo_sched [0x1000 \<mapsto> empty_process\<lparr>state := STOPPED\<rparr>] [0x1000]) = None"
  by (rule scheduler_hangs_without_current)
     (auto simp: list_wf_def nothing_ready_def ready_def empty_process_def)

subsection \<open>Registers\<close>

text \<open>A frame whose segment registers hold selectors.\<close>

definition frame_ok :: "interupt \<Rightarrow> bool" where
  "frame_ok d \<longleftrightarrow> i_ds d < 65536 \<and> i_es d < 65536 \<and> i_fs d < 65536 \<and> i_gs d < 65536 \<and> i_cs d < 65536 \<and> i_ss d < 65536"

lemma ucast_selector: "x < 65536 \<Longrightarrow> ucast (ucast x :: u16) = (x :: u32)"
proof -
  assume "x < 65536"
  then have "unat x < 65536" by (simp add: word_less_nat_alt)
  then have "take_bit 16 x = x" by (simp add: word_unat_eq_iff take_bit_eq_mod unat_mod)
  then show ?thesis by (simp add: word_unat_eq_iff unsigned_ucast_eq)
qed

text \<open>
  C13. What \<^verbatim>\<open>proc_save\<close> stores, \<^verbatim>\<open>proc_load\<close> brings back, whatever the frame held before: the general
  registers, the segment selectors, the instruction pointer, and the stack of the privilege level the
  process was interrupted in. Of the flags, the interrupt flag comes back set and the nested-task
  flag clear; every other bit is kept.
\<close>

theorem context_switch_restores_registers:
  assumes "frame_ok d"
  shows "proc_load (proc_save d r) d0 =
    (let d1 = d\<lparr>int_no := int_no d0, err_code := err_code d0, i_eflags := (i_eflags d OR 0x200) AND 0xFFFFBFFF\<rparr>
     in if i_cs d \<noteq> GDT_SEG_KCODE then d1\<lparr>i_esp := i_esp d0\<rparr> else d1\<lparr>useresp := useresp d0, i_ss := i_ss d0\<rparr>)"
  using assms by (cases d; cases d0) (simp add: proc_load_def proc_save_def Let_def frame_ok_def ucast_selector GDT_SEG_KCODE_def)

theorem context_switch_restores_registers_witness:
  "i_eax (proc_load (proc_save (scratch (demo_sched Map.empty [])\<lparr>i_cs := 0x23, i_eax := 42, useresp := 0x1000\<rparr>) zero_regs)
      (scratch (demo_sched Map.empty []))) = 42"
proof -
  let ?e = "scratch (demo_sched Map.empty [])"
  let ?d = "?e\<lparr>i_cs := 0x23, i_eax := 42, useresp := 0x1000\<rparr>"
  have "frame_ok ?d" by (simp add: frame_ok_def demo_sched_def proc_st.defs demo_procs_def)
  from context_switch_restores_registers [OF this, where r = zero_regs and ?d0.0 = ?e] show ?thesis
    by (simp add: Let_def GDT_SEG_KCODE_def)
qed

end
