(* ===== verification/Fork_Correct.thy ===== *)
theory Fork_Correct
  imports Process_Create Mmap_Correct Scheduler_Correct
begin

text \<open>What a successful \<^verbatim>\<open>fork\<close> makes: a child that differs from its father in the identifier, the links and
  the physical pages only.\<close>

subsection \<open>Copying keeps the table\<close>

lemma vm_frame_copy_window: "vm_frame s (copy_window s)"
  by (simp add: copy_window_def Let_def)

lemma vm_frame_snd:
  "vm_frame s (snd (access_table_with_physical w f s))" "vm_frame s (snd (page_map p v fl s))"
  using vm_frame_access vm_frame_page_map by (metis prod.collapse)+

lemma vm_frame_copy_pages: "vm_frame s (copy_pages n dst src s)"
proof (induction n arbitrary: s)
  case (Suc n)
  let ?t = "snd (access_table_with_physical (page_swap (lay s)) dst s)"
  let ?u = "snd (access_table_with_physical (page_swap2 (lay ?t)) src ?t)"
  have "vm_frame s ?u" using vm_frame_snd(1) vm_frame_trans by blast
  then have "vm_frame s (copy_window ?u)" using vm_frame_copy_window vm_frame_trans by blast
  then show ?case using Suc [of "copy_window ?u"] vm_frame_trans by (auto simp: Let_def)
qed simp

definition shape :: "map_memory \<Rightarrow> u32 \<times> u32 \<times> u32" where
  "shape pm = (v_addr pm, mm_size pm, flags pm)"

lemma copy_mem_block_effect:
  assumes "process_copy_mem_block node pm s = (r, s')"
  shows "vm_frame s s'" "r = Some npm \<Longrightarrow> shape npm = shape pm"
proof -
  obtain pa s1 where 1: "get_phys_block (unat (mm_size pm)) s = (pa, s1)" by (cases "get_phys_block (unat (mm_size pm)) s")
  obtain a2 s2 where 2: "page_get_phys (swap_at s1) s1 = (a2, s2)" by (cases "page_get_phys (swap_at s1) s1")
  obtain a3 s3 where 3: "page_get_phys (swap2_at s2) s2 = (a3, s3)" by (cases "page_get_phys (swap2_at s2) s2")
  let ?s4 = "copy_pages (unat (mm_size pm * 4096) div 4096) pa (p_addr pm) s3"
  let ?s5 = "snd (page_map a3 (swap_at ?s4) (flags pm) ?s4)"
  let ?s6 = "snd (page_map a3 (swap2_at ?s5) (flags pm) ?s5)"
  have "vm_frame s s1" "vm_frame s1 s2" "vm_frame s2 s3" "vm_frame s3 ?s4" "vm_frame ?s4 ?s5" "vm_frame ?s5 ?s6"
    using vm_frame_get_phys_block [OF 1] vm_frame_page_get_phys [OF 2] vm_frame_page_get_phys [OF 3]
      vm_frame_copy_pages vm_frame_snd(2) by blast+
  note fr = this
  have "vm_frame s ?s4" by (rule vm_frame_trans [OF fr(1) vm_frame_trans [OF fr(2) vm_frame_trans [OF fr(3,4)]]])
  then have "vm_frame s ?s6" by (rule vm_frame_trans [OF _ vm_frame_trans [OF fr(5,6)]])
  with fr(1) have "vm_frame s s1" "vm_frame s ?s6" .
  then show "vm_frame s s'" "r = Some npm \<Longrightarrow> shape npm = shape pm"
    using assms 1 2 3 by (auto simp: process_copy_mem_block_def Let_def shape_def split: if_splits)
qed

lemmas proc_copy_mem_block = copy_mem_block_effect(1) [THEN vm_frame_heap_frame, THEN heap_frame_proc(1)]
  copy_mem_block_effect(1) [THEN vm_frame_heap_frame, THEN heap_frame_proc(2)]

lemma copy_maps_effect:
  assumes "copy_maps pms put c s = Some (ok, s')" "procs s c = Some q"
  shows "process_list s' = process_list s \<and> (\<exists>npms. procs s' = (procs s)(c \<mapsto> fold put npms q) \<and>
    (ok \<longrightarrow> map shape npms = map shape pms))"
  using assms
proof (induction pms put c s arbitrary: q rule: copy_maps.induct)
  case (1 put c s)
  then show ?case by (auto intro!: exI [of _ "[]"])
next
  case (2 pm pms put c s)
  have none: ?case if "\<not> ok" "procs s' = procs s" "process_list s' = process_list s"
    using that "2.prems"(2) by (intro conjI exI [of _ "[]"]) (simp_all add: map_upd_triv)
  obtain r s1 where k: "kmalloc sizeof_map_memory s = (r, s1)" by (cases "kmalloc sizeof_map_memory s")
  note k' = proc_kmalloc(1,2) [OF k]
  show ?case
  proof (cases r)
    case None
    then have "\<not> ok" "s' = s1" using "2.prems"(1) k by auto
    then show ?thesis using none k' by simp
  next
    case (Some node)
    obtain n s2 where b: "process_copy_mem_block node pm s1 = (n, s2)" by (cases "process_copy_mem_block node pm s1")
    note b' = proc_copy_mem_block [OF b]
    show ?thesis
    proof (cases n)
      case None
      then have "\<not> ok" "s' = kfree node s2" using "2.prems"(1) k \<open>r = Some node\<close> b by auto
      then show ?thesis using none k' b' by simp
    next
      case (Some npm)
      let ?s3 = "s2\<lparr>procs := (procs s)(c \<mapsto> put npm q)\<rparr>"
      have u: "update_proc c (put npm) s2 = Some ?s3" using "2.prems"(2) k' b' by (simp add: update_proc_def)
      have run: "copy_maps pms put c ?s3 = Some (ok, s')" using "2.prems"(1) k b Some \<open>r = Some node\<close> u by simp
      have "process_list s' = process_list ?s3 \<and> (\<exists>npms. procs s' = (procs ?s3)(c \<mapsto> fold put npms (put npm q)) \<and>
          (ok \<longrightarrow> map shape npms = map shape pms))"
        by (rule "2.IH" [OF k [symmetric] \<open>r = Some node\<close> b [symmetric] Some u run]) simp
      then obtain npms where n: "procs s' = (procs ?s3)(c \<mapsto> fold put npms (put npm q))"
        "ok \<longrightarrow> map shape npms = map shape pms" "process_list s' = process_list ?s3" by blast
      have "procs s' = (procs s)(c \<mapsto> fold put (npm # npms) q)" unfolding n(1) by simp
      moreover have "ok \<longrightarrow> map shape (npm # npms) = map shape (pm # pms)"
        using n(2) copy_mem_block_effect(2) [OF b Some] by simp
      ultimately show ?thesis using n(3) k' b' by (metis (no_types) proc_st.select_convs(2) proc_st.surjective proc_st.update_convs(1))
    qed
  qed
qed

lemma fold_push_heap: "fold push_heap npms q = q\<lparr>mm_heap := rev npms @ mm_heap q\<rparr>"
  by (induction npms arbitrary: q) simp_all

lemma fold_push_stack: "fold push_stack npms q = q\<lparr>mm_stack := rev npms @ mm_stack q\<rparr>"
  by (induction npms arbitrary: q) simp_all

lemma copy_signals_effect:
  assumes "copy_signals qs c s = Some s'" "procs s c = Some q"
  shows "process_list s' = process_list s \<and> (\<exists>q'. queued_more q q' \<and> procs s' = (procs s)(c \<mapsto> q'))"
  using assms
proof (induction qs c s arbitrary: q rule: copy_signals.induct)
  case (1 c s)
  then show ?case by (auto simp: map_upd_triv intro!: exI [of _ q])
next
  case (2 x qs c s)
  obtain e t where t: "add_signal (sint (sig_handled x)) c (scast (sq_state x)) s = Some (e, t)" "copy_signals qs c t = Some s'"
    using "2.prems"(1) by (auto simp: bind_eq_Some_conv)
  note eff = add_signal_effect [OF t(1)]
  obtain q1 where q1: "procs t = (procs s)(c \<mapsto> q1)" "queued_more q q1"
    using eff(4) "2.prems"(2) by (metis fun_upd_triv option.inject queued_more_refl)
  have "procs t c = Some q1" using q1(1) by simp
  from "2.IH" [OF t(1) refl t(2) this]
  obtain q' where q': "process_list s' = process_list t" "queued_more q1 q'" "procs s' = (procs t)(c \<mapsto> q')" by blast
  have "procs s' = (procs s)(c \<mapsto> q')" unfolding q'(3) q1(1) by (rule fun_upd_upd)
  moreover have "queued_more q q'" using q1(2) q'(2) by (rule queued_more_trans)
  ultimately show ?case using q'(1) eff(2) by metis
qed

subsection \<open>fork\<close>

lemma process_new_effect:
  assumes "process_new s = (c, s1)" "c \<noteq> 0"
  shows "procs s1 = (procs s)(c \<mapsto> empty_process)" "process_list s1 = process_list s" "last_pid s1 = last_pid s"
    "heap_inv s \<Longrightarrow> c \<notin> fst ` live s"
proof -
  obtain r t where k: "kmalloc sizeof_process s = (r, t)" by (cases "kmalloc sizeof_process s")
  then have r: "r = Some c" "s1 = t\<lparr>procs := (procs t)(c \<mapsto> empty_process)\<rparr>"
    using assms by (auto simp: process_new_def split: option.splits)
  show "procs s1 = (procs s)(c \<mapsto> empty_process)" "process_list s1 = process_list s" "last_pid s1 = last_pid s"
    using proc_kmalloc [OF k] by (simp_all add: r(2))
  show "heap_inv s \<Longrightarrow> c \<notin> fst ` live s"
    using kmalloc_result [of s sizeof_process r t] k by (simp add: r(1) malloc_result_def sizeof_process_def)
qed

definition inherits :: "nat \<Rightarrow> int \<Rightarrow> process \<Rightarrow> process \<Rightarrow> bool" where
  "inherits a n p q \<longleftrightarrow> pid q = n \<and> father q = a \<and> state q = state p \<and> uid q = uid p \<and> pregs q = pregs p \<and>
     map shape (mm_heap q) = rev (map shape (mm_heap p)) \<and> map shape (mm_stack q) = rev (map shape (mm_stack p)) \<and>
     shape (mm_code q) = shape (mm_code p) \<and> children q = [] \<and> end_value q = 0"

lemma alloc_pid_err: "fst (fst (alloc_pid_loop u t l)) \<in> {0, - EAGAIN}"
proof (induction u t l rule: alloc_pid_loop.induct)
  case (1 u t l)
  then show ?case by (subst alloc_pid_loop.simps) (auto simp: Let_def)
qed

lemma process_alloc_pid_frame:
  assumes "process_alloc_pid s = Some ((err, n), t)"
  shows "procs t = procs s" "process_list t = process_list s" "err = 0 \<or> err = - EAGAIN"
proof -
  obtain u where u: "pids s = Some u" using assms by (auto simp: process_alloc_pid_def bind_eq_Some_conv)
  obtain e m l where l: "alloc_pid_loop u 0 (last_pid s) = ((e, m), l)" by (metis surj_pair)
  then have "t = s\<lparr>last_pid := l\<rparr>" "e = err" using assms u by (auto simp: process_alloc_pid_def)
  then show "procs t = procs s" "process_list t = process_list s" "err = 0 \<or> err = - EAGAIN"
    using alloc_pid_err [of u 0 "last_pid s"] l by simp_all
qed

lemma copy_process_child:
  assumes "copy_process a c s = Some (e, s')" "procs s a = Some p" "procs s c = Some empty_process" "a \<noteq> c" "\<not> e < 0"
  shows "\<exists>n t q node. process_alloc_pid s = Some ((0, n), t) \<and> procs s' = (procs s)(c \<mapsto> q, a \<mapsto> p\<lparr>children := \<lparr>ch_node = node, ch_p = c\<rparr> # children p\<rparr>)
    \<and> inherits a n p q \<and> process_list s' = insert_after a c (process_list s)"
proof -
  obtain err n s1 where 1: "process_alloc_pid s = Some ((err, n), s1)"
    using assms(1) by (auto simp: copy_process_def bind_eq_Some_conv)
  have al: "procs s1 = procs s" "process_list s1 = process_list s" and e0: "\<not> err < 0 \<Longrightarrow> err = 0"
    using process_alloc_pid_frame [OF 1] by (auto simp: EAGAIN_def)
  define q0 where "q0 = empty_process\<lparr>pid := n\<rparr>"
  define s2 where "s2 = s1\<lparr>procs := (procs s)(c \<mapsto> q0)\<rparr>"
  have u2: "update_proc c (\<lambda>q. q\<lparr>pid := n\<rparr>) s1 = Some s2" using assms(3) al by (simp add: update_proc_def s2_def q0_def)
  have p2: "procs s2 a = Some p" "procs s2 c = Some q0" using assms(2,4) by (simp_all add: s2_def)
  have err: "\<not> err < 0" using assms(1,5) 1 u2 by (auto simp: copy_process_def)
  note run = assms(1) [unfolded copy_process_def 1 bind.bind_lunit prod.case u2 p2]
  obtain ok3 s3 where 3: "copy_maps (mm_heap p) push_heap c s2 = Some (ok3, s3)" and ok3: "ok3"
    using run assms(5) err by (auto simp: bind_eq_Some_conv split: if_splits)
  obtain hs where hs: "procs s3 = (procs s2)(c \<mapsto> q0\<lparr>mm_heap := rev hs\<rparr>)" "map shape hs = map shape (mm_heap p)" "process_list s3 = process_list s2"
    using copy_maps_effect [OF 3 p2(2)] ok3 by (auto simp: fold_push_heap q0_def empty_process_def)
  obtain ok4 s4 where 4: "copy_maps (mm_stack p) push_stack c s3 = Some (ok4, s4)" and ok4: "ok4"
    using run assms(5) err 3 ok3 by (auto simp: bind_eq_Some_conv split: if_splits)
  have "procs s3 c = Some (q0\<lparr>mm_heap := rev hs\<rparr>)" using hs(1) by simp
  from copy_maps_effect [OF 4 this] ok4
  obtain st where st: "procs s4 = (procs s3)(c \<mapsto> q0\<lparr>mm_heap := rev hs, mm_stack := rev st\<rparr>)" "map shape st = map shape (mm_stack p)"
    "process_list s4 = process_list s3" by (auto simp: fold_push_stack q0_def empty_process_def)
  obtain r5 s5 where 5: "process_copy_mem_block 0 (mm_code p) s4 = (r5, s5)" by (cases "process_copy_mem_block 0 (mm_code p) s4")
  obtain code where code: "r5 = Some code" using run assms(5) err 3 ok3 4 ok4 5 by (cases r5) auto
  define q5 where "q5 = q0\<lparr>mm_heap := rev hs, mm_stack := rev st, mm_code := code\<rparr>"
  define s6 where "s6 = s5\<lparr>procs := (procs s)(c \<mapsto> q5)\<rparr>"
  have c6: "update_proc c (\<lambda>q. q\<lparr>mm_code := code\<rparr>) s5 = Some s6" 
    using st(1) hs(1) proc_copy_mem_block(1) [OF 5] by (simp add: update_proc_def s6_def q5_def s2_def)
  obtain s7 where 7: "copy_signals (sigs p) c s6 = Some s7"
    using run assms(5) err 3 ok3 4 ok4 5 code c6 by (auto simp: bind_eq_Some_conv)
  have "procs s6 c = Some q5" by (simp add: s6_def)
  from copy_signals_effect [OF 7 this]
  obtain q7 where q7: "process_list s7 = process_list s6" "queued_more q5 q7" "procs s7 = (procs s6)(c \<mapsto> q7)" by blast
  obtain r8 s8 where 8: "kmalloc sizeof_children s7 = (r8, s8)" by (cases "kmalloc sizeof_children s7")
  obtain node where node: "r8 = Some node" using run assms(5) err 3 ok3 4 ok4 5 code c6 7 8 by (cases r8) auto
  have ad: "adopt a c node s8 = Some s'" using run assms(5) err 3 ok3 4 ok4 5 code c6 7 8 node by (auto simp: bind_eq_Some_conv)
  have p8: "procs s8 = (procs s)(c \<mapsto> q7)" "process_list s8 = process_list s"
    using proc_kmalloc(1,2) [OF 8] q7 st(3) hs(3) proc_copy_mem_block(2) [OF 5] al by (simp_all add: s6_def s2_def)
  define q9 where "q9 = q7\<lparr>state := state p, pregs := pregs p, uid := uid p, children := [],
              father := a, end_value := 0, waiting_pid := 0\<rparr>"
  have a8: "procs s8 a = Some p" using p8(1) assms(2,4) by simp
  have s': "procs s' = (procs s)(c \<mapsto> q9, a \<mapsto> p\<lparr>children := \<lparr>ch_node = node, ch_p = c\<rparr> # children p\<rparr>)"
    "process_list s' = insert_after a c (process_list s)"
    using ad a8 p8 assms(4) by (auto simp: adopt_def bind_eq_Some_conv update_proc_eq q9_def split: if_splits)
  have "inherits a n p q9"
    using q7(2) hs(2) st(2) copy_mem_block_effect(2) [OF 5 code]
    by (auto simp: inherits_def q9_def queued_more_def q5_def q0_def rev_map [symmetric])
  then show ?thesis using 1 e0 [OF err] s' by blast
qed

text \<open>
  C14. A successful \<^verbatim>\<open>fork\<close> returns an identifier that no process had. The new process, right behind its
  father in the process list, has this identifier, the father's state, user and registers, and the
  same memory layout (the heap and stack lists are reversed); the father gets it as its first
  child. No other process changes. That the structure of the child is new memory rests on the contract of the
  heap.
\<close>

theorem fork_makes_a_copy:
  assumes "fork a s = Some (r, s')" "r > 0" "procs s a = Some p" "heap_inv s" "a \<in> fst ` live s"
    "1 \<le> last_pid s" "last_pid s \<le> 0xfff" "set (process_list s) \<subseteq> fst ` live s"
  shows "\<exists>c q node. c \<noteq> a \<and> c \<notin> fst ` live s \<and> inherits a r p q \<and>
    procs s' = (procs s)(c \<mapsto> q, a \<mapsto> p\<lparr>children := \<lparr>ch_node = node, ch_p = c\<rparr> # children p\<rparr>) \<and>
    process_list s' = insert_after a c (process_list s) \<and>
    (\<nexists>b p'. b \<in> set (process_list s) \<and> procs s b = Some p' \<and> pid p' = r)"
proof -
  obtain c s1 where n: "process_new s = (c, s1)" by (cases "process_new s")
  have c0: "c \<noteq> 0" using assms(1,2) n by (cases "c = 0") (auto simp: fork_def ENOMEM_def)
  note new = process_new_effect [OF n c0]
  have c: "c \<notin> fst ` live s" "c \<noteq> a" "c \<notin> set (process_list s)" using new(4) assms(4,5,8) by auto
  have p1: "procs s1 a = Some p" "procs s1 c = Some empty_process" using new(1) assms(3) c(2) by simp_all
  obtain err s2 where 2: "copy_process a c s1 = Some (err, s2)"
    using assms(1) n c0 by (auto simp: fork_def bind_eq_Some_conv)
  have err: "\<not> err < 0" using assms(1,2) n c0 2 by (auto simp: fork_def bind_eq_Some_conv split: if_splits)
  from copy_process_child [OF 2 p1 _ err] c(2)
  obtain i t q node where q: "process_alloc_pid s1 = Some ((0, i), t)"
    "procs s2 = (procs s1)(c \<mapsto> q, a \<mapsto> p\<lparr>children := \<lparr>ch_node = node, ch_p = c\<rparr> # children p\<rparr>)"
    "inherits a i p q" "process_list s2 = insert_after a c (process_list s1)" by blast
  have qf: "q\<lparr>father := a\<rparr> = q" using q(3) by (cases q) (simp add: inherits_def)
  have "r = i" "procs s' = procs s2" "process_list s' = process_list s2"
    using assms(1) n c0 2 err q(2,3) c(2) qf
    by (auto simp: fork_def bind_eq_Some_conv update_proc_eq inherits_def fun_upd_twist split: if_splits)
  moreover have "\<nexists>b p'. b \<in> set (process_list s) \<and> procs s b = Some p' \<and> pid p' = i"
    using process_alloc_pid_facts [OF q(1)] assms(6,7) new c(3) by (auto split: if_splits)
  ultimately show ?thesis using q c new(1,2) by (intro exI [of _ c] exI [of _ q] exI [of _ node]) simp
qed

text \<open>A kernel with one process, whose structure lies in the first block of the heap.\<close>

definition demo_headers :: "nat \<Rightarrow> alloc_header" where
  "demo_headers = (\<lambda>x. if x = 0xC0510020 then \<lparr>hsize = 304, hfree = False\<rparr> else \<lparr>hsize = 3728, hfree = True\<rparr>)"

definition demo_father :: process where
  "demo_father = empty_process\<lparr>pid := 1, uid := 5, mm_code := \<lparr>mm_node = 0, v_addr = 0x400000, p_addr = 0x800000, mm_size = 1, flags = 7\<rparr>\<rparr>"

definition demo_fork :: fork_st where
  "demo_fork = sched_st.extend ((demo_sched [0xC0510030 \<mapsto> demo_father] [0xC0510030])\<lparr>headers := demo_headers\<rparr>)
     \<lparr>swap_at = 0xC0400000, swap2_at = 0xC0401000\<rparr>"

lemma demo_fork_simps [simp]:
  "procs demo_fork = [0xC0510030 \<mapsto> demo_father]" "process_list demo_fork = [0xC0510030]" "last_pid demo_fork = 1"
  "headers demo_fork = demo_headers" "heap demo_fork = [(0xC0510000, \<lparr>page_size = 4064, virtual = False\<rparr>)]"
  "mm_virt_heap demo_fork = (\<lambda>i. if i = 0 then 0xFE else 0xFF)" "lay demo_fork = demo_layout"
  "mm_bitmap demo_fork = (\<lambda>_. - 1)"
  by (simp_all add: demo_fork_def demo_sched_def demo_procs_def demo_heap_def sched_st.defs proc_st.defs heap_st.defs)

lemma demo_fork_chain: "chain demo_headers 0xC0510020 0xC0511000 =
    [(0xC0510020, \<lparr>hsize = 304, hfree = False\<rparr>), (0xC0510160, \<lparr>hsize = 3728, hfree = True\<rparr>)]"
  by (rule chain_eq) (simp_all add: demo_headers_def)

lemma demo_fork_heap: "heap_inv demo_fork" "live demo_fork = {(0xC0510030, 304)}"
proof -
  have "HEAP_START demo_fork = 0xC0510000" by (simp add: HEAP_START_def demo_layout_def PAGE_ALIGN_def)
  then show "heap_inv demo_fork"
    using demo_fork_chain
    by (auto simp: heap_inv_def area_ok_def area_pages_def page_bit_def bit_simps intro!: exI [of _ 0] exI [of _ 1])
  show "live demo_fork = {(0xC0510030, 304)}"
    using demo_fork_chain by (simp add: live_def live_in_def block_range_def)
qed

lemma demo_fork_new: "\<exists>h. process_new demo_fork = (0xC0510170, demo_fork\<lparr>headers := h, procs := (procs demo_fork)(0xC0510170 \<mapsto> empty_process)\<rparr>)
    \<and> h 0xC0510020 = \<lparr>hsize = 304, hfree = False\<rparr> \<and> h 0xC0510160 = \<lparr>hsize = 304, hfree = False\<rparr> \<and> h 0xC05102A0 = \<lparr>hsize = 3408, hfree = True\<rparr>"
  by (rule exI [of _ "demo_headers(0xC05102A0 := \<lparr>hsize = 3408, hfree = True\<rparr>, 0xC0510160 := \<lparr>hsize = 304, hfree = False\<rparr>)"])
     (simp add: process_new_def kmalloc_def try_allocate_def try_walk.simps sizeof_defs MALLOC_ALIGN_def sizeof_process_def
      Let_def bits31_def demo_headers_def)

lemma demo_fork_kmalloc:
  assumes "heap s = heap demo_fork" "headers s 0xC0510020 = \<lparr>hsize = 304, hfree = False\<rparr>"
    "headers s 0xC0510160 = \<lparr>hsize = 304, hfree = False\<rparr>" "headers s 0xC05102A0 = \<lparr>hsize = 3408, hfree = True\<rparr>"
  shows "\<exists>s'. kmalloc sizeof_children s = (Some 0xC05102B0, s')"
  using assms by (simp add: kmalloc_def try_allocate_def try_walk.simps sizeof_defs MALLOC_ALIGN_def sizeof_children_def Let_def)

lemma demo_fork_block:
  assumes "mm_bitmap s = (\<lambda>_. - 1)" "mm_size pm = 1"
  shows "\<exists>npm s'. process_copy_mem_block 0 pm s = (Some npm, s')"
proof -
  have "free_run (page_bit (mm_bitmap s)) (8 * 159) 1"
    using assms(1) by (simp add: free_run_def page_bit_def bit_set_simps)
  from bitmap_scan_here [OF this, of 131072]
  have "get_phys_block 1 s = (0x4F8000, alloc_phys_block 0x4F8000 1 s)"
    by (simp add: get_phys_block_def MAX_RAM_PAGE_def LOW_MEMORY_SIZE_def Let_def)
  then show ?thesis using assms(2) by (simp add: process_copy_mem_block_def Let_def split: prod.split)
qed

lemma demo_fork_result: "\<exists>s'. fork 0xC0510030 demo_fork = Some (2, s')"
proof -
  let ?c = "0xC0510170" and ?a = "0xC0510030"
  obtain h where new: "process_new demo_fork = (?c, demo_fork\<lparr>headers := h, procs := (procs demo_fork)(?c \<mapsto> empty_process)\<rparr>)"
    and h: "h 0xC0510020 = \<lparr>hsize = 304, hfree = False\<rparr>" "h 0xC0510160 = \<lparr>hsize = 304, hfree = False\<rparr>" "h 0xC05102A0 = \<lparr>hsize = 3408, hfree = True\<rparr>"
    using demo_fork_new by blast
  define s1 where "s1 = demo_fork\<lparr>headers := h, procs := (procs demo_fork)(?c \<mapsto> empty_process)\<rparr>"
  define s2 where "s2 = s1\<lparr>last_pid := 3, procs := (procs s1)(?c \<mapsto> empty_process\<lparr>pid := 2\<rparr>)\<rparr>"
  have al: "process_alloc_pid s1 = Some ((0, 2), s1\<lparr>last_pid := 3\<rparr>)"
    by (simp add: s1_def process_alloc_pid_def pids_def alloc_pid_loop.simps PROC_MAX_PID_def PROC_MIN_PID_def demo_father_def)
  have p2: "procs s2 ?a = Some demo_father" by (simp add: s2_def s1_def)
  obtain code s5 where b: "process_copy_mem_block 0 (mm_code demo_father) s2 = (Some code, s5)"
    using demo_fork_block [of s2 "mm_code demo_father"] by (auto simp: s2_def s1_def demo_father_def)
  note fr = copy_mem_block_effect(1) [OF b]
  have p5: "procs s5 = procs s2" "process_list s5 = process_list s2" using proc_copy_mem_block [OF b] by simp_all
  define s6 where "s6 = s5\<lparr>procs := (procs s5)(?c \<mapsto> empty_process\<lparr>pid := 2, mm_code := code\<rparr>)\<rparr>"
  obtain s8 where k: "kmalloc sizeof_children s6 = (Some 0xC05102B0, s8)"
    using demo_fork_kmalloc [of s6] heap_vm_frame [OF fr] h by (auto simp: s6_def s2_def s1_def)
  have p8: "procs s8 = procs s6" "process_list s8 = process_list s6" using proc_kmalloc [OF k] by simp_all
  have "\<exists>s9. adopt ?a ?c 0xC05102B0 s8 = Some s9 \<and> (\<exists>q. procs s9 ?c = Some q \<and> pid q = 2)"
    by (simp add: adopt_def update_proc_def p8 p5 s6_def s2_def s1_def)
  then obtain s9 q where ad: "adopt ?a ?c 0xC05102B0 s8 = Some s9" "procs s9 ?c = Some q" "pid q = 2" by blast
  have f: "mm_heap demo_father = []" "mm_stack demo_father = []" "sigs demo_father = []"
    by (simp_all add: demo_father_def empty_process_def)
  have u2: "update_proc ?c (\<lambda>q. q\<lparr>pid := 2\<rparr>) (s1\<lparr>last_pid := 3\<rparr>) = Some s2"
    by (simp add: update_proc_def s2_def s1_def)
  have u6: "update_proc ?c (\<lambda>q. q\<lparr>mm_code := code\<rparr>) s5 = Some s6"
    by (simp add: update_proc_def s6_def p5 s2_def)
  have "copy_process ?a ?c s1 = Some (0, s9)"
    by (simp add: copy_process_def al u2 p2 f b u6 k ad(1))
  then show ?thesis
    unfolding fork_def new s1_def [symmetric] using ad by (simp add: update_proc_def)
qed

theorem fork_makes_a_copy_witness:
  "\<exists>s' c q. fork 0xC0510030 demo_fork = Some (2, s') \<and> procs s' c = Some q \<and> inherits 0xC0510030 2 demo_father q"
proof -
  obtain s' where s': "fork 0xC0510030 demo_fork = Some (2, s')" using demo_fork_result by blast
  from fork_makes_a_copy [OF s', of demo_father] demo_fork_heap
  obtain c q node where "c \<noteq> 0xC0510030" "inherits 0xC0510030 2 demo_father q"
    "procs s' = (procs demo_fork)(c \<mapsto> q, 0xC0510030 \<mapsto> demo_father\<lparr>children := \<lparr>ch_node = node, ch_p = c\<rparr> # children demo_father\<rparr>)"
    by auto
  then show ?thesis using s' by auto
qed

end
