(* ===== verification/Descriptors.thy ===== *)
theory Descriptors
  imports Paging
begin

text \<open>
  The processor's tables and the interrupt controller (\<^verbatim>\<open>boot/x86/GDT/GDT.c\<close>, \<^verbatim>\<open>boot/x86/IDT/idt.c\<close>,
  \<^verbatim>\<open>boot/x86/pic.c\<close>). A descriptor is a packed structure of 8 bytes; \<open>gdt_quad\<close> and \<open>idt_quad\<close> are the 64-bit
  values the processor reads, and \<open>seg_base\<close>, \<open>seg_limit\<close> and the others take them apart as the processor
  manual says. Port output is a list of port and value, oldest first. The addresses of the assembly
  entry points and of \<^verbatim>\<open>default_tss\<close> are parameters.
\<close>

subsection \<open>The global descriptor table\<close>

record gdtdesc =
  lim0_15 :: u16
  base0_15 :: u16
  base16_23 :: u8
  acces :: u8
  lim16_19 :: "4 word"
  other :: "4 word"
  base24_31 :: u8

definition init_gdt_desc :: "u32 \<Rightarrow> u32 \<Rightarrow> u8 \<Rightarrow> u8 \<Rightarrow> gdtdesc" where
  "init_gdt_desc base limite acc oth = \<lparr>
     lim0_15 = ucast (limite AND 0xffff),
     base0_15 = ucast (base AND 0xffff),
     base16_23 = ucast (drop_bit 16 (base AND 0xff0000)),
     acces = acc,
     lim16_19 = ucast (drop_bit 16 (limite AND 0xf0000)),
     other = ucast (oth AND 0xf),
     base24_31 = ucast (drop_bit 24 (base AND 0xff000000))\<rparr>"

record tss =
  esp0 :: u32
  ss0 :: u16
  debug_flag :: u16
  io_map :: u16

record gdtr =
  limite :: u16
  gbase :: u32

record gdt_st =
  kgdt :: "nat \<Rightarrow> gdtdesc"
  default_tss :: tss
  kgdtr :: gdtr
  gdt_at_base :: "nat \<Rightarrow> gdtdesc"

definition GDTSIZE :: nat where "GDTSIZE = 0xFF"
definition GDTBASE :: u32 where "GDTBASE = 0x00000800 + KERNEL_POS"

definition zero_desc :: gdtdesc where "zero_desc = init_gdt_desc 0 0 0 0"

text \<open>The copy of the table to \<^verbatim>\<open>GDTBASE\<close> takes the whole array.\<close>

definition init_gdt :: "u32 \<Rightarrow> u32 \<Rightarrow> gdt_st \<Rightarrow> gdt_st" where
  "init_gdt stack_end tss_at s =
     (let t = (kgdt s)(
            0 := init_gdt_desc 0x0 0x0 0x0 0x0,
            1 := init_gdt_desc 0x0 0xFFFFF 0x9B 0x0D,
            2 := init_gdt_desc 0x0 0xFFFFF 0x93 0x0D,
            3 := init_gdt_desc 0x0 0x0 0x97 0x0D,
            4 := init_gdt_desc 0x0 0xBFFFF 0xFF 0x0D,
            5 := init_gdt_desc 0x0 0xBFFFF 0xF3 0x0D,
            6 := init_gdt_desc 0x0 0x0 0xF7 0x0D,
            7 := init_gdt_desc tss_at 0x67 0xE9 0x00)
      in s\<lparr>default_tss := (default_tss s)\<lparr>debug_flag := 0, io_map := 0, esp0 := stack_end, ss0 := 0x18\<rparr>,
           kgdt := t,
           kgdtr := \<lparr>limite = of_nat (GDTSIZE * 8), gbase = GDTBASE\<rparr>,
           gdt_at_base := (\<lambda>i. if i < GDTSIZE then t i else gdt_at_base s i)\<rparr>)"

subsection \<open>The interrupt descriptor table\<close>

record idtdesc =
  offset0_15 :: u16
  select :: u16
  zero :: u8
  itype :: u8
  offset16_31 :: u16

record idtr =
  ilimite :: u16
  ibase :: u32

record idt_st =
  kidt :: "nat \<Rightarrow> idtdesc"
  kidtr :: idtr
  ports :: "(u32 \<times> u8) list"

definition IDT_SIZE :: nat where "IDT_SIZE = 0xFF"
definition INT_GATE :: u8 where "INT_GATE = 0x80 OR 0x0E"
definition INT_GATE_R3 :: u8 where "INT_GATE_R3 = 0x80 OR 0x0E OR 0x60"
definition sizeof_idtdesc :: nat where "sizeof_idtdesc = 8"

definition init_idt_desc :: "u16 \<Rightarrow> u32 \<Rightarrow> u8 \<Rightarrow> idtdesc" where
  "init_idt_desc sel offset type = \<lparr>
     offset0_15 = ucast (offset AND 0xffff),
     select = sel,
     zero = 0,
     itype = type,
     offset16_31 = ucast (drop_bit 16 (offset AND 0xffff0000))\<rparr>"

subsection \<open>The interrupt controller\<close>

definition outb :: "u32 \<Rightarrow> u8 \<Rightarrow> (u32 \<times> u8) list \<Rightarrow> (u32 \<times> u8) list" where
  "outb ad v l = l @ [(ad, v)]"

definition PIC_MASTER_COMMANDE :: u32 where "PIC_MASTER_COMMANDE = 0x20"
definition PIC_MASTER_DATA :: u32 where "PIC_MASTER_DATA = 0x21"
definition PIC_SLAVE_COMMANDE :: u32 where "PIC_SLAVE_COMMANDE = 0xa0"
definition PIC_SLAVE_DATA :: u32 where "PIC_SLAVE_DATA = 0xa1"
definition PIC_ICW1_ICW4 :: u8 where "PIC_ICW1_ICW4 = 1"
definition PIC_ICW1_REQUEST :: u8 where "PIC_ICW1_REQUEST = 0x10"
definition PIC_ICW3_SLAVE_ON_2 :: u8 where "PIC_ICW3_SLAVE_ON_2 = 4"
definition PIC_ICW3_MASTER_ON_2 :: u8 where "PIC_ICW3_MASTER_ON_2 = 2"
definition PIC_ICW4_X86 :: u8 where "PIC_ICW4_X86 = 1"
definition PIC_OCW2_NORMAL_EOI :: u8 where "PIC_OCW2_NORMAL_EOI = 0x20"
definition PIC_INT_BASE :: u8 where "PIC_INT_BASE = 32"
definition PIC_INT_ISA_TIMER :: nat where "PIC_INT_ISA_TIMER = 0"
definition PIC_INT_KEYBORD :: nat where "PIC_INT_KEYBORD = 1"

definition pic_initialize_parameter ::
  "u32 \<Rightarrow> u32 \<Rightarrow> u8 \<Rightarrow> u8 \<Rightarrow> u8 \<Rightarrow> u8 \<Rightarrow> (u32 \<times> u8) list \<Rightarrow> (u32 \<times> u8) list" where
  "pic_initialize_parameter commande_addr data_addr icw1 icw2 icw3 icw4 l =
     (let l1 = outb data_addr icw3 (outb data_addr icw2 (outb commande_addr icw1 l))
      in if icw1 AND 1 \<noteq> 0 then outb data_addr icw4 l1 else l1)"

definition pic_end_of_interupt_with_slave :: "bool \<Rightarrow> (u32 \<times> u8) list \<Rightarrow> (u32 \<times> u8) list" where
  "pic_end_of_interupt_with_slave is_on_slave l =
     outb PIC_MASTER_COMMANDE PIC_OCW2_NORMAL_EOI
       (if is_on_slave then outb PIC_SLAVE_COMMANDE PIC_OCW2_NORMAL_EOI l else l)"

definition pic_interupt_mask_addr :: "u32 \<Rightarrow> u8 \<Rightarrow> (u32 \<times> u8) list \<Rightarrow> (u32 \<times> u8) list" where
  "pic_interupt_mask_addr data_addr m l = outb data_addr m l"

definition pic_initialize :: "(u32 \<times> u8) list \<Rightarrow> (u32 \<times> u8) list" where
  "pic_initialize l =
     pic_initialize_parameter PIC_SLAVE_COMMANDE PIC_SLAVE_DATA
       (PIC_ICW1_ICW4 OR PIC_ICW1_REQUEST) 0x28 PIC_ICW3_MASTER_ON_2 PIC_ICW4_X86
       (pic_initialize_parameter PIC_MASTER_COMMANDE PIC_MASTER_DATA
         (PIC_ICW1_ICW4 OR PIC_ICW1_REQUEST) 0x20 PIC_ICW3_SLAVE_ON_2 PIC_ICW4_X86 l)"

definition pic_interupt_mask :: "u16 \<Rightarrow> (u32 \<times> u8) list \<Rightarrow> (u32 \<times> u8) list" where
  "pic_interupt_mask m l =
     pic_interupt_mask_addr PIC_SLAVE_DATA (ucast (drop_bit 8 m))
       (pic_interupt_mask_addr PIC_MASTER_DATA (ucast (m AND 0xFF)) l)"

definition pic_end_of_interupt :: "u8 \<Rightarrow> (u32 \<times> u8) list \<Rightarrow> (u32 \<times> u8) list" where
  "pic_end_of_interupt int_type l =
     (if int_type < PIC_INT_BASE \<or> int_type \<ge> 8 * 2 + PIC_INT_BASE then l
      else if int_type \<ge> 8 + PIC_INT_BASE then pic_end_of_interupt_with_slave True l
      else pic_end_of_interupt_with_slave False l)"

text \<open>\<open>asm_irq n\<close> is the address of the entry point \<^verbatim>\<open>_asm_irq_n\<close>, \<open>usless\<close> that of \<^verbatim>\<open>usless_function\<close>.\<close>

definition init_idt :: "(nat \<Rightarrow> u32) \<Rightarrow> u32 \<Rightarrow> u32 \<Rightarrow> idt_st \<Rightarrow> idt_st" where
  "init_idt asm_irq usless kidt_at s =
     (let t0 = (\<lambda>i. if i < IDT_SIZE then init_idt_desc 0x08 usless INT_GATE else kidt s i);
          t1 = (\<lambda>i. if i < 34 then init_idt_desc 0x08 (asm_irq i) INT_GATE else t0 i);
          t2 = t1(128 := init_idt_desc 0x08 (asm_irq 128) INT_GATE_R3)
      in s\<lparr>kidt := t2,
           kidtr := \<lparr>ilimite = of_nat (IDT_SIZE * sizeof_idtdesc - 1), ibase = kidt_at\<rparr>,
           ports := pic_interupt_mask (NOT (push_bit PIC_INT_KEYBORD 1 OR push_bit PIC_INT_ISA_TIMER 1))
                      (pic_initialize (ports s))\<rparr>)"

subsection \<open>What the processor reads\<close>

definition gdt_quad :: "gdtdesc \<Rightarrow> 64 word" where
  "gdt_quad d = ucast (lim0_15 d) OR push_bit 16 (ucast (base0_15 d)) OR push_bit 32 (ucast (base16_23 d))
     OR push_bit 40 (ucast (acces d)) OR push_bit 48 (ucast (lim16_19 d)) OR push_bit 52 (ucast (other d))
     OR push_bit 56 (ucast (base24_31 d))"

definition seg_base :: "64 word \<Rightarrow> u32" where
  "seg_base q = ucast (take_bit 24 (drop_bit 16 q) OR push_bit 24 (drop_bit 56 q))"

definition seg_limit :: "64 word \<Rightarrow> u32" where
  "seg_limit q = ucast (take_bit 16 q OR push_bit 16 (take_bit 4 (drop_bit 48 q)))"

definition seg_access :: "64 word \<Rightarrow> u8" where
  "seg_access q = ucast (drop_bit 40 q)"

definition seg_flags :: "64 word \<Rightarrow> nat" where
  "seg_flags q = unat (take_bit 4 (drop_bit 52 q))"

definition seg_dpl :: "64 word \<Rightarrow> nat" where
  "seg_dpl q = unat (take_bit 2 (drop_bit 45 q))"

text \<open>The last offset of a segment: the limit counts pages when the granularity bit is set.\<close>

definition seg_last :: "64 word \<Rightarrow> nat" where
  "seg_last q = (if bit q 55 then unat (seg_limit q) * 4096 + 4095 else unat (seg_limit q))"

definition idt_quad :: "idtdesc \<Rightarrow> 64 word" where
  "idt_quad d = ucast (offset0_15 d) OR push_bit 16 (ucast (select d)) OR push_bit 32 (ucast (zero d))
     OR push_bit 40 (ucast (itype d)) OR push_bit 48 (ucast (offset16_31 d))"

definition gate_offset :: "64 word \<Rightarrow> u32" where
  "gate_offset q = ucast (take_bit 16 q OR push_bit 16 (drop_bit 48 q))"

definition gate_selector :: "64 word \<Rightarrow> u16" where
  "gate_selector q = ucast (drop_bit 16 q)"

definition gate_type :: "64 word \<Rightarrow> u8" where
  "gate_type q = ucast (drop_bit 40 q)"

lemma masked_field: "drop_bit k (x AND push_bit k (mask n)) = take_bit n (drop_bit k (x :: 'a :: len word))"
  by (rule bit_word_eqI) (auto simp: bit_simps dest: bit_imp_le_length)

lemma field_masks:
  "(x :: u32) AND 0xffff = take_bit 16 x"
  "drop_bit 16 (x AND 0xff0000) = take_bit 8 (drop_bit 16 x)"
  "drop_bit 16 (x AND 0xf0000) = take_bit 4 (drop_bit 16 x)"
  "drop_bit 24 (x AND 0xff000000) = take_bit 8 (drop_bit 24 x)"
  "drop_bit 16 (x AND 0xffff0000) = take_bit 16 (drop_bit 16 x)"
  "(y :: u8) AND 0xf = take_bit 4 y"
proof -
  show "x AND 0xffff = take_bit 16 x" "y AND 0xf = take_bit 4 y"
    by (simp_all add: take_bit_eq_mask mask_eq_exp_minus_1)
  show "drop_bit 16 (x AND 0xff0000) = take_bit 8 (drop_bit 16 x)"
    using masked_field [of 16 x 8] by (simp add: mask_eq_exp_minus_1)
  show "drop_bit 16 (x AND 0xf0000) = take_bit 4 (drop_bit 16 x)"
    using masked_field [of 16 x 4] by (simp add: mask_eq_exp_minus_1)
  show "drop_bit 24 (x AND 0xff000000) = take_bit 8 (drop_bit 24 x)"
    using masked_field [of 24 x 8] by (simp add: mask_eq_exp_minus_1)
  show "drop_bit 16 (x AND 0xffff0000) = take_bit 16 (drop_bit 16 x)"
    using masked_field [of 16 x 16] by (simp add: mask_eq_exp_minus_1)
qed

lemma bit_fields:
  "bit (ucast (take_bit 16 (x :: u32)) :: u16) k \<longleftrightarrow> k < 16 \<and> bit x k"
  "bit (ucast (take_bit 8 x) :: u8) k \<longleftrightarrow> k < 8 \<and> bit x k"
  "bit (ucast (take_bit 4 x) :: 4 word) k \<longleftrightarrow> k < 4 \<and> bit x k"
  "bit (ucast (take_bit 4 (y :: u8)) :: 4 word) k \<longleftrightarrow> k < 4 \<and> bit y k"
  by (auto simp: bit_unsigned_iff bit_take_bit_iff dest: bit_imp_le_length)

lemma bit_wide:
  "bit (push_bit m (ucast (w :: 'a :: len word)) :: 64 word) n \<longleftrightarrow> m \<le> n \<and> n < 64 \<and> bit w (n - m)"
  by (auto simp: bit_push_bit_iff bit_unsigned_iff)

lemma in_range: "a \<le> n \<Longrightarrow> n < a + w \<Longrightarrow> \<exists>j<w. n = a + (j :: nat)"
  by (metis le_iff_add add_less_cancel_left)

lemma bit_low: "bit (ucast (w :: u16) :: 64 word) n \<longleftrightarrow> n < 16 \<and> bit w n"
  by (auto simp: bit_unsigned_iff dest: bit_imp_le_length)

lemma bit_gdt_quad:
  "bit (gdt_quad (init_gdt_desc base lim acc oth)) n \<longleftrightarrow>
     (if n < 16 then bit lim n else if n < 40 then bit base (n - 16) else if n < 48 then bit acc (n - 40)
      else if n < 52 then bit lim (n - 32) else if n < 56 then bit oth (n - 52) else n < 64 \<and> bit base (n - 32))"
proof -
  have acc: "8 \<le> k \<Longrightarrow> \<not> bit acc k" for k using bit_imp_le_length [of acc k] by auto
  have "bit (gdt_quad (init_gdt_desc base lim acc oth)) n \<longleftrightarrow>
    n < 16 \<and> bit lim n \<or> 16 \<le> n \<and> n < 64 \<and> n - 16 < 16 \<and> bit base (n - 16) \<or>
    32 \<le> n \<and> n < 64 \<and> n - 32 < 8 \<and> bit base (16 + (n - 32)) \<or> 40 \<le> n \<and> n < 64 \<and> bit acc (n - 40) \<or>
    48 \<le> n \<and> n < 64 \<and> n - 48 < 4 \<and> bit lim (16 + (n - 48)) \<or> 52 \<le> n \<and> n < 64 \<and> n - 52 < 4 \<and> bit oth (n - 52) \<or>
    56 \<le> n \<and> n < 64 \<and> n - 56 < 8 \<and> bit base (24 + (n - 56))"
    unfolding gdt_quad_def init_gdt_desc_def gdtdesc.select_convs field_masks bit_or_iff bit_wide bit_low bit_fields bit_drop_bit_eq o_def
    by (simp only: conj_left_absorb)
  note raw = this
  consider "n < 16" | "16 \<le> n" "n < 16 + 16" | "32 \<le> n" "n < 32 + 8" | "40 \<le> n" "n < 40 + 8" | "48 \<le> n" "n < 48 + 4" | "52 \<le> n" "n < 52 + 4" | "56 \<le> n" "n < 56 + 8" | "64 \<le> n" by linarith
  then show ?thesis
  proof cases
    case 1
    then show ?thesis unfolding raw by (simp add: acc)
  next
    case 2
    from in_range [OF this] obtain j where "n = 16 + j" "j < 16" by blast
    then show ?thesis unfolding raw by (simp add: acc)
  next
    case 3
    from in_range [OF this] obtain j where "n = 32 + j" "j < 8" by blast
    then show ?thesis unfolding raw by (simp add: acc)
  next
    case 4
    from in_range [OF this] obtain j where "n = 40 + j" "j < 8" by blast
    then show ?thesis unfolding raw by (simp add: acc)
  next
    case 5
    from in_range [OF this] obtain j where "n = 48 + j" "j < 4" by blast
    then show ?thesis unfolding raw by (simp add: acc)
  next
    case 6
    from in_range [OF this] obtain j where "n = 52 + j" "j < 4" by blast
    then show ?thesis unfolding raw by (simp add: acc)
  next
    case 7
    from in_range [OF this] obtain j where "n = 56 + j" "j < 8" by blast
    then show ?thesis unfolding raw by (simp add: acc)
  next
    case 8
    then obtain j where "n = 64 + j" using le_Suc_ex by blast
    then show ?thesis unfolding raw by (simp add: acc)
  qed
qed

lemma gdt_parts:
  "seg_base (gdt_quad (init_gdt_desc base lim acc oth)) = base \<and>
   seg_limit (gdt_quad (init_gdt_desc base lim acc oth)) = take_bit 20 lim \<and>
   seg_access (gdt_quad (init_gdt_desc base lim acc oth)) = acc \<and>
   seg_flags (gdt_quad (init_gdt_desc base lim acc oth)) = unat (take_bit 4 oth)"
proof (intro conjI)
  let ?q = "gdt_quad (init_gdt_desc base lim acc oth)"
  show "seg_base ?q = base"
  proof (rule bit_word_eqI)
    fix n assume "n < LENGTH(32)"
    then show "bit (seg_base ?q) n = bit base n"
      by (cases "n < 24") (auto simp: seg_base_def bit_unsigned_iff bit_or_iff bit_take_bit_iff bit_push_bit_iff
          bit_drop_bit_eq bit_gdt_quad)
  qed
  show "seg_limit ?q = take_bit 20 lim"
  proof (rule bit_word_eqI)
    fix n assume "n < LENGTH(32)"
    then show "bit (seg_limit ?q) n = bit (take_bit 20 lim) n"
      by (cases "n < 16") (auto simp: seg_limit_def bit_unsigned_iff bit_or_iff bit_take_bit_iff bit_push_bit_iff
          bit_drop_bit_eq bit_gdt_quad)
  qed
  show "seg_access ?q = acc"
    by (rule bit_word_eqI) (simp add: seg_access_def bit_unsigned_iff bit_drop_bit_eq bit_gdt_quad)
  have "take_bit 4 (drop_bit 52 ?q) = ucast (take_bit 4 oth)"
    by (rule bit_word_eqI) (auto simp: bit_take_bit_iff bit_unsigned_iff bit_drop_bit_eq bit_gdt_quad)
  then show "seg_flags ?q = unat (take_bit 4 oth)"
    unfolding seg_flags_def by (simp only: unsigned_ucast_eq) (simp add: unsigned_take_bit_eq)
qed

lemmas gdt_base_bits = gdt_parts [THEN conjunct1]
lemmas gdt_limit_bits = gdt_parts [THEN conjunct2, THEN conjunct1]

text \<open>
  C36. The processor takes a segment descriptor apart into the base, limit, access byte and flags it was built
  from: nothing is lost but the bits of the limit above 20 and of the flags above 4.
\<close>

theorem gdt_descriptor_roundtrip:
  "seg_base (gdt_quad (init_gdt_desc base lim acc oth)) = base \<and>
   seg_limit (gdt_quad (init_gdt_desc base lim acc oth)) = take_bit 20 lim \<and>
   seg_access (gdt_quad (init_gdt_desc base lim acc oth)) = acc \<and>
   seg_flags (gdt_quad (init_gdt_desc base lim acc oth)) = unat (take_bit 4 oth)"
  by (rule gdt_parts)

lemma seg_dpl_init: "seg_dpl (gdt_quad (init_gdt_desc base lim acc oth)) = unat (take_bit 2 (drop_bit 5 acc))"
proof -
  let ?q = "gdt_quad (init_gdt_desc base lim acc oth)"
  have "take_bit 2 (drop_bit 45 ?q) = ucast (take_bit 2 (drop_bit 5 acc))"
    by (rule bit_word_eqI) (auto simp: bit_take_bit_iff bit_unsigned_iff bit_drop_bit_eq bit_gdt_quad)
  then show ?thesis
    unfolding seg_dpl_def by (simp only: unsigned_ucast_eq) (simp add: unsigned_take_bit_eq)
qed

lemma seg_last_init:
  "seg_last (gdt_quad (init_gdt_desc base lim acc oth)) =
     (if bit oth 3 then unat (take_bit 20 lim) * 4096 + 4095 else unat (take_bit 20 lim))"
  using gdt_limit_bits [of base lim acc oth] by (simp add: seg_last_def bit_gdt_quad)

text \<open>
  The user's code and data segments have privilege level 3 and end at 0xBFFFFFFF, the last byte below the
  kernel; the kernel's segments have privilege level 0 and span the address space. The processor
  itself keeps user code away from the kernel, whatever the page tables hold.
\<close>

theorem user_segments_end_below_the_kernel:
  "seg_base (gdt_quad (kgdt (init_gdt stack_end tss_at s) 4)) = 0 \<and>
   seg_last (gdt_quad (kgdt (init_gdt stack_end tss_at s) 4)) = unat KERNEL_POS - 1 \<and>
   seg_dpl (gdt_quad (kgdt (init_gdt stack_end tss_at s) 4)) = 3 \<and>
   seg_base (gdt_quad (kgdt (init_gdt stack_end tss_at s) 5)) = 0 \<and>
   seg_last (gdt_quad (kgdt (init_gdt stack_end tss_at s) 5)) = unat KERNEL_POS - 1 \<and>
   seg_dpl (gdt_quad (kgdt (init_gdt stack_end tss_at s) 5)) = 3 \<and>
   seg_last (gdt_quad (kgdt (init_gdt stack_end tss_at s) 1)) = 0xFFFFFFFF \<and>
   seg_dpl (gdt_quad (kgdt (init_gdt stack_end tss_at s) 1)) = 0 \<and>
   seg_last (gdt_quad (kgdt (init_gdt stack_end tss_at s) 2)) = 0xFFFFFFFF \<and>
   seg_dpl (gdt_quad (kgdt (init_gdt stack_end tss_at s) 2)) = 0"
proof -
  have t: "take_bit 20 (0xBFFFF :: u32) = 0xBFFFF" "take_bit 20 (0xFFFFF :: u32) = 0xFFFFF"
    "take_bit 2 (drop_bit 5 (0xFF :: u8)) = 3" "take_bit 2 (drop_bit 5 (0xF3 :: u8)) = 3"
    "take_bit 2 (drop_bit 5 (0x9B :: u8)) = 0" "take_bit 2 (drop_bit 5 (0x93 :: u8)) = 0" "bit (0x0D :: u8) 3"
    by (simp_all add: take_bit_eq_mod drop_bit_eq_div bit_simps)
  show ?thesis
    unfolding init_gdt_def Let_def by (simp add: gdt_base_bits seg_last_init seg_dpl_init t KERNEL_POS_def)
qed

subsection \<open>Gates\<close>

lemma bit_idt_fields:
  "bit (ucast (take_bit 16 (x :: u32)) :: u16) k \<longleftrightarrow> k < 16 \<and> bit x k"
  by (auto simp: bit_unsigned_iff bit_take_bit_iff dest: bit_imp_le_length)

lemma bit_idt_quad:
  "bit (idt_quad (init_idt_desc sel off type)) n \<longleftrightarrow>
     (if n < 16 then bit off n else if n < 32 then bit sel (n - 16) else if n < 40 then False
      else if n < 48 then bit type (n - 40) else n < 64 \<and> bit off (n - 32))"
proof -
  have b8: "8 \<le> k \<Longrightarrow> \<not> bit type k" for k using bit_imp_le_length [of type k] by auto
  have b16: "16 \<le> k \<Longrightarrow> \<not> bit sel k" for k using bit_imp_le_length [of sel k] by auto
  have "bit (idt_quad (init_idt_desc sel off type)) n \<longleftrightarrow>
    n < 16 \<and> bit off n \<or> 16 \<le> n \<and> n < 64 \<and> bit sel (n - 16) \<or> 32 \<le> n \<and> n < 64 \<and> bit (0 :: u8) (n - 32) \<or>
    40 \<le> n \<and> n < 64 \<and> bit type (n - 40) \<or> 48 \<le> n \<and> n < 64 \<and> n - 48 < 16 \<and> bit off (16 + (n - 48))"
    unfolding idt_quad_def init_idt_desc_def idtdesc.select_convs field_masks bit_or_iff bit_wide bit_low bit_fields bit_drop_bit_eq o_def
    by (simp only: conj_left_absorb)
  note raw = this
  consider "n < 16" | "16 \<le> n" "n < 16 + 16" | "32 \<le> n" "n < 32 + 8" | "40 \<le> n" "n < 40 + 8" | "48 \<le> n" "n < 48 + 16" | "64 \<le> n"
    by linarith
  then show ?thesis
  proof cases
    case 1
    then show ?thesis unfolding raw by simp
  next
    case 2
    from in_range [OF this] obtain j where "n = 16 + j" "j < 16" by blast
    then show ?thesis unfolding raw by simp
  next
    case 3
    from in_range [OF this] obtain j where "n = 32 + j" "j < 8" by blast
    then show ?thesis unfolding raw by (simp add: b16)
  next
    case 4
    from in_range [OF this] obtain j where "n = 40 + j" "j < 8" by blast
    then show ?thesis unfolding raw by (simp add: b16)
  next
    case 5
    from in_range [OF this] obtain j where "n = 48 + j" "j < 16" by blast
    then show ?thesis unfolding raw by (simp add: b8 b16)
  next
    case 6
    then obtain j where "n = 64 + j" using le_Suc_ex by blast
    then show ?thesis unfolding raw by simp
  qed
qed

lemma gate_parts:
  "gate_offset (idt_quad (init_idt_desc sel off type)) = off"
  "gate_selector (idt_quad (init_idt_desc sel off type)) = sel"
  "gate_type (idt_quad (init_idt_desc sel off type)) = type"
proof -
  let ?q = "idt_quad (init_idt_desc sel off type)"
  show "gate_offset ?q = off"
  proof (rule bit_word_eqI)
    fix n assume "n < LENGTH(32)"
    then show "bit (gate_offset ?q) n = bit off n"
      by (cases "n < 16") (auto simp: gate_offset_def bit_unsigned_iff bit_or_iff bit_take_bit_iff bit_push_bit_iff
          bit_drop_bit_eq bit_idt_quad)
  qed
  show "gate_selector ?q = sel" "gate_type ?q = type"
    by (rule bit_word_eqI, simp add: gate_selector_def gate_type_def bit_unsigned_iff bit_drop_bit_eq bit_idt_quad)+
qed

text \<open>
  After \<^verbatim>\<open>init_idt\<close> the processor finds the entry point of each of the vectors 0 to 33 and of vector 128
  in its gate, with the kernel's code selector; every other vector leads to \<^verbatim>\<open>usless_function\<close>. Only the
  gate of vector 128, the system call, can be called from privilege level 3.
\<close>

theorem interrupt_gates:
  "i < IDT_SIZE \<Longrightarrow>
   gate_offset (idt_quad (kidt (init_idt asm_irq usless at s) i)) = (if i < 34 \<or> i = 128 then asm_irq i else usless) \<and>
   gate_selector (idt_quad (kidt (init_idt asm_irq usless at s) i)) = 0x08 \<and>
   gate_type (idt_quad (kidt (init_idt asm_irq usless at s) i)) = (if i = 128 then 0xEE else 0x8E)"
  by (simp add: init_idt_def Let_def gate_parts INT_GATE_def INT_GATE_R3_def)

theorem interrupt_gates_witness:
  "gate_offset (idt_quad (kidt (init_idt (\<lambda>n. of_nat n * 16) 0x5000 0x9000
      \<lparr>kidt = (\<lambda>_. init_idt_desc 0 0 0), kidtr = \<lparr>ilimite = 0, ibase = 0\<rparr>, ports = []\<rparr>) 14)) = 224"
  using interrupt_gates [of 14 "\<lambda>n. of_nat n * 16" "0x5000" "0x9000"
      "\<lparr>kidt = (\<lambda>_. init_idt_desc 0 0 0), kidtr = \<lparr>ilimite = 0, ibase = 0\<rparr>, ports = []\<rparr>"]
  by (simp add: IDT_SIZE_def)

text \<open>What the two controllers get when they are set up and masked, and at the end of an interrupt.\<close>

lemma pic_initialize_ports:
  "pic_initialize l = l @ [(0x20, 0x11), (0x21, 0x20), (0x21, 4), (0x21, 1), (0xa0, 0x11), (0xa1, 0x28), (0xa1, 2), (0xa1, 1)]"
  by (simp add: pic_initialize_def pic_initialize_parameter_def outb_def Let_def PIC_ICW1_ICW4_def PIC_ICW1_REQUEST_def
      PIC_MASTER_COMMANDE_def PIC_MASTER_DATA_def PIC_SLAVE_COMMANDE_def PIC_SLAVE_DATA_def PIC_ICW3_SLAVE_ON_2_def
      PIC_ICW3_MASTER_ON_2_def PIC_ICW4_X86_def)

end
