(* ===== verification/Byte_Queue.thy ===== *)
theory Byte_Queue
  imports Kernel_Prelude
begin

text \<open>
  The contract of a bounded byte queue between a producer and a consumer. Whatever the order of
  the calls, what the consumer has received, followed by what is still queued, is exactly
  what the producer was told had been accepted.
\<close>

datatype queue_op = Write "u8 list" | Read nat

text \<open>The history of a queue: the state, the bytes accepted and the bytes delivered.\<close>

fun queue_step ::
  "(u8 list \<Rightarrow> 's \<Rightarrow> nat \<times> 's) \<Rightarrow> (nat \<Rightarrow> 's \<Rightarrow> u8 list \<times> 's) \<Rightarrow> queue_op \<Rightarrow>
   's \<times> u8 list \<times> u8 list \<Rightarrow> 's \<times> u8 list \<times> u8 list" where
  "queue_step wr rd (Write d) (s, acc, del) =
     (case wr d s of (n, s') \<Rightarrow> (s', acc @ take n d, del))"
| "queue_step wr rd (Read n) (s, acc, del) =
     (case rd n s of (d, s') \<Rightarrow> (s', acc, del @ d))"

definition queue_run ::
  "(u8 list \<Rightarrow> 's \<Rightarrow> nat \<times> 's) \<Rightarrow> (nat \<Rightarrow> 's \<Rightarrow> u8 list \<times> 's) \<Rightarrow> queue_op list \<Rightarrow>
   's \<times> u8 list \<times> u8 list \<Rightarrow> 's \<times> u8 list \<times> u8 list" where
  "queue_run wr rd ops h = fold (queue_step wr rd) ops h"

locale byte_queue =
  fixes wr :: "u8 list \<Rightarrow> 's \<Rightarrow> nat \<times> 's"
    and rd :: "nat \<Rightarrow> 's \<Rightarrow> u8 list \<times> 's"
    and contents :: "'s \<Rightarrow> u8 list"
    and capacity :: nat
    and invar :: "'s \<Rightarrow> bool"
  assumes wr_appends: "invar s \<Longrightarrow> wr d s = (n, s') \<Longrightarrow>
      invar s' \<and> n = min (length d) (capacity - length (contents s)) \<and> contents s' = contents s @ take n d"
    and rd_takes: "invar s \<Longrightarrow> rd n s = (d, s') \<Longrightarrow>
      invar s' \<and> d = take n (contents s) \<and> contents s' = drop n (contents s)"
    and bounded: "invar s \<Longrightarrow> length (contents s) \<le> capacity"
begin

lemma run_fifo:
  assumes "invar s" "acc = del @ contents s" "queue_run wr rd ops (s, acc, del) = (s', acc', del')"
  shows "invar s' \<and> acc' = del' @ contents s' \<and> length (contents s') \<le> capacity"
  using assms
proof (induction ops arbitrary: s acc del)
  case Nil
  then show ?case by (auto simp: queue_run_def bounded)
next
  case (Cons e ops)
  obtain s1 acc1 del1 where st: "queue_step wr rd e (s, acc, del) = (s1, acc1, del1)" by (rule prod_cases3)
  have "invar s1 \<and> acc1 = del1 @ contents s1"
  proof (cases e)
    case (Write d)
    obtain n t where r: "wr d s = (n, t)" by (cases "wr d s")
    show ?thesis using st Cons.prems(2) Write r wr_appends [OF Cons.prems(1) r] by auto
  next
    case (Read n)
    obtain d t where r: "rd n s = (d, t)" by (cases "rd n s")
    show ?thesis using st Cons.prems(2) Read r rd_takes [OF Cons.prems(1) r] by auto
  qed
  then show ?case using Cons.IH [of s1 acc1 del1] Cons.prems(3) st by (simp add: queue_run_def)
qed

end

end
