(* ===== verification/Stream_Buffer.thy ===== *)
theory Stream_Buffer
  imports Byte_Queue
begin

text \<open>
  The ring buffer between the keyboard interrupt and the readers of a terminal
  (\<^verbatim>\<open>kernel/io/stream.c\<close>). The data pointers of \<^verbatim>\<open>stream_read\<close> and \<^verbatim>\<open>stream_write\<close> are the
  sequences of bytes read through them or written through them; the field \<^verbatim>\<open>next\<close>, which no code
  uses, is left out.
\<close>

definition STREAM_BUFF :: nat where "STREAM_BUFF = 128"

record stream =
  spos :: nat
  send :: nat
  sbuff :: "nat \<Rightarrow> u8"

definition stream_toread :: "stream \<Rightarrow> nat" where
  "stream_toread s =
     (if spos s \<le> send s then send s - spos s else send s + STREAM_BUFF - spos s)"

fun read_loop :: "nat \<Rightarrow> stream \<Rightarrow> u8 list \<times> stream" where
  "read_loop 0 s = ([], s)"
| "read_loop (Suc n) s =
     (if spos s \<noteq> send s
      then case read_loop n (s\<lparr>spos := (spos s + 1) mod STREAM_BUFF\<rparr>) of
             (d, s') \<Rightarrow> (sbuff s (spos s) # d, s')
      else ([], s))"

definition stream_read :: "nat \<Rightarrow> stream \<Rightarrow> u8 list \<times> stream" where
  "stream_read n s = read_loop n s"

fun write_loop :: "nat \<Rightarrow> u8 list \<Rightarrow> stream \<Rightarrow> nat \<times> stream" where
  "write_loop (Suc n) (b # d) s =
     (if spos s \<noteq> (send s + 1) mod STREAM_BUFF
      then case write_loop n d (s\<lparr>sbuff := (sbuff s)(send s := b), send := (send s + 1) mod STREAM_BUFF\<rparr>) of
             (k, s') \<Rightarrow> (k + 1, s')
      else (0, s))"
| "write_loop _ _ s = (0, s)"

definition stream_write :: "u8 list \<Rightarrow> stream \<Rightarrow> nat \<times> stream" where
  "stream_write data s =
     (let n = (if stream_toread s + length data > STREAM_BUFF
               then STREAM_BUFF - stream_toread s else length data)
      in write_loop n data s)"

subsection \<open>The queue it holds\<close>

definition stream_inv :: "stream \<Rightarrow> bool" where
  "stream_inv s \<longleftrightarrow> spos s < STREAM_BUFF \<and> send s < STREAM_BUFF"

definition queued :: "stream \<Rightarrow> u8 list" where
  "queued s = map (\<lambda>k. sbuff s ((spos s + k) mod STREAM_BUFF)) [0..<stream_toread s]"

lemma length_queued [simp]: "length (queued s) = stream_toread s"
  by (simp add: queued_def)

lemma toread_less: "stream_inv s \<Longrightarrow> stream_toread s < STREAM_BUFF"
  by (auto simp: stream_inv_def stream_toread_def STREAM_BUFF_def)

lemma toread_0_iff: "stream_inv s \<Longrightarrow> stream_toread s = 0 \<longleftrightarrow> spos s = send s"
  by (auto simp: stream_inv_def stream_toread_def STREAM_BUFF_def)

lemma full_iff: "stream_inv s \<Longrightarrow> spos s = (send s + 1) mod STREAM_BUFF \<longleftrightarrow> stream_toread s = 127"
  by (cases "send s = 127") (auto simp: stream_inv_def stream_toread_def STREAM_BUFF_def mod_Suc)

lemma succ_mod: "p < STREAM_BUFF \<Longrightarrow> (p + 1) mod STREAM_BUFF = (if p = 127 then 0 else p + 1)"
  by (auto simp: STREAM_BUFF_def)

lemma end_index: "stream_inv s \<Longrightarrow> (spos s + stream_toread s) mod STREAM_BUFF = send s"
  by (auto simp: stream_inv_def stream_toread_def STREAM_BUFF_def)

lemma pop_one:
  assumes inv: "stream_inv s" and ne: "spos s \<noteq> send s"
  defines "t \<equiv> s\<lparr>spos := (spos s + 1) mod STREAM_BUFF\<rparr>"
  shows "stream_inv t" "queued s = sbuff s (spos s) # queued t"
proof -
  show inv': "stream_inv t" using inv by (simp add: t_def stream_inv_def STREAM_BUFF_def)
  have n: "stream_toread s = Suc (stream_toread t)"
    using inv ne succ_mod [of "spos s"] by (auto simp: t_def stream_inv_def stream_toread_def STREAM_BUFF_def)
  have "(spos s + Suc k) mod STREAM_BUFF = (spos t + k) mod STREAM_BUFF" for k
    by (simp add: t_def mod_simps)
  then have "map (\<lambda>k. sbuff s ((spos s + Suc k) mod STREAM_BUFF)) [0..<stream_toread t] = queued t"
    by (simp add: queued_def t_def)
  moreover have "queued s = sbuff s (spos s mod STREAM_BUFF) #
      map (\<lambda>k. sbuff s ((spos s + Suc k) mod STREAM_BUFF)) [0..<stream_toread t]"
    by (simp only: queued_def n upt_conv_Cons [OF zero_less_Suc]) (simp add: map_Suc_upt [symmetric] del: upt_Suc)
  moreover have "spos s mod STREAM_BUFF = spos s" using inv by (simp add: stream_inv_def)
  ultimately show "queued s = sbuff s (spos s) # queued t" by simp
qed

lemma push_one:
  fixes b :: u8
  assumes inv: "stream_inv s" and ne: "spos s \<noteq> (send s + 1) mod STREAM_BUFF"
  defines "t \<equiv> s\<lparr>sbuff := (sbuff s)(send s := b), send := (send s + 1) mod STREAM_BUFF\<rparr>"
  shows "stream_inv t" "queued t = queued s @ [b]" "stream_toread t = stream_toread s + 1"
proof -
  show "stream_inv t" using inv by (simp add: t_def stream_inv_def STREAM_BUFF_def)
  show n: "stream_toread t = stream_toread s + 1"
    using inv ne succ_mod [of "send s"] by (auto simp: t_def stream_inv_def stream_toread_def STREAM_BUFF_def)
  have lt: "stream_toread s < 127" using toread_less [OF inv] full_iff [OF inv] ne by (simp add: STREAM_BUFF_def)
  have "(spos s + k) mod STREAM_BUFF \<noteq> send s" if "k < stream_toread s" for k
  proof -
    have "(spos s + k) mod 128 = (if spos s + k < 128 then spos s + k else spos s + k - 128)"
      using that lt inv by (auto simp: stream_inv_def STREAM_BUFF_def mod_if)
    then show ?thesis
      using that inv by (auto simp: stream_inv_def STREAM_BUFF_def stream_toread_def split: if_splits)
  qed
  then have "map (\<lambda>k. sbuff t ((spos t + k) mod STREAM_BUFF)) [0..<stream_toread s] = queued s"
    by (simp add: queued_def t_def)
  then show "queued t = queued s @ [b]" using n end_index [OF inv] by (simp add: queued_def t_def)
qed

lemma read_loop_takes:
  assumes "stream_inv s" "read_loop n s = (d, s')"
  shows "stream_inv s' \<and> d = take n (queued s) \<and> queued s' = drop n (queued s)"
  using assms
proof (induction n arbitrary: s d)
  case (Suc n)
  show ?case
  proof (cases "spos s = send s")
    case True
    then have "queued s = []" using toread_0_iff [OF Suc.prems(1)] by (simp add: queued_def)
    with True Suc.prems show ?thesis by simp
  next
    case False
    note one = pop_one [OF Suc.prems(1) False]
    obtain d1 where "read_loop n (s\<lparr>spos := (spos s + 1) mod STREAM_BUFF\<rparr>) = (d1, s')" "d = sbuff s (spos s) # d1"
      using Suc.prems(2) False by (auto split: prod.splits)
    with Suc.IH [OF one(1)] one(2) show ?thesis by simp
  qed
qed simp

lemma write_loop_appends:
  assumes "stream_inv s" "write_loop n d s = (k, s')"
  shows "stream_inv s' \<and> k = min (min n (length d)) (127 - stream_toread s) \<and> queued s' = queued s @ take k d"
  using assms
proof (induction n arbitrary: d s k)
  case (Suc n)
  show ?case
  proof (cases d)
    case Nil
    then show ?thesis using Suc.prems by simp
  next
    case (Cons b ds)
    show ?thesis
    proof (cases "spos s = (send s + 1) mod STREAM_BUFF")
      case True
      then show ?thesis using Suc.prems Cons full_iff [OF Suc.prems(1)] by simp
    next
      case False
      note one = push_one [OF Suc.prems(1) False, of b]
      have lt: "stream_toread s < 127"
        using toread_less [OF Suc.prems(1)] full_iff [OF Suc.prems(1)] False by (simp add: STREAM_BUFF_def)
      obtain k1 where "write_loop n ds (s\<lparr>sbuff := (sbuff s)(send s := b), send := (send s + 1) mod STREAM_BUFF\<rparr>) = (k1, s')"
          "k = k1 + 1"
        using Suc.prems(2) Cons False by (auto split: prod.splits)
      moreover have "127 - stream_toread s = Suc (127 - (stream_toread s + 1))" using lt by simp
      ultimately show ?thesis using Suc.IH [OF one(1)] one(2,3) Cons by simp
    qed
  qed
qed (cases d; simp)

interpretation stream: byte_queue stream_write stream_read queued 127 stream_inv
proof unfold_locales
  fix s d n s'
  assume inv: "stream_inv s"
  show "stream_write d s = (n, s') \<Longrightarrow> stream_inv s' \<and>
      n = min (length d) (127 - length (queued s)) \<and> queued s' = queued s @ take n d"
    using write_loop_appends [OF inv] toread_less [OF inv]
    by (fastforce simp: stream_write_def Let_def STREAM_BUFF_def split: if_splits)
  show "length (queued s) \<le> 127" using toread_less [OF inv] by (simp add: STREAM_BUFF_def)
next
  fix s n d s'
  show "stream_inv s \<Longrightarrow> stream_read n s = (d, s') \<Longrightarrow>
      stream_inv s' \<and> d = take n (queued s) \<and> queued s' = drop n (queued s)"
    using read_loop_takes by (simp add: stream_read_def)
qed

text \<open>C21. The stream is a queue of at most 127 bytes: over every sequence of \<^verbatim>\<open>stream_write\<close> and
  \<^verbatim>\<open>stream_read\<close> calls the bytes read, followed by the bytes still queued, are the bytes
  accepted, in order, none lost and none twice.\<close>

theorem stream_is_fifo:
  assumes "stream_inv s" "queued s = []" "queue_run stream_write stream_read ops (s, [], []) = (s', acc, del)"
  shows "stream_inv s' \<and> acc = del @ queued s' \<and> length (queued s') \<le> 127"
  using stream.run_fifo [OF assms(1) _ assms(3)] assms(2) by simp

definition demo_stream :: stream where
  "demo_stream = \<lparr>spos = 126, send = 126, sbuff = (\<lambda>_. 0)\<rparr>"

theorem stream_is_fifo_witness:
  "queue_run stream_write stream_read [Write [1, 2, 3], Read (Suc 0), Write [4]] (demo_stream, [], []) =
     (\<lparr>spos = 127, send = 2, sbuff = (\<lambda>_. 0)(126 := 1, 127 := 2, 0 := 3, 1 := 4)\<rparr>, [1, 2, 3, 4], [1]) \<and>
   queued \<lparr>spos = 127, send = 2, sbuff = (\<lambda>_. 0)(126 := 1, 127 := 2, 0 := 3, 1 := 4)\<rparr> = [2, 3, 4]"
proof -
  have r: "queue_run stream_write stream_read [Write [1, 2, 3], Read (Suc 0), Write [4]] (demo_stream, [], []) =
     (\<lparr>spos = 127, send = 2, sbuff = (\<lambda>_. 0)(126 := 1, 127 := 2, 0 := 3, 1 := 4)\<rparr>, [1, 2, 3, 4], [1])"
    by (simp add: queue_run_def demo_stream_def stream_write_def stream_read_def stream_toread_def
        STREAM_BUFF_def)
  have "stream_inv demo_stream" "queued demo_stream = []"
    by (simp_all add: stream_inv_def demo_stream_def queued_def stream_toread_def STREAM_BUFF_def)
  from stream_is_fifo [OF this r] r show ?thesis by simp
qed

end
