(* ===== verification/Lib_Mem.thy ===== *)
theory Lib_Mem
  imports Kernel_Prelude
begin

text \<open>
  The memory functions of the kernel's library (\<^verbatim>\<open>lib/mem\<close>) and its character classes
  (\<^verbatim>\<open>lib/char\<close>). Memory is a function from addresses to bytes, so that source and destination may
  overlap; addresses do not wrap.
\<close>

type_synonym mem = "nat \<Rightarrow> u8"

subsection \<open>Characters\<close>

definition isdigit :: "int \<Rightarrow> int" where "isdigit c = (if c \<ge> 48 \<and> c \<le> 57 then 1 else 0)"
definition islower :: "int \<Rightarrow> int" where "islower c = (if c \<ge> 97 \<and> c \<le> 122 then 1 else 0)"
definition isupper :: "int \<Rightarrow> int" where "isupper c = (if c \<ge> 65 \<and> c \<le> 90 then 1 else 0)"
definition isspace :: "int \<Rightarrow> int" where "isspace c = (if c = 32 then 1 else 0)"
definition isascii :: "int \<Rightarrow> int" where "isascii c = (if c \<ge> 0 \<and> c \<le> 127 then 1 else 0)"
definition isalpha :: "int \<Rightarrow> int" where "isalpha c = (if isupper c \<noteq> 0 \<or> islower c \<noteq> 0 then 1 else 0)"
definition isalnum :: "int \<Rightarrow> int" where "isalnum c = (if isdigit c \<noteq> 0 \<or> isalpha c \<noteq> 0 then 1 else 0)"
definition ispunct :: "int \<Rightarrow> int" where
  "ispunct c = (if (c \<ge> 33 \<and> c \<le> 47) \<or> (c \<ge> 58 \<and> c \<le> 64) \<or> (c \<ge> 91 \<and> c \<le> 96) \<or> (c \<ge> 123 \<and> c \<le> 126)
     then 1 else 0)"
definition isprint :: "int \<Rightarrow> int" where
  "isprint c = (if isspace c \<noteq> 0 \<or> isalnum c \<noteq> 0 \<or> ispunct c \<noteq> 0 then 1 else 0)"
definition iswhitespace :: "int \<Rightarrow> int" where
  "iswhitespace c = (if c = 32 \<or> c = 10 \<or> c = 9 then 1 else 0)"
definition tolower :: "int \<Rightarrow> int" where "tolower c = (if c \<ge> 65 \<and> c \<le> 90 then c + 32 else c)"
definition toupper :: "int \<Rightarrow> int" where "toupper c = (if c \<ge> 97 \<and> c \<le> 122 then c - 32 else c)"

lemmas char_class_defs = isdigit_def islower_def isupper_def isspace_def isascii_def isalpha_def
  isalnum_def ispunct_def isprint_def iswhitespace_def tolower_def toupper_def

subsection \<open>Memory\<close>

fun memset :: "nat \<Rightarrow> u8 \<Rightarrow> nat \<Rightarrow> mem \<Rightarrow> mem" where
  "memset s c 0 m = m"
| "memset s c (Suc n) m = memset s c n (m(s + n := c))"

fun bzero :: "nat \<Rightarrow> nat \<Rightarrow> mem \<Rightarrow> mem" where
  "bzero s 0 m = m"
| "bzero s (Suc n) m = bzero s n (m(s + n := 0))"

function memcpy_loop :: "nat \<Rightarrow> nat \<Rightarrow> nat \<Rightarrow> nat \<Rightarrow> mem \<Rightarrow> mem" where
  "memcpy_loop dst src len count m =
     (if count < len then memcpy_loop dst src len (count + 1) (m(dst + count := m (src + count))) else m)"
  by pat_completeness auto
termination
  by (relation "measure (\<lambda>(dst, src, len, count, m). len - count)") auto

declare memcpy_loop.simps [simp del]

definition memcpy :: "nat \<Rightarrow> nat \<Rightarrow> nat \<Rightarrow> mem \<Rightarrow> nat \<times> mem" where
  "memcpy dst src len m = (dst, memcpy_loop dst src len 0 m)"

text \<open>The downward loop of \<^verbatim>\<open>memmove\<close>, from index \<open>len\<close> to 0.\<close>

fun memmove_down :: "nat \<Rightarrow> nat \<Rightarrow> nat \<Rightarrow> mem \<Rightarrow> mem" where
  "memmove_down dst src 0 m = m(dst := m src)"
| "memmove_down dst src (Suc len) m = memmove_down dst src len (m(dst + Suc len := m (src + Suc len)))"

definition memmove :: "nat \<Rightarrow> nat \<Rightarrow> nat \<Rightarrow> mem \<Rightarrow> nat \<times> mem" where
  "memmove dst src len m =
     (if len = 0 then (dst, m)
      else if dst \<le> src then memcpy dst src len m
      else (dst, memmove_down dst src (len - 1) m))"

function memcmp_loop :: "nat \<Rightarrow> nat \<Rightarrow> nat \<Rightarrow> nat \<Rightarrow> mem \<Rightarrow> int" where
  "memcmp_loop s1 s2 n i m =
     (if i < n
      then let diff = uint (m (s1 + i)) - uint (m (s2 + i))
           in if diff \<noteq> 0 then diff else memcmp_loop s1 s2 n (i + 1) m
      else 0)"
  by pat_completeness auto
termination
  by (relation "measure (\<lambda>(s1, s2, n, i, m). n - i)") auto

definition memcmp :: "nat \<Rightarrow> nat \<Rightarrow> nat \<Rightarrow> mem \<Rightarrow> int" where
  "memcmp s1 s2 n m = memcmp_loop s1 s2 n 0 m"

function memchr_loop :: "nat \<Rightarrow> u8 \<Rightarrow> nat \<Rightarrow> nat \<Rightarrow> mem \<Rightarrow> nat option" where
  "memchr_loop b c len i m =
     (if i < len then if m (b + i) = c then Some (b + i) else memchr_loop b c len (i + 1) m else None)"
  by pat_completeness auto
termination
  by (relation "measure (\<lambda>(b, c, len, i, m). len - i)") auto

definition memchr :: "nat \<Rightarrow> u8 \<Rightarrow> nat \<Rightarrow> mem \<Rightarrow> nat option" where
  "memchr b c len m = memchr_loop b c len 0 m"

function memccpy_loop :: "nat \<Rightarrow> nat \<Rightarrow> u8 \<Rightarrow> nat \<Rightarrow> nat \<Rightarrow> mem \<Rightarrow> nat \<times> mem" where
  "memccpy_loop dst src c len i m =
     (if i < len \<and> m (src + i) \<noteq> c
      then memccpy_loop dst src c len (i + 1) (m(dst + i := m (src + i)))
      else (i, m))"
  by pat_completeness auto
termination
  by (relation "measure (\<lambda>(dst, src, c, len, i, m). len - i)") auto

definition memccpy :: "nat \<Rightarrow> nat \<Rightarrow> u8 \<Rightarrow> nat \<Rightarrow> mem \<Rightarrow> nat option \<times> mem" where
  "memccpy dst src c len m =
     (case memccpy_loop dst src c len 0 m of (i, m') \<Rightarrow>
        if i = len then (None, m') else (Some (dst + i + 1), m'(dst + i := m' (src + i))))"

declare memcmp_loop.simps [simp del] memchr_loop.simps [simp del] memccpy_loop.simps [simp del]

subsection \<open>What they compute\<close>

definition copied :: "nat \<Rightarrow> nat \<Rightarrow> nat \<Rightarrow> mem \<Rightarrow> mem" where
  "copied dst src len m = (\<lambda>a. if dst \<le> a \<and> a < dst + len then m (src + (a - dst)) else m a)"

lemma memset_fills: "memset s c n m = (\<lambda>a. if s \<le> a \<and> a < s + n then c else m a)"
  by (induction n arbitrary: m) (auto simp: fun_eq_iff)

lemma bzero_memset: "bzero s n m = memset s 0 n m"
  by (induction n arbitrary: m) auto

lemma memcpy_loop_copies:
  assumes "count \<le> len" "dst \<le> src \<or> src + len \<le> dst"
    "\<And>a. m' a = copied dst src count m a"
  shows "memcpy_loop dst src len count m' = copied dst src len m"
  using assms
proof (induction "len - count" arbitrary: count m')
  case 0
  then have "count = len" "m' = copied dst src len m" by (auto simp: fun_eq_iff)
  then show ?case by (subst memcpy_loop.simps) simp
next
  case (Suc k)
  have less: "count < len" using Suc.hyps(2) by simp
  have "(m'(dst + count := m' (src + count))) a = copied dst src (count + 1) m a" for a
    using Suc.prems(2) less by (auto simp: Suc.prems(3) copied_def)
  then have "memcpy_loop dst src len (count + 1) (m'(dst + count := m' (src + count))) = copied dst src len m"
    using Suc.hyps(1) [of "count + 1" "m'(dst + count := m' (src + count))"] Suc.hyps(2) Suc.prems(2) less by simp
  then show ?case using less by (subst memcpy_loop.simps) simp
qed

lemma memcpy_copies:
  "dst \<le> src \<or> src + len \<le> dst \<Longrightarrow> memcpy dst src len m = (dst, copied dst src len m)"
proof -
  assume "dst \<le> src \<or> src + len \<le> dst"
  moreover have "m a = copied dst src 0 m a" for a by (auto simp: copied_def)
  ultimately show ?thesis using memcpy_loop_copies [of 0 len dst src m m] by (simp add: memcpy_def)
qed

lemma memmove_down_copies:
  "src < dst \<Longrightarrow> memmove_down dst src len m = copied dst src (Suc len) m"
proof (induction len arbitrary: m)
  case 0
  then show ?case by (auto simp: copied_def fun_eq_iff)
next
  case (Suc len)
  have "copied dst src (Suc len) (m(dst + Suc len := m (src + Suc len))) = copied dst src (Suc (Suc len)) m"
    using Suc.prems by (auto simp: copied_def fun_eq_iff)
  then show ?case using Suc by simp
qed

text \<open>\<^verbatim>\<open>memmove\<close> copies \<open>len\<close> bytes for every position of source and destination, overlapping or
  not, and changes nothing else: the destination receives the bytes the source had
  before the call.\<close>

theorem memmove_copies_overlapping: "memmove dst src len m = (dst, copied dst src len m)"
proof (cases "len = 0")
  case True
  then show ?thesis by (auto simp: memmove_def copied_def fun_eq_iff)
next
  case False
  then show ?thesis
    using memcpy_copies [of dst src len m] memmove_down_copies [of src dst "len - 1" m]
    by (simp add: memmove_def)
qed

text \<open>C. \<^verbatim>\<open>memcmp\<close> is the difference of the bytes at the first index where the two regions differ,
  and 0 when there is none.\<close>

theorem memcmp_first_difference:
  "memcmp s1 s2 n m =
     (case find (\<lambda>i. m (s1 + i) \<noteq> m (s2 + i)) [0..<n] of
        None \<Rightarrow> 0 | Some i \<Rightarrow> uint (m (s1 + i)) - uint (m (s2 + i)))"
proof -
  have "memcmp_loop s1 s2 n j m =
     (case find (\<lambda>i. m (s1 + i) \<noteq> m (s2 + i)) [j..<n] of
        None \<Rightarrow> 0 | Some i \<Rightarrow> uint (m (s1 + i)) - uint (m (s2 + i)))" for j
  proof (induction "n - j" arbitrary: j)
    case 0
    then show ?case by (subst memcmp_loop.simps) simp
  next
    case (Suc d)
    have "j < n" "[j..<n] = j # [j + 1..<n]" using Suc.hyps(2) by (simp_all add: upt_conv_Cons)
    moreover have "uint (m (s1 + j)) - uint (m (s2 + j)) = 0 \<longleftrightarrow> m (s1 + j) = m (s2 + j)"
      by (simp add: word_uint_eq_iff)
    ultimately show ?case
      using Suc.hyps by (subst memcmp_loop.simps) (simp add: Let_def)
  qed
  from this [of 0] show ?thesis by (simp add: memcmp_def)
qed

lemma memchr_find: "memchr b c len m = map_option (\<lambda>i. b + i) (find (\<lambda>i. m (b + i) = c) [0..<len])"
proof -
  have "memchr_loop b c len j m = map_option (\<lambda>i. b + i) (find (\<lambda>i. m (b + i) = c) [j..<len])" for j
  proof (induction "len - j" arbitrary: j)
    case 0
    then show ?case by (subst memchr_loop.simps) simp
  next
    case (Suc d)
    have "j < len" "[j..<len] = j # [j + 1..<len]" using Suc.hyps(2) by (simp_all add: upt_conv_Cons)
    then show ?case using Suc.hyps by (subst memchr_loop.simps) simp
  qed
  from this [of 0] show ?thesis by (simp add: memchr_def)
qed

text \<open>C. Space, digits, upper case, lower case and punctuation are disjoint classes that together are
  the printable characters, 32 to 126.\<close>

theorem printable_classes:
  "isprint c = isspace c + isdigit c + isupper c + islower c + ispunct c \<and>
   isprint c = (if 32 \<le> c \<and> c \<le> 126 then 1 else 0)"
  by (auto simp: char_class_defs)

end
