(* ===== verification/Terminal.thy ===== *)
theory Terminal
  imports Descriptors Stream_Buffer Lib_Mem
begin

text \<open>
  The terminals (\<^verbatim>\<open>kernel/tty\<close>), the video memory (\<^verbatim>\<open>kernel/vga\<close>) and the input line (\<^verbatim>\<open>tty_input.c\<close>,
  \<^verbatim>\<open>kernel/io/getc.c\<close>). A screen is a list of 2000 cells; a write outside it has no meaning (\<open>None\<close>).
  Row and column are 32-bit words, so that they wrap as in the source. The terminals are numbered
  as in the array \<^verbatim>\<open>tty\<close>.
\<close>

definition VGA_WIDTH :: nat where "VGA_WIDTH = 80"
definition VGA_HEIGHT :: nat where "VGA_HEIGHT = 25"
definition MAX_TTY :: nat where "MAX_TTY = 10"
definition VGA_COLOR_BLACK :: u8 where "VGA_COLOR_BLACK = 0"
definition VGA_COLOR_LIGHT_GREY :: u8 where "VGA_COLOR_LIGHT_GREY = 7"
definition VGA_COLOR_LIGHT_GREEN :: u8 where "VGA_COLOR_LIGHT_GREEN = 10"
definition VGA_COLOR_LIGHT_RED :: u8 where "VGA_COLOR_LIGHT_RED = 12"

lemmas vga_size_defs = VGA_WIDTH_def VGA_HEIGHT_def

record s_tty =
  tty_row :: u32
  tty_column :: u32
  tty_color :: u8
  screen :: "u16 list"
  input_raw :: "u8 list"
  input_raw_c :: int
  input :: stream

record tty_st =
  tty :: "nat \<Rightarrow> s_tty"
  current_tty :: nat
  vga_buffer :: "u16 list"
  vga_ports :: "(u32 \<times> u8) list"

subsection \<open>Video memory\<close>

definition vga_entry_color :: "u8 \<Rightarrow> u8 \<Rightarrow> u8" where
  "vga_entry_color fg bg = fg OR push_bit 4 bg"

definition vga_entry :: "u8 \<Rightarrow> u8 \<Rightarrow> u16" where
  "vga_entry uc color = ucast uc OR push_bit 8 (ucast color)"

definition vga_move_cursor :: "u32 \<Rightarrow> u32 \<Rightarrow> 'a tty_st_scheme \<Rightarrow> 'a tty_st_scheme" where
  "vga_move_cursor x y s =
     (let index = y * of_nat VGA_WIDTH + x
      in s\<lparr>vga_ports := outb 0x3D5 (ucast (drop_bit 8 index AND 0xFF)) (outb 0x3D4 0x0E
             (outb 0x3D5 (ucast (index AND 0xFF)) (outb 0x3D4 0x0F (vga_ports s))))\<rparr>)"

definition tty_render_vga :: "nat \<Rightarrow> 'a tty_st_scheme \<Rightarrow> 'a tty_st_scheme" where
  "tty_render_vga t s = s\<lparr>vga_buffer := map (\<lambda>pos. screen (tty s t) ! pos) [0..<VGA_WIDTH * VGA_HEIGHT]
     @ drop (VGA_WIDTH * VGA_HEIGHT) (vga_buffer s)\<rparr>"

definition update_tty :: "nat \<Rightarrow> (s_tty \<Rightarrow> s_tty) \<Rightarrow> 'a tty_st_scheme \<Rightarrow> 'a tty_st_scheme" where
  "update_tty t f s = s\<lparr>tty := (tty s)(t := f (tty s t))\<rparr>"

definition tty_setcolor :: "nat \<Rightarrow> u8 \<Rightarrow> 'a tty_st_scheme \<Rightarrow> 'a tty_st_scheme" where
  "tty_setcolor t color s = update_tty t (\<lambda>x. x\<lparr>tty_color := color\<rparr>) s"

definition tty_putentryat :: "nat \<Rightarrow> u8 \<Rightarrow> u8 \<Rightarrow> u32 \<Rightarrow> u32 \<Rightarrow> 'a tty_st_scheme \<Rightarrow> 'a tty_st_scheme option" where
  "tty_putentryat t c color x y s =
     (let index = unat (y * of_nat VGA_WIDTH + x) in
      if index \<ge> length (screen (tty s t)) \<or> (current_tty s = t \<and> index \<ge> length (vga_buffer s)) then None
      else let s1 = update_tty t (\<lambda>x. x\<lparr>screen := (screen x)[index := vga_entry c color]\<rparr>) s
           in Some (if current_tty s = t then s1\<lparr>vga_buffer := (vga_buffer s1)[index := vga_entry c color]\<rparr> else s1))"

definition cursor_to :: "nat \<Rightarrow> 'a tty_st_scheme \<Rightarrow> 'a tty_st_scheme" where
  "cursor_to t s = (if t = current_tty s then vga_move_cursor (tty_column (tty s t)) (tty_row (tty s t)) s else s)"

definition tty_clear_screen :: "nat \<Rightarrow> 'a tty_st_scheme \<Rightarrow> 'a tty_st_scheme" where
  "tty_clear_screen t s =
     (let s1 = update_tty t (\<lambda>x. x\<lparr>screen := replicate (VGA_WIDTH * VGA_HEIGHT) (vga_entry 32 (tty_color x))
                  @ drop (VGA_WIDTH * VGA_HEIGHT) (screen x), tty_row := 0, tty_column := 0\<rparr>) s
      in if current_tty s = t then vga_move_cursor 0 0 (tty_render_vga t s1) else s1)"

text \<open>The rows move up by one and the last one is blank.\<close>

definition scrolled :: "u8 \<Rightarrow> u16 list \<Rightarrow> u16 list" where
  "scrolled color scr = take (VGA_WIDTH * (VGA_HEIGHT - 1)) (drop VGA_WIDTH scr) @ replicate VGA_WIDTH (vga_entry 32 color)
     @ drop (VGA_WIDTH * VGA_HEIGHT) scr"

definition tty_scrollup :: "nat \<Rightarrow> 'a tty_st_scheme \<Rightarrow> 'a tty_st_scheme" where
  "tty_scrollup t s = update_tty t (\<lambda>x. x\<lparr>screen := scrolled (tty_color x) (screen x)\<rparr>) s"

subsection \<open>Characters\<close>

text \<open>The step to the next row, with the screen scrolled at the last one.\<close>

definition next_row :: "nat \<Rightarrow> 'a tty_st_scheme \<Rightarrow> 'a tty_st_scheme" where
  "next_row t s =
     (let s1 = (if tty_row (tty s t) \<noteq> of_nat VGA_HEIGHT then update_tty t (\<lambda>x. x\<lparr>tty_row := tty_row x + 1\<rparr>) s else s)
      in if tty_row (tty s1 t) = of_nat VGA_HEIGHT
         then let s2 = tty_scrollup t s1;
                  s3 = (if t = current_tty s2 then tty_render_vga t s2 else s2)
              in update_tty t (\<lambda>x. x\<lparr>tty_row := tty_row x - 1\<rparr>) s3
         else s1)"

definition tty_printchar :: "nat \<Rightarrow> u8 \<Rightarrow> 'a tty_st_scheme \<Rightarrow> 'a tty_st_scheme option" where
  "tty_printchar t c s =
     (case tty_putentryat t c (tty_color (tty s t)) (tty_column (tty s t)) (tty_row (tty s t)) s of
        None \<Rightarrow> None
      | Some s1 \<Rightarrow>
          let s2 = update_tty t (\<lambda>x. x\<lparr>tty_column := tty_column x + 1\<rparr>) s1;
              s3 = (if tty_column (tty s2 t) = of_nat VGA_WIDTH
                    then next_row t (update_tty t (\<lambda>x. x\<lparr>tty_column := 0\<rparr>) s2) else s2)
          in Some (cursor_to t s3))"

definition tty_putendl :: "nat \<Rightarrow> 'a tty_st_scheme \<Rightarrow> 'a tty_st_scheme" where
  "tty_putendl t s = cursor_to t (update_tty t (\<lambda>x. x\<lparr>tty_column := 0\<rparr>) (next_row t s))"

definition tty_backspace :: "nat \<Rightarrow> 'a tty_st_scheme \<Rightarrow> 'a tty_st_scheme option" where
  "tty_backspace t s =
     (let s1 = update_tty t (\<lambda>x. if tty_column x = 0 \<and> tty_row x \<noteq> 0
                  then x\<lparr>tty_column := of_nat VGA_WIDTH - 1, tty_row := tty_row x - 1\<rparr>
                  else x\<lparr>tty_column := tty_column x - 1\<rparr>) s
      in map_option (cursor_to t)
           (tty_putentryat t 32 (tty_color (tty s1 t)) (tty_column (tty s1 t)) (tty_row (tty s1 t)) s1))"

definition tty_putretchariot :: "nat \<Rightarrow> 'a tty_st_scheme \<Rightarrow> 'a tty_st_scheme" where
  "tty_putretchariot t s = update_tty t (\<lambda>x. x\<lparr>tty_column := 0\<rparr>) s"

definition tty_putchar :: "nat \<Rightarrow> u8 \<Rightarrow> 'a tty_st_scheme \<Rightarrow> 'a tty_st_scheme option" where
  "tty_putchar t c s =
     (if isprint (sint c) \<noteq> 0 then tty_printchar t c s
      else if c = 10 then Some (tty_putendl t s)
      else if c = 13 then Some (tty_putretchariot t s)
      else if c = 8 then tty_backspace t s
      else Some s)"

fun tty_write :: "nat \<Rightarrow> u8 list \<Rightarrow> 'a tty_st_scheme \<Rightarrow> 'a tty_st_scheme option" where
  "tty_write t [] s = Some s"
| "tty_write t (c # data) s = (case tty_putchar t c s of None \<Rightarrow> None | Some s1 \<Rightarrow> tty_write t data s1)"

text \<open>The string is given by its bytes up to the zero.\<close>

definition tty_putstr :: "nat \<Rightarrow> u8 list \<Rightarrow> 'a tty_st_scheme \<Rightarrow> 'a tty_st_scheme option" where
  "tty_putstr t data s = tty_write t data s"

subsection \<open>Terminals\<close>

definition switch_tty :: "nat \<Rightarrow> 'a tty_st_scheme \<Rightarrow> 'a tty_st_scheme" where
  "switch_tty t s = cursor_to t (tty_render_vga t (s\<lparr>current_tty := t\<rparr>))"

fun init_ttys :: "nat \<Rightarrow> nat \<Rightarrow> 'a tty_st_scheme \<Rightarrow> 'a tty_st_scheme" where
  "init_ttys i 0 s = s"
| "init_ttys i (Suc n) s =
     init_ttys (i + 1) n (tty_clear_screen i (update_tty i
       (\<lambda>x. x\<lparr>tty_color := vga_entry_color VGA_COLOR_LIGHT_GREY (VGA_COLOR_BLACK + of_nat i), input_raw_c := 0\<rparr>) s))"

definition init_tty :: "'a tty_st_scheme \<Rightarrow> 'a tty_st_scheme" where
  "init_tty s = init_ttys 0 MAX_TTY (s\<lparr>current_tty := 0\<rparr>)"

subsection \<open>The input line\<close>

text \<open>\<open>key\<close> is a \<^verbatim>\<open>char\<close>; backspace is 8, the end of the line 10.\<close>

definition tty_input_char :: "nat \<Rightarrow> u8 \<Rightarrow> 'a tty_st_scheme \<Rightarrow> 'a tty_st_scheme option" where
  "tty_input_char t key s =
     (let n = input_raw_c (tty s t) in
      if key = 0 then Some s
      else if key = 8
      then if n > 0 then tty_putchar t key (update_tty t (\<lambda>x. x\<lparr>input_raw_c := n - 1\<rparr>) s) else Some s
      else if n < int STREAM_BUFF - 2 \<or> (n < int STREAM_BUFF - 1 \<and> key = 10)
      then if n < 0 \<or> nat n \<ge> length (input_raw (tty s t)) then None
           else case tty_putchar t key (update_tty t (\<lambda>x. x\<lparr>input_raw := (input_raw x)[nat n := key], input_raw_c := n + 1\<rparr>) s) of
             None \<Rightarrow> None
           | Some s1 \<Rightarrow> Some (if key = 10
               then update_tty t (\<lambda>x. x\<lparr>input := snd (stream_write (take (nat (input_raw_c x)) (input_raw x)) (input x)),
                                       input_raw_c := 0\<rparr>) s1
               else s1)
      else Some s)"

text \<open>\<^verbatim>\<open>getc\<close> returns 0 when there is nothing to read.\<close>

definition getc :: "'a tty_st_scheme \<Rightarrow> u8 \<times> 'a tty_st_scheme" where
  "getc s =
     (case stream_read 1 (input (tty s (current_tty s))) of
        (data, st) \<Rightarrow> (case data of [c] \<Rightarrow> c | _ \<Rightarrow> 0, update_tty (current_tty s) (\<lambda>x. x\<lparr>input := st\<rparr>) s))"

end
