(* ===== verification/Keyboard.thy ===== *)
theory Keyboard
  imports Kernel_Prelude
begin

text \<open>
  The key tables and the keyboard state (\<^verbatim>\<open>kernel/io/key_layout.c\<close>). A table maps a scan code below
  its length to a byte; the lines below are those of the source, with the characters as their codes.
  The two tables in use are copies of the tables of a layout. Strings are their bytes up to the zero,
  so that \<^verbatim>\<open>strcmp\<close> and \<^verbatim>\<open>memcmp\<close> answering 0 is equality (\<open>Lib_Str_Correct\<close>). An index past
  the end of a table has no value.
\<close>

subsection \<open>Layouts\<close>

definition value_table_qwerty_shift :: "u8 list" where
  "value_table_qwerty_shift = [
   0,
   0, 33, 64, 35, 36, 37, 94, 38, 42, 40, 41, 95, 43, 8,
   0, 81, 87, 69, 82, 84, 89, 85, 73, 79, 80, 123, 125, 10,
   0, 65, 83, 68, 70, 71, 72, 74, 75, 76, 59, 39, 126,
   0, 124, 90, 88, 67, 86, 66, 78, 77, 60, 62, 63, 0,
   42, 0, 32, 0,
   0, 0, 0, 0, 0, 0, 0, 0, 0, 0,
   0, 0,
   55, 56, 57, 45,
   52, 53, 54, 43,
   49, 50, 51,
   48, 46, 54,
   0, 0, 0, 0, 0]"

definition value_table_qwerty :: "u8 list" where
  "value_table_qwerty = [
   0,
   0, 49, 50, 51, 52, 53, 54, 55, 56, 57, 48, 45, 61, 8,
   0, 113, 119, 101, 114, 116, 121, 117, 105, 111, 112, 91, 93, 10,
   0, 97, 115, 100, 102, 103, 104, 106, 107, 108, 58, 34, 96,
   0, 92, 122, 120, 99, 118, 98, 110, 109, 44, 46, 47, 0,
   42, 0, 32, 0,
   0, 0, 0, 0, 0, 0, 0, 0, 0, 0,
   0, 0,
   55, 56, 57, 45,
   52, 53, 54, 43,
   49, 50, 51,
   48, 46, 54,
   0, 0, 0, 0, 0]"

definition value_table_azerty_shift :: "u8 list" where
  "value_table_azerty_shift = [
   0,
   0, 49, 50, 51, 52, 53, 54, 55, 56, 57, 48, 0, 95, 8,
   0, 65, 90, 69, 82, 84, 89, 85, 73, 79, 80, 0, 42, 10,
   0, 81, 83, 68, 70, 71, 72, 74, 75, 76, 77, 37, 62,
   0, 0, 87, 88, 67, 86, 66, 78, 63, 46, 47, 43, 0,
   42, 0, 32, 0,
   0, 0, 0, 0, 0, 0, 0, 0, 0, 0,
   0, 0,
   55, 56, 57, 45,
   52, 53, 54, 43,
   49, 50, 51,
   48, 46, 54,
   0, 0, 0, 0, 0]"

definition value_table_azerty :: "u8 list" where
  "value_table_azerty = [
   0,
   0, 38, 0, 34, 39, 40, 0, 0, 33, 0, 0, 41, 45, 8,
   0, 97, 122, 101, 114, 116, 121, 117, 105, 111, 112, 94, 36, 10,
   0, 113, 115, 100, 102, 103, 104, 106, 107, 108, 109, 0, 60,
   0, 96, 119, 120, 99, 118, 98, 110, 44, 59, 58, 61, 0,
   42, 0, 32, 0,
   0, 0, 0, 0, 0, 0, 0, 0, 0, 0,
   0, 0,
   55, 56, 57, 45,
   52, 53, 54, 43,
   49, 50, 51,
   48, 46, 54,
   0, 0, 0, 0, 0]"

lemmas table_defs = value_table_qwerty_shift_def value_table_qwerty_def value_table_azerty_shift_def value_table_azerty_def

record kbd_st =
  value_table_shift :: "u8 list"
  value_table :: "u8 list"
  shift_locked :: u8

text \<open>The state the kernel starts with.\<close>

definition kbd_init :: kbd_st where
  "kbd_init = \<lparr>value_table_shift = value_table_qwerty_shift, value_table = value_table_qwerty, shift_locked = 0\<rparr>"

definition QWERTY :: "u8 list" where "QWERTY = [113, 119, 101, 114, 116, 121]"
definition AZERTY :: "u8 list" where "AZERTY = [97, 122, 101, 114, 116, 121]"
definition UNKNOW :: "u8 list" where "UNKNOW = [117, 110, 107, 110, 111, 119]"

definition get_layout :: "kbd_st \<Rightarrow> u8 list" where
  "get_layout s =
     (if value_table_shift s = value_table_qwerty_shift \<and> value_table s = value_table_qwerty then QWERTY
      else if value_table_shift s = value_table_azerty_shift \<and> value_table s = value_table_azerty then AZERTY
      else UNKNOW)"

definition set_layout :: "u8 list \<Rightarrow> kbd_st \<Rightarrow> int \<times> kbd_st" where
  "set_layout keymap s =
     (if keymap = QWERTY
      then (0, s\<lparr>value_table_shift := value_table_qwerty_shift, value_table := value_table_qwerty\<rparr>)
      else if keymap = AZERTY
      then (0, s\<lparr>value_table_shift := value_table_azerty_shift, value_table := value_table_azerty\<rparr>)
      else (1, s))"

subsection \<open>Scan codes\<close>

definition SHIFT_PRESSED :: "u32 \<Rightarrow> bool" where "SHIFT_PRESSED x \<longleftrightarrow> x = 0x36 \<or> x = 0x2A"
definition SHIFT_RELEASED :: "u32 \<Rightarrow> bool" where "SHIFT_RELEASED x \<longleftrightarrow> x = 0xB6 \<or> x = 0xAA"

definition key_layout :: "u32 \<Rightarrow> kbd_st \<Rightarrow> (u8 \<times> kbd_st) option" where
  "key_layout key s =
     (let s1 = (if SHIFT_PRESSED key then s\<lparr>shift_locked := 1\<rparr> else s);
          s2 = (if SHIFT_RELEASED key then s1\<lparr>shift_locked := 0\<rparr> else s1);
          k = key AND 0x7F
      in if key = k
         then let table = (if shift_locked s2 \<noteq> 0 then value_table_shift s2 else value_table s2)
              in if unat k < length table then Some (table ! unat k, s2) else None
         else Some (0, s2))"

text \<open>The tables in use always are those of one of the two layouts.\<close>

definition layout_ok :: "kbd_st \<Rightarrow> bool" where
  "layout_ok s \<longleftrightarrow> get_layout s = QWERTY \<or> get_layout s = AZERTY"

subsection \<open>Properties\<close>

lemma layout_names [simp]: "QWERTY \<noteq> AZERTY" "QWERTY \<noteq> UNKNOW" "AZERTY \<noteq> UNKNOW"
  "AZERTY \<noteq> QWERTY" "UNKNOW \<noteq> QWERTY" "UNKNOW \<noteq> AZERTY"
  by (simp_all add: QWERTY_def AZERTY_def UNKNOW_def)

lemma tables_differ: "value_table_azerty \<noteq> value_table_qwerty"
  by (simp add: table_defs)

lemma table_lengths: "length value_table_qwerty_shift = 90" "length value_table_qwerty = 90"
  "length value_table_azerty_shift = 90" "length value_table_azerty = 90"
  by (simp_all add: table_defs)

lemma layout_lengths:
  "layout_ok s \<Longrightarrow> length (value_table_shift s) = 90 \<and> length (value_table s) = 90"
  by (auto simp: layout_ok_def get_layout_def table_lengths split: if_splits)

text \<open>The bits below the release bit are the code itself exactly for the codes below 128.\<close>

lemma code_below: "(key :: u32) = key AND 0x7F \<longleftrightarrow> key < 128"
proof -
  have "key AND 0x7F = take_bit 7 key" by (simp add: take_bit_eq_mask mask_eq_exp_minus_1)
  then have "key = key AND 0x7F \<longleftrightarrow> take_bit 7 (unat key) = unat key"
    by (auto simp: word_unat_eq_iff unsigned_take_bit_eq)
  then show ?thesis by (simp add: take_bit_nat_eq_self_iff word_less_nat_alt)
qed

lemma key_layout_layout:
  "key_layout key s = Some (c, s') \<Longrightarrow> value_table_shift s' = value_table_shift s \<and> value_table s' = value_table s"
  by (auto simp: key_layout_def Let_def split: if_splits)

text \<open>\<^verbatim>\<open>set_layout\<close> and \<^verbatim>\<open>get_layout\<close> agree: a name that \<^verbatim>\<open>set_layout\<close> accepts is the name \<^verbatim>\<open>get_layout\<close>
  answers afterwards, a name it refuses leaves the state alone, and setting the layout in use
  again changes nothing.\<close>

theorem set_layout_get_layout:
  "(if fst (set_layout k s) = 0 then get_layout (snd (set_layout k s)) = k else snd (set_layout k s) = s) \<and>
   (if layout_ok s then set_layout (get_layout s) s = (0, s) else get_layout s = UNKNOW)"
  using tables_differ by (auto simp: set_layout_def get_layout_def layout_ok_def)

text \<open>With a layout set, \<^verbatim>\<open>key_layout\<close> has no value exactly for the scan codes 90 to 127: the tables have 90
  entries, and nothing else is tested. Otherwise the layout stays as it was.\<close>

theorem key_layout_reads_past_its_table:
  assumes "layout_ok s"
  shows "(key_layout key s = None \<longleftrightarrow> 90 \<le> key \<and> key < 128) \<and>
    (case key_layout key s of None \<Rightarrow> True | Some (c, s') \<Rightarrow> get_layout s' = get_layout s)"
proof
  have "key < 128 \<Longrightarrow> key AND 0x7F = key" using code_below [of key] by simp
  then show "key_layout key s = None \<longleftrightarrow> 90 \<le> key \<and> key < 128"
    using layout_lengths [OF assms] code_below [of key]
    by (auto simp: key_layout_def Let_def word_le_nat_alt not_less)
  show "case key_layout key s of None \<Rightarrow> True | Some (c, s') \<Rightarrow> get_layout s' = get_layout s"
    using key_layout_layout by (auto simp: get_layout_def split: option.split)
qed

theorem key_layout_reads_past_its_table_witness:
  "key_layout 0x5B kbd_init = None \<and> key_layout 0x1E kbd_init \<noteq> None"
proof -
  have ok: "layout_ok kbd_init" by (simp add: layout_ok_def get_layout_def kbd_init_def)
  show ?thesis
    using key_layout_reads_past_its_table [OF ok, where key = "0x5B"] key_layout_reads_past_its_table [OF ok, where key = "0x1E"] by simp
qed

end
