(* ===== verification/Interrupts.thy ===== *)
theory Interrupts
  imports Scheduler Descriptors Terminal Keyboard
begin

text \<open>
  The interrupt handlers (\<^verbatim>\<open>boot/x86/IDT/idt.c\<close>): processor exceptions, the clock and the keyboard. The
  assembly stubs push the frame and call the handler; when the handler returns they go back to
  the interrupted code, which is the outcome \<open>Iret\<close>. A handler that goes into the scheduler does
  not come back: its outcome is that of the switch. The keyboard works on the terminals, the others on
  the processes, so the handlers have the part of the kernel's state they touch. What the
  two ports of the keyboard controller answer is an argument.
\<close>

subsection \<open>Exceptions\<close>

definition SIGNAL_INFO_DEFAULT :: int where "SIGNAL_INFO_DEFAULT = 0"
definition SIGNAL_INFO_CONTINUE :: int where "SIGNAL_INFO_CONTINUE = 1"

record signal_info =
  number :: u32
  info_name :: string
  info_signal :: int
  info_error :: bool
  catches_page_fault :: bool

definition info :: "u32 \<Rightarrow> string \<Rightarrow> int \<Rightarrow> bool \<Rightarrow> signal_info" where
  "info n nm sg e = \<lparr>number = n, info_name = nm, info_signal = sg, info_error = e, catches_page_fault = False\<rparr>"

definition signal_infos :: "signal_info list" where
  "signal_infos = [
     info 0 ''Divide by zero'' (uint SIGFPE) True,
     info 3 ''Break point'' (uint SIGTRAP) False,
     info 4 ''Overflow'' 0 False,
     info 5 ''Bound Range Exceeded'' 0 False,
     info 6 ''Invalide Opcode'' (uint SIGILL) True,
     info 8 ''Double Fault'' (- 1) True,
     info 9 ''Coprocessor Segment overrun'' 0 False,
     info 10 ''Invalide TSS'' (- 1) True,
     info 11 ''Segement not present'' (- 1) True,
     info 12 ''Stack Segment Fault'' (uint SIGBUS) True,
     info 13 ''General Protection'' (uint SIGSEGV) True,
     (info 14 ''Page Fault'' (uint SIGSEGV) True)\<lparr>catches_page_fault := True\<rparr>,
     info 16 ''x87 Floting point exception'' (uint SIGFPE) True,
     info 17 ''Alignement check'' (uint SIGSEGV) True,
     info 18 ''Machine check'' (- 1) True,
     info 19 ''SIMD Floting point exception'' (uint SIGFPE) True]"

text \<open>Both branches of the source return the default; it reads the current process.\<close>

definition page_fault_handler :: "'a sched_st_scheme \<Rightarrow> (int \<times> 'a sched_st_scheme) option" where
  "page_fault_handler s =
     (let s1 = printk ''Page fault'' s in
      if current s1 = 0 then Some (SIGNAL_INFO_DEFAULT, s1)
      else do { _ \<leftarrow> procs s1 (current s1); Some (SIGNAL_INFO_DEFAULT, s1) })"

datatype irq_out = Iret | Switched sched_out

definition switched :: "interupt option \<Rightarrow> 'a sched_st_scheme \<Rightarrow> (irq_out \<times> 'a sched_st_scheme) option" where
  "switched data s = do { (out, s') \<leftarrow> switch_process data s; Some (Switched out, s') }"

text \<open>Whether there is a current process that is not a zombie.\<close>

definition current_alive :: "'a proc_st_scheme \<Rightarrow> bool option" where
  "current_alive s =
     (if current s = 0 then Some False
      else do { p \<leftarrow> procs s (current s); Some (state p \<noteq> ZOMBIE) })"

text \<open>The label \<^verbatim>\<open>kill_process\<close>. \<^verbatim>\<open>process_die\<close> on the current process goes into the scheduler with no frame.\<close>

definition kill_process :: "interupt \<Rightarrow> 'a sched_st_scheme \<Rightarrow> (irq_out \<times> 'a sched_st_scheme) option" where
  "kill_process data s =
     (let s1 = printk ''Kernel error terminate process'' s in do {
        alive \<leftarrow> current_alive s1;
        (if \<not> alive
         then Some (Switched (Panic ''unexpected irq''), printk ''================================================================================'' (printk ''unexpected irq'' s1))
         else do {
           (c, s2) \<leftarrow> process_die (current s1) s1;
           (case c of Resched \<Rightarrow> switched None s2 | Returned _ \<Rightarrow> switched (Some data) s2) }) })"

definition irq_general :: "interupt \<Rightarrow> 'a sched_st_scheme \<Rightarrow> (irq_out \<times> 'a sched_st_scheme) option" where
  "irq_general data s =
     (case find (\<lambda>i. number i = int_no data) signal_infos of
        None \<Rightarrow> Some (Iret, s)
      | Some i \<Rightarrow> do {
          (r, s1) \<leftarrow> (if catches_page_fault i then page_fault_handler s else Some (SIGNAL_INFO_DEFAULT, s));
          (if r = SIGNAL_INFO_CONTINUE then Some (Iret, s1)
           else do {
             alive \<leftarrow> (if info_signal i \<ge> 0 \<and> i_cs data \<noteq> GDT_SEG_KCODE then current_alive s1 else Some False);
             (if alive
              then do {
                (err, s2) \<leftarrow> add_signal (info_signal i) (current s1) SIG_HARD s1;
                (if err \<noteq> 0 then kill_process data s2 else switched (Some data) s2) }
              else if info_error i then kill_process data s1
              else Some (Iret, s1)) }) })"

subsection \<open>Clock and keyboard\<close>

definition irq_clock ::
  "interupt \<Rightarrow> (u32 \<times> u8) list \<Rightarrow> 'a sched_st_scheme \<Rightarrow> ((irq_out \<times> 'a sched_st_scheme) option \<times> (u32 \<times> u8) list)" where
  "irq_clock data l s = (switched (Some data) s, pic_end_of_interupt (ucast (int_no data)) l)"

text \<open>\<open>in_0x64\<close> and \<open>in_0x60\<close> are what the status and the data port answer. Scan codes come as bytes.\<close>

definition irq_keybord ::
  "u8 \<Rightarrow> u8 \<Rightarrow> interupt \<Rightarrow> 'a tty_st_scheme \<times> kbd_st \<Rightarrow> ('a tty_st_scheme \<times> kbd_st) option" where
  "irq_keybord in_0x64 in_0x60 data sk =
     (case sk of (s, k) \<Rightarrow> do {
        (s1, k1) \<leftarrow> (if in_0x64 AND 1 \<noteq> 0
                    then do { (get_key, k1) \<leftarrow> key_layout (ucast in_0x60) k;
                              s1 \<leftarrow> tty_input_char (current_tty s) get_key s;
                              Some (s1, k1) }
                    else Some (s, k));
        Some (s1\<lparr>vga_ports := pic_end_of_interupt (ucast (int_no data)) (vga_ports s1)\<rparr>, k1) })"

definition usless_function :: "interupt \<Rightarrow> 'a sched_st_scheme \<Rightarrow> (irq_out \<times> 'a sched_st_scheme) option" where
  "usless_function data s = Some (Iret, s)"

end
