(* ===== verification/Process_Inv.thy ===== *)
theory Process_Inv
  imports Fork_Correct Mmap_Correct Interrupts "HOL-Library.Multiset"
begin

text \<open>
  The invariant of the process layer. Every process structure and every node of its lists is a live block of
  the kernel heap of its own, so that what is freed is freed once; the list of processes holds living structures with
  distinct identifiers; the current process is one of them. Each operation is shown to keep it, while it holds some
  blocks (the set \<open>L\<close>) that it has allocated or unlinked and not yet linked or freed.
\<close>

subsection \<open>Ownership of heap blocks\<close>

definition nodes :: "process \<Rightarrow> nat list" where
  "nodes p = map ch_node (children p) @ map sq_node (sigs p) @ map mm_node (mm_heap p) @ map mm_node (mm_stack p)"

definition blocks :: "'a heap_st_scheme \<Rightarrow> nat set" where
  "blocks s = fst ` live s"

definition owned :: "(nat \<Rightarrow> process option) \<Rightarrow> nat set" where
  "owned t = dom t \<union> (\<Union>p \<in> ran t. set (nodes p))"

definition separate :: "(nat \<Rightarrow> process option) \<Rightarrow> nat set \<Rightarrow> bool" where
  "separate t L \<longleftrightarrow> L \<inter> owned t = {} \<and>
     (\<forall>a p. t a = Some p \<longrightarrow> distinct (nodes p) \<and> set (nodes p) \<inter> dom t = {}) \<and>
     (\<forall>a b p q. t a = Some p \<longrightarrow> t b = Some q \<longrightarrow> a \<noteq> b \<longrightarrow> set (nodes p) \<inter> set (nodes q) = {})"

definition hold :: "(nat \<Rightarrow> process option) \<Rightarrow> nat set \<Rightarrow> 'a heap_st_scheme \<Rightarrow> bool" where
  "hold t L s \<longleftrightarrow> heap_inv s \<and> separate t L \<and> L \<union> owned t \<subseteq> blocks s"

lemma nodes_owned: "t a = Some p \<Longrightarrow> set (nodes p) \<subseteq> owned t"
  by (auto simp: owned_def ran_def)

lemma owned_upd: "t a = Some p \<Longrightarrow> owned (t(a \<mapsto> q)) \<subseteq> owned t \<union> set (nodes q)"
  by (auto simp: owned_def ran_def split: if_splits)

lemma separate_mono: "separate t L \<Longrightarrow> L' \<subseteq> L \<Longrightarrow> separate t L'"
  by (auto simp: separate_def)

lemma hold_mono: "hold t L s \<Longrightarrow> L' \<subseteq> L \<Longrightarrow> hold t L' s"
  using separate_mono by (fastforce simp: hold_def)

lemma separateD:
  assumes "separate t L"
  shows "L \<inter> dom t = {}" "t b = Some r \<Longrightarrow> L \<inter> set (nodes r) = {}" "t b = Some r \<Longrightarrow> distinct (nodes r)"
    "t b = Some r \<Longrightarrow> set (nodes r) \<inter> dom t = {}"
    "t b = Some r \<Longrightarrow> t c = Some q \<Longrightarrow> b \<noteq> c \<Longrightarrow> set (nodes r) \<inter> set (nodes q) = {}"
  using assms by (auto simp: separate_def owned_def ran_def)

lemma separateI:
  assumes "L \<inter> dom t = {}" "\<And>b r. t b = Some r \<Longrightarrow> L \<inter> set (nodes r) = {}" "\<And>b r. t b = Some r \<Longrightarrow> distinct (nodes r)"
    "\<And>b r. t b = Some r \<Longrightarrow> set (nodes r) \<inter> dom t = {}"
    "\<And>b c r q. t b = Some r \<Longrightarrow> t c = Some q \<Longrightarrow> b \<noteq> c \<Longrightarrow> set (nodes r) \<inter> set (nodes q) = {}"
  shows "separate t L"
proof -
  have "L \<inter> owned t = {}" using assms(1,2) by (auto simp: owned_def ran_def)
  then show ?thesis using assms(3-5) unfolding separate_def by blast
qed

text \<open>A process takes some of the blocks held into its lists, and gives up some of its own.\<close>

lemma separate_upd:
  assumes s: "separate t L" and a: "t a = Some p" and q: "distinct (nodes q)" "set (nodes q) \<subseteq> set (nodes p) \<union> L"
  shows "separate (t(a \<mapsto> q)) ((L \<union> set (nodes p)) - set (nodes q))"
proof -
  note S = separateD [OF s]
  have d: "dom (t(a \<mapsto> q)) = dom t" using a by auto
  have qx: "set (nodes q) \<inter> set (nodes r) = {}" if "t b = Some r" "b \<noteq> a" for b r
    using q(2) S(5) [OF a that(1)] S(2) [OF that(1)] that(2) by blast
  have px: "((L \<union> set (nodes p)) - set (nodes q)) \<inter> set (nodes r) = {}" if "t b = Some r" "b \<noteq> a" for b r
    using S(5) [OF a that(1)] S(2) [OF that(1)] that(2) by blast
  show ?thesis
  proof (rule separateI)
    show "((L \<union> set (nodes p)) - set (nodes q)) \<inter> dom (t(a \<mapsto> q)) = {}" unfolding d using S(1) S(4) [OF a] by blast
    fix b r assume b: "(t(a \<mapsto> q)) b = Some r"
    show "((L \<union> set (nodes p)) - set (nodes q)) \<inter> set (nodes r) = {}" using b px by (cases "b = a") auto
    show "distinct (nodes r)" using b q(1) S(3) by (cases "b = a") auto
    show "set (nodes r) \<inter> dom (t(a \<mapsto> q)) = {}" unfolding d using b q(2) S(1) S(4) [OF a] S(4) [of b r] by (cases "b = a") auto
    fix c r' assume c: "(t(a \<mapsto> q)) c = Some r'" "b \<noteq> c"
    show "set (nodes r) \<inter> set (nodes r') = {}"
    proof (cases "b = a \<or> c = a")
      case True
      then show ?thesis using b c qx [of c r'] qx [of b r] by (cases "b = a") auto
    next
      case False
      then show ?thesis using b c S(5) [of b r c r'] by simp
    qed
  qed
qed

lemma hold_upd:
  assumes h: "hold t L s" and a: "t a = Some p" and q: "distinct (nodes q)" "set (nodes q) \<subseteq> set (nodes p) \<union> L"
  shows "hold (t(a \<mapsto> q)) ((L \<union> set (nodes p)) - set (nodes q)) s"
proof -
  have "separate t L" using h by (simp add: hold_def)
  from separate_upd [where t = t, OF this a q] show ?thesis
    using h q(2) owned_upd [of t a p q, OF a] nodes_owned [of t a p, OF a] unfolding hold_def by blast
qed

lemma hold_new:
  assumes h: "hold t (insert a L) s" and a: "a \<notin> L" and p: "nodes p = []"
  shows "hold (t(a \<mapsto> p)) L s"
proof -
  have s: "separate t (insert a L)" using h by (simp add: hold_def)
  note S = separateD [OF s]
  have "separate (t(a \<mapsto> p)) L"
  proof (rule separateI)
    show "L \<inter> dom (t(a \<mapsto> p)) = {}" using S(1) a by auto
    fix b r assume b: "(t(a \<mapsto> p)) b = Some r"
    show "L \<inter> set (nodes r) = {}" "distinct (nodes r)" "set (nodes r) \<inter> dom (t(a \<mapsto> p)) = {}"
      using b p S(2-4) [of b r] by (auto split: if_splits)
    fix c q assume "(t(a \<mapsto> p)) c = Some q" "b \<noteq> c"
    then show "set (nodes r) \<inter> set (nodes q) = {}" using b p S(5) [of b r c q] by (auto split: if_splits)
  qed
  moreover have "owned (t(a \<mapsto> p)) \<subseteq> insert a (owned t)" using p by (auto simp: owned_def ran_def split: if_splits)
  ultimately show ?thesis using h unfolding hold_def by blast
qed

lemma hold_end:
  assumes h: "hold t L s" and a: "t a = Some p"
  shows "hold (t(a := None)) (insert a (L \<union> set (nodes p))) s"
proof -
  have s: "separate t L" using h by (simp add: hold_def)
  note S = separateD [OF s]
  have "separate (t(a := None)) (insert a (L \<union> set (nodes p)))"
  proof (rule separateI)
    show "insert a (L \<union> set (nodes p)) \<inter> dom (t(a := None)) = {}" using S(1) S(4) [OF a] by auto
    fix b r assume "(t(a := None)) b = Some r"
    then have b: "t b = Some r" "b \<noteq> a" by (auto split: if_splits)
    have "a \<in> dom t" using a by blast
    then show "insert a (L \<union> set (nodes p)) \<inter> set (nodes r) = {}" using S(2,4) [OF b(1)] S(5) [OF a b(1)] b(2) by blast
    show "distinct (nodes r)" "set (nodes r) \<inter> dom (t(a := None)) = {}" using S(3,4) [OF b(1)] by auto
    fix c q assume "(t(a := None)) c = Some q" "b \<noteq> c"
    then show "set (nodes r) \<inter> set (nodes q) = {}" using b S(5) [of b r c q] by (auto split: if_splits)
  qed
  moreover have "owned (t(a := None)) \<subseteq> owned t" "a \<in> owned t" using a by (auto simp: owned_def ran_def split: if_splits)
  ultimately show ?thesis using h nodes_owned [of t a p, OF a] unfolding hold_def by blast
qed

lemma kmalloc_blocks:
  assumes "heap_inv s" "kmalloc n s = (r, s')" "unat n < 1073741824"
  shows "heap_inv s'" "r = None \<Longrightarrow> blocks s' = blocks s" "r = Some b \<Longrightarrow> b \<notin> blocks s \<and> blocks s' = insert b (blocks s)"
  using kmalloc_result [OF assms(1,3,2)] by (auto simp: malloc_result_def blocks_def)

lemma fst_image_remove:
  assumes "\<And>m'. (b, m') \<in> A \<Longrightarrow> m' = m"
  shows "fst ` (A - {(b, m)}) = fst ` A - {b}"
proof (intro equalityI subsetI)
  fix x assume "x \<in> fst ` (A - {(b, m)})"
  then obtain k where "(x, k) \<in> A - {(b, m)}" by fastforce
  then have "(x, k) \<in> A" "(x, k) \<noteq> (b, m)" by blast+
  then show "x \<in> fst ` A - {b}" using assms by (auto simp: image_iff intro!: bexI [of _ "(x, k)"])
next
  fix x assume "x \<in> fst ` A - {b}"
  then show "x \<in> fst ` (A - {(b, m)})" by (auto simp: image_iff)
qed

lemma kfree_blocks:
  assumes "heap_inv s" "b \<in> blocks s"
  shows "heap_inv (kfree b s)" "blocks (kfree b s) = blocks s - {b}"
proof -
  obtain m where m: "(b, m) \<in> live s" using assms(2) by (auto simp: blocks_def)
  note k = kfree_live [OF assms(1) m]
  show "heap_inv (kfree b s)" using k by simp
  have "m' = m" if "(b, m') \<in> live s" for m'
    using live_apart [OF assms(1) that m] by (auto simp: apart_def)
  then show "blocks (kfree b s) = blocks s - {b}"
    unfolding blocks_def k [THEN conjunct1] by (intro fst_image_remove) blast
qed

subsection \<open>The invariant\<close>

definition pid_of :: "'a proc_st_scheme \<Rightarrow> nat \<Rightarrow> int" where
  "pid_of s a = pid (the (procs s a))"

definition zombie :: "'a proc_st_scheme \<Rightarrow> nat \<Rightarrow> bool" where
  "zombie s a \<longleftrightarrow> (\<exists>p. procs s a = Some p \<and> state p = ZOMBIE)"

text \<open>The set \<open>x\<close> exempts a process that is ending from being a sound current process.\<close>

definition table_ok :: "nat set \<Rightarrow> 'a proc_st_scheme \<Rightarrow> bool" where
  "table_ok x s \<longleftrightarrow>
     distinct (process_list s) \<and> set (process_list s) \<subseteq> dom (procs s) \<and> 1 \<le> last_pid s \<and> last_pid s \<le> 0xfff \<and>
     (\<forall>a \<in> set (process_list s). 1 \<le> pid_of s a \<and> pid_of s a \<le> 0xfff) \<and> inj_on (pid_of s) (set (process_list s)) \<and>
     (\<forall>a p. procs s a = Some p \<longrightarrow> father p \<noteq> a \<and> (state p = ZOMBIE \<longrightarrow> sigs p = [])) \<and>
     (current s \<in> insert 0 x \<or> current s \<in> set (process_list s) \<and> \<not> zombie s (current s))"

definition kinv :: "nat set \<Rightarrow> nat set \<Rightarrow> 'a proc_st_scheme \<Rightarrow> bool" where
  "kinv L x s \<longleftrightarrow> hold (procs s) L s \<and> table_ok x s"

lemma kinv_weaken:
  assumes "kinv L x s" "L' \<subseteq> L" "x \<subseteq> x'"
  shows "kinv L' x' s"
proof -
  have "hold (procs s) L' s" using assms hold_mono by (auto simp: kinv_def)
  moreover have "table_ok x' s" using assms(1,3) by (auto simp: kinv_def table_ok_def)
  ultimately show ?thesis by (simp add: kinv_def)
qed

lemma kinv_drop:
  assumes "kinv L (insert a x) s" "current s \<noteq> a"
  shows "kinv L x s"
  using assms by (simp add: kinv_def table_ok_def)

lemma kinv_heap: "kinv L x s \<Longrightarrow> heap_inv s"
  by (simp add: kinv_def hold_def)

lemma kinv_frame:
  assumes "heap_inv t = heap_inv s" "blocks t = blocks s" "procs t = procs s" "process_list t = process_list s"
    "current t = current s" "last_pid t = last_pid s"
  shows "kinv L x t = kinv L x s"
  using assms by (simp add: kinv_def table_ok_def hold_def pid_of_def [abs_def] zombie_def)

lemma kinv_vm:
  assumes "vm_frame s t"
  shows "kinv L x t = kinv L x s"
proof -
  note h = heap_cong [OF heap_vm_frame [OF assms]]
  show ?thesis
    using h by (intro kinv_frame) (simp_all add: blocks_def heap_frame_proc [OF vm_frame_heap_frame [OF assms]])
qed

lemma heap_more [simp]:
  "heap_inv (s\<lparr>process_hlt := a\<rparr>) = heap_inv s" "heap_inv (s\<lparr>klog := k\<rparr>) = heap_inv s" "heap_inv (s\<lparr>procs := u\<rparr>) = heap_inv s"
  "heap_inv (s\<lparr>process_list := l\<rparr>) = heap_inv s" "heap_inv (s\<lparr>current := c\<rparr>) = heap_inv s" "heap_inv (s\<lparr>last_pid := i\<rparr>) = heap_inv s"
  by (rule heap_cong(1); simp)+

lemma blocks_more [simp]:
  "blocks (s\<lparr>process_hlt := a\<rparr>) = blocks s" "blocks (s\<lparr>klog := k\<rparr>) = blocks s" "blocks (s\<lparr>procs := u\<rparr>) = blocks s"
  "blocks (s\<lparr>process_list := l\<rparr>) = blocks s" "blocks (s\<lparr>current := c\<rparr>) = blocks s" "blocks (s\<lparr>last_pid := i\<rparr>) = blocks s"
  unfolding blocks_def by (rule arg_cong [where f = "(`) fst"], rule heap_cong(2); simp)+

lemma kinv_hlt [simp]: "kinv L x (s\<lparr>process_hlt := a\<rparr>) = kinv L x s" "kinv L x (s\<lparr>klog := k\<rparr>) = kinv L x s"
  by (rule kinv_frame; simp)+

lemma kinv_printk [simp]: "kinv L x (printk m s) = kinv L x s"
  by (simp add: printk_def)

lemma table_ok_kmalloc:
  assumes "kmalloc n s = (r, s')"
  shows "table_ok x s' = table_ok x s"
  using proc_kmalloc [OF assms] by (simp add: table_ok_def pid_of_def [abs_def] zombie_def)

lemma kinv_kmalloc_None:
  assumes "kinv L x s" "kmalloc n s = (None, s')" "unat n < 1073741824"
  shows "kinv L x s'"
  using assms kmalloc_blocks [OF kinv_heap [OF assms(1)] assms(2,3)] table_ok_kmalloc [OF assms(2)] proc_kmalloc(1) [OF assms(2)]
  by (simp add: kinv_def hold_def)

lemma kinv_kmalloc:
  assumes "kinv L x s" "kmalloc n s = (Some b, s')" "unat n < 1073741824"
  shows "kinv (insert b L) x s'" "b \<notin> L" "procs s b = None" "procs s' = procs s"
proof -
  note k = kmalloc_blocks(3) [OF kinv_heap [OF assms(1)] assms(2,3) refl]
  have h: "separate (procs s) L" "L \<union> owned (procs s) \<subseteq> blocks s" using assms(1) by (auto simp: kinv_def hold_def)
  have b: "b \<notin> owned (procs s)" "b \<notin> L" using k h(2) by auto
  then have "separate (procs s) (insert b L)" using h(1) by (simp add: separate_def)
  moreover have "insert b L \<union> owned (procs s) \<subseteq> blocks s'" using k h(2) by blast
  moreover note kmalloc_blocks(1) [OF kinv_heap [OF assms(1)] assms(2,3)]
  ultimately show "kinv (insert b L) x s'"
    using assms(1) unfolding kinv_def hold_def table_ok_kmalloc [OF assms(2)] proc_kmalloc(1) [OF assms(2)] by blast
  show "b \<notin> L" "procs s b = None" using b by (auto simp: owned_def)
  show "procs s' = procs s" by (rule proc_kmalloc(1) [OF assms(2)])
qed

lemma kinv_kfree:
  assumes "kinv L x s" "b \<in> L"
  shows "kinv (L - {b}) x (kfree b s)"
proof -
  have h: "separate (procs s) L" "L \<union> owned (procs s) \<subseteq> blocks s" using assms(1) by (auto simp: kinv_def hold_def)
  have b: "b \<in> blocks s" "b \<notin> owned (procs s)" using assms(2) h by (auto simp: separate_def)
  have "table_ok x (kfree b s)" using assms(1) by (simp add: kinv_def table_ok_def pid_of_def [abs_def] zombie_def)
  moreover have "separate (procs s) (L - {b})" using separate_mono [OF h(1)] by blast
  ultimately show ?thesis
    using kfree_blocks [OF kinv_heap [OF assms(1)] b(1)] h(2) b(2) by (auto simp: kinv_def hold_def)
qed

lemma hold_procs [simp]: "hold t L (s\<lparr>procs := u\<rparr>) = hold t L s" "hold t L (s\<lparr>process_list := l\<rparr>) = hold t L s"
  "hold t L (s\<lparr>current := c\<rparr>) = hold t L s" "hold t L (s\<lparr>last_pid := i\<rparr>) = hold t L s"
  by (simp_all add: hold_def)

text \<open>An update of one process that changes no identifier and makes no zombie, and that links and unlinks held blocks.\<close>

lemma table_ok_upd:
  assumes s: "table_ok x s" and a: "procs s a = Some p" and q: "a \<in> set (process_list s) \<Longrightarrow> pid q = pid p"
    "state q = ZOMBIE \<Longrightarrow> sigs q = [] \<and> (state p = ZOMBIE \<or> a \<in> x)" "father q \<noteq> a"
  shows "table_ok x (s\<lparr>procs := (procs s)(a \<mapsto> q)\<rparr>)"
proof -
  let ?t = "s\<lparr>procs := (procs s)(a \<mapsto> q)\<rparr>"
  have pid: "pid_of ?t b = pid_of s b" if "b \<in> set (process_list s)" for b using that a q(1) by (cases "b = a") (simp_all add: pid_of_def)
  have z: "zombie ?t b \<Longrightarrow> zombie s b \<or> b \<in> x" for b using a q(2) by (auto simp: zombie_def split: if_splits)
  have "inj_on (pid_of ?t) (set (process_list s)) = inj_on (pid_of s) (set (process_list s))"
    by (rule inj_on_cong) (rule pid)
  then show ?thesis using s a q(2,3) pid z by (auto simp: table_ok_def)
qed

lemma kinv_upd:
  assumes s: "kinv L x s" and a: "procs s a = Some p" and q: "a \<in> set (process_list s) \<Longrightarrow> pid q = pid p"
    "state q = ZOMBIE \<Longrightarrow> sigs q = [] \<and> (state p = ZOMBIE \<or> a \<in> x)" "father q \<noteq> a"
    and n: "distinct (nodes q)" "set (nodes q) \<subseteq> set (nodes p) \<union> L"
  shows "kinv ((L \<union> set (nodes p)) - set (nodes q)) x (s\<lparr>procs := (procs s)(a \<mapsto> q)\<rparr>)"
  using hold_upd [where t = "procs s" and s = s, OF _ a n] table_ok_upd [OF _ a q] s by (simp add: kinv_def)

lemma kinv_nodes:
  assumes "kinv L x s" "procs s a = Some p"
  shows "distinct (nodes p)" "L \<inter> set (nodes p) = {}" "state p = ZOMBIE \<Longrightarrow> sigs p = []" "father p \<noteq> a"
  using assms by (auto simp: kinv_def hold_def separate_def owned_def ran_def table_ok_def)

lemma kinv_keep:
  assumes s: "kinv L x s" and a: "procs s a = Some p" and q: "pid q = pid p" "nodes q = nodes p" "sigs q = sigs p" "father q = father p"
    "state q = ZOMBIE \<Longrightarrow> state p = ZOMBIE"
  shows "kinv L x (s\<lparr>procs := (procs s)(a \<mapsto> q)\<rparr>)"
proof -
  note n = kinv_nodes [OF s a]
  have "kinv ((L \<union> set (nodes p)) - set (nodes q)) x (s\<lparr>procs := (procs s)(a \<mapsto> q)\<rparr>)"
    by (rule kinv_upd [OF s a]) (use q n in auto)
  then show ?thesis by (rule kinv_weaken) (use n(2) q(2) in auto)
qed

lemma kinv_update:
  assumes "kinv L x s" "update_proc a f s = Some s'" "\<And>p. pid (f p) = pid p" "\<And>p. nodes (f p) = nodes p" "\<And>p. sigs (f p) = sigs p"
    "\<And>p. father (f p) = father p" "\<And>p. state (f p) = ZOMBIE \<Longrightarrow> state p = ZOMBIE"
  shows "kinv L x s'"
  using assms(2) kinv_keep [OF assms(1)] assms(3-7) by (auto simp: update_proc_eq)

text \<open>One block is linked into or out of the lists of a process.\<close>

lemma kinv_link:
  assumes s: "kinv (insert n L) x s" and n: "n \<notin> L" and a: "procs s a = Some p" and q: "pid q = pid p" "state q = state p" "father q = father p"
    "state p = ZOMBIE \<longrightarrow> sigs q = sigs p" "mset (nodes q) = add_mset n (mset (nodes p))"
  shows "kinv L x (s\<lparr>procs := (procs s)(a \<mapsto> q)\<rparr>)"
proof -
  note p = kinv_nodes [OF s a]
  have set: "set (nodes q) = insert n (set (nodes p))" using arg_cong [OF q(5), of set_mset] by simp
  have "distinct (n # nodes p)" using p(1,2) by simp
  then have d: "distinct (nodes q)" using mset_eq_imp_distinct_iff [of "n # nodes p" "nodes q"] q(5) by simp
  have "kinv ((insert n L \<union> set (nodes p)) - set (nodes q)) x (s\<lparr>procs := (procs s)(a \<mapsto> q)\<rparr>)"
    by (rule kinv_upd [OF s a]) (use q p(3,4) d set in auto)
  then show ?thesis by (rule kinv_weaken) (use n set p(2) in auto)
qed

lemma kinv_unlink:
  assumes s: "kinv L x s" and a: "procs s a = Some p" and q: "pid q = pid p" "state q = state p" "father q = father p"
    "state p = ZOMBIE \<Longrightarrow> sigs q = []" "mset (nodes p) = mset N + mset (nodes q)"
  shows "kinv (L \<union> set N) x (s\<lparr>procs := (procs s)(a \<mapsto> q)\<rparr>)" "distinct N" "L \<inter> set N = {}"
proof -
  note p = kinv_nodes [OF s a]
  have set: "set (nodes p) = set N \<union> set (nodes q)" using arg_cong [OF q(5), of set_mset] by simp
  have d: "distinct (N @ nodes q)" using mset_eq_imp_distinct_iff [of "N @ nodes q" "nodes p"] q(5) p(1) by simp
  have "kinv ((L \<union> set (nodes p)) - set (nodes q)) x (s\<lparr>procs := (procs s)(a \<mapsto> q)\<rparr>)"
    by (rule kinv_upd [OF s a]) (use q p(3,4) d set in auto)
  then show "kinv (L \<union> set N) x (s\<lparr>procs := (procs s)(a \<mapsto> q)\<rparr>)" by (rule kinv_weaken) (use d set p(2) in auto)
  show "distinct N" "L \<inter> set N = {}" using d set p(2) by auto
qed

subsection \<open>Signals\<close>

lemma nodes_enqueue [simp]: "mset (nodes (enqueue_signal n sig type p)) = add_mset n (mset (nodes p))"
  by (simp add: nodes_def enqueue_signal_def Let_def)

lemma enqueue_fields [simp]: "pid (enqueue_signal n sig type p) = pid p" "state (enqueue_signal n sig type p) = state p"
  "father (enqueue_signal n sig type p) = father p"
  by (simp_all add: enqueue_signal_def Let_def)

lemma size_nodes [simp]:
  "unat sizeof_sig_queue < 1073741824" "unat sizeof_map_memory < 1073741824" "unat sizeof_children < 1073741824"
  "unat sizeof_process < 1073741824"
  by (simp_all add: sizeof_sig_queue_def sizeof_map_memory_def sizeof_children_def sizeof_process_def)

lemma kinv_add_signal:
  assumes "kinv L x s" "add_signal sig a type s = Some (e, s')"
  shows "kinv L x s'"
  using assms(2)
proof (cases rule: add_signal_cases)
  case (Queued p n t)
  note k = kinv_kmalloc [OF assms(1) Queued(4)]
  show ?thesis unfolding Queued(5)
    by (rule kinv_link [of n]) (use k Queued in auto)
next
  case (Full p)
  show ?thesis by (rule kinv_kmalloc_None [OF assms(1) Full(4)]) simp
qed (use assms(1) in auto)

lemma kinv_kill_loop: "kinv L x s \<Longrightarrow> kill_loop u n sig as e s = Some (e', s') \<Longrightarrow> kinv L x s'"
proof (induction as arbitrary: e s)
  case (Cons a as)
  show ?case
    using Cons.prems(2) Cons.IH [OF Cons.prems(1)] Cons.IH [OF kinv_add_signal [OF Cons.prems(1)]]
    by (auto simp: bind_eq_Some_conv split: if_splits)
qed simp

lemma kinv_kill: "kinv L x s \<Longrightarrow> kill a n sig s = Some (e, s') \<Longrightarrow> kinv L x s'"
  using kinv_kill_loop by (auto simp: kill_def bind_eq_Some_conv split: if_splits)

lemma kinv_signal: "kinv L x s \<Longrightarrow> signal a n h s = Some (r, s') \<Longrightarrow> kinv L x s'"
  by (auto simp: signal_def bind_eq_Some_conv Let_def nodes_def split: if_splits intro!: kinv_keep)

subsection \<open>The end of a process\<close>

lemma hold_kfree:
  assumes "hold t L s" "b \<in> L"
  shows "hold t (L - {b}) (kfree b s)"
proof -
  have h: "separate t L" "L \<union> owned t \<subseteq> blocks s" "heap_inv s" using assms(1) by (auto simp: hold_def)
  have b: "b \<in> blocks s" "b \<notin> owned t" using assms(2) h by (auto simp: separate_def)
  moreover have "separate t (L - {b})" using separate_mono [OF h(1)] by blast
  ultimately show ?thesis using kfree_blocks [OF h(3) b(1)] h(2) by (auto simp: hold_def)
qed

lemma hold_vm:
  assumes "vm_frame s s'"
  shows "hold t L s' = hold t L s"
  using heap_cong [OF heap_vm_frame [OF assms]] by (simp add: hold_def blocks_def)

lemma vm_frame_unmap_snd: "vm_frame s (snd (page_unmap_at v f n s))"
  by (rule vm_frame_page_unmap_at) (rule prod.collapse [symmetric])

lemma hold_free_maps:
  "hold t L s \<Longrightarrow> set (map mm_node pms) \<subseteq> L \<Longrightarrow> distinct (map mm_node pms) \<Longrightarrow>
   hold t (L - set (map mm_node pms)) (free_maps here pms s)"
proof (induction here pms s arbitrary: L rule: free_maps.induct)
  case (2 here pm pms s)
  let ?s1 = "if here then snd (page_unmap_at (v_addr pm) (flags pm) (unat (mm_size pm)) s) else s"
  let ?s2 = "free_phys_block (p_addr pm) (unat (mm_size pm)) ?s1"
  have f: "vm_frame s ?s2" using vm_frame_trans [OF vm_frame_unmap_snd vm_frame_free_phys_block] by auto
  have "hold t (L - {mm_node pm}) (kfree (mm_node pm) ?s2)"
    using hold_kfree [of t L ?s2] hold_vm [OF f] "2.prems" by simp
  moreover have "set (map mm_node pms) \<subseteq> L - {mm_node pm}" "distinct (map mm_node pms)" using "2.prems"(2,3) by (auto simp del: set_map simp: in_set_conv_decomp [of _ "map mm_node pms"])
  ultimately have "hold t (L - {mm_node pm} - set (map mm_node pms)) (free_maps here pms (kfree (mm_node pm) ?s2))"
    by (rule "2.IH" [OF refl refl])
  then show ?case by (simp add: Let_def set_diff_eq)
qed simp

lemma last_pid_free_maps [simp]: "last_pid (free_maps b l s) = last_pid s"
  by (induction b l s rule: free_maps.induct) (auto simp: Let_def)

lemma table_ok_cong:
  assumes "procs t = procs s" "process_list t = process_list s" "current t = current s" "last_pid t = last_pid s"
  shows "table_ok x t = table_ok x s"
  using assms by (simp add: table_ok_def pid_of_def [abs_def] zombie_def)

lemma kinv_free_all:
  assumes s: "kinv L x s" and f: "process_free_all_memory a s = Some s'"
  shows "kinv L x s'"
proof -
  obtain p where p: "procs s a = Some p" using f by (auto simp: process_free_all_memory_def bind_eq_Some_conv)
  let ?q = "p\<lparr>mm_heap := [], mm_stack := []\<rparr>"
  let ?N = "map mm_node (mm_heap p) @ map mm_node (mm_stack p)"
  have n: "mset (nodes p) = mset ?N + mset (nodes ?q)" by (simp add: nodes_def)
  note u = kinv_unlink [OF s p _ _ _ _ n]
  have k: "kinv (L \<union> set ?N) x (s\<lparr>procs := (procs s)(a \<mapsto> ?q)\<rparr>)" "distinct ?N" "L \<inter> set ?N = {}"
    using u kinv_nodes(3) [OF s p] by auto
  let ?t = "(procs s)(a \<mapsto> ?q)"
  let ?s1 = "free_maps (a = current s) (mm_stack p) (free_maps (a = current s) (mm_heap p) s)"
  let ?s2 = "if a = current s then snd (page_unmap_at (v_addr (mm_code p)) (flags (mm_code p)) (unat (mm_size (mm_code p))) ?s1) else ?s1"
  let ?s3 = "free_phys_block (p_addr (mm_code p)) (unat (mm_size (mm_code p))) ?s2"
  have "hold ?t (L \<union> set ?N) s" using k(1) by (simp add: kinv_def)
  then have "hold ?t (L \<union> set ?N - set (map mm_node (mm_heap p))) (free_maps (a = current s) (mm_heap p) s)"
    by (rule hold_free_maps) (use k(2) in auto)
  then have "hold ?t (L \<union> set ?N - set (map mm_node (mm_heap p)) - set (map mm_node (mm_stack p))) ?s1"
    by (rule hold_free_maps) (use k(2) in auto)
  then have h: "hold ?t L ?s1" by (rule hold_mono) (use k(3) in auto)
  have f3: "vm_frame ?s1 ?s3" using vm_frame_trans [OF vm_frame_unmap_snd vm_frame_free_phys_block] by auto
  have h3: "hold ?t L ?s3" using h unfolding hold_vm [OF f3] .
  have e: "procs ?s3 = procs s" "process_list ?s3 = process_list s" "current ?s3 = current s" "last_pid ?s3 = last_pid s"
    by simp_all
  have s': "s' = ?s3\<lparr>procs := ?t\<rparr>" using f p e(1) by (simp add: process_free_all_memory_def update_proc_def Let_def)
  have "table_ok x (s\<lparr>procs := ?t\<rparr>)" using k(1) by (simp add: kinv_def)
  moreover have "table_ok x s' = table_ok x (s\<lparr>procs := ?t\<rparr>)" unfolding s' by (rule table_ok_cong) (use e in simp_all)
  ultimately show ?thesis using h3 s' by (simp add: kinv_def)
qed

lemma unlink_child_Some:
  "unlink_child a ks = (Some n, ks') \<Longrightarrow> mset (map ch_node ks) = add_mset n (mset (map ch_node ks'))"
  by (induction ks arbitrary: ks') (auto split: if_splits prod.splits)

lemma kinv_leave_father:
  assumes s: "kinv L x s" and l: "leave_father a f s = Some s'"
  shows "kinv L x s'"
proof (cases "f = 0")
  case False
  then obtain pf where pf: "procs s f = Some pf" using l by (auto simp: leave_father_def bind_eq_Some_conv)
  obtain r ks where u: "unlink_child a (children pf) = (r, ks)" by fastforce
  show ?thesis
  proof (cases r)
    case None
    then show ?thesis using l pf u s False by (simp add: leave_father_def)
  next
    case (Some n)
    let ?q = "pf\<lparr>children := ks\<rparr>"
    have m: "mset (nodes pf) = mset [n] + mset (nodes ?q)" using unlink_child_Some u Some by (simp add: nodes_def)
    note k = kinv_unlink [OF s pf _ _ _ _ m]
    have "kinv (L \<union> {n}) x (s\<lparr>procs := (procs s)(f \<mapsto> ?q)\<rparr>)" "n \<notin> L" using k kinv_nodes(3) [OF s pf] by auto
    then have "kinv ((L \<union> {n}) - {n}) x (kfree n (s\<lparr>procs := (procs s)(f \<mapsto> ?q)\<rparr>))" by (intro kinv_kfree) auto
    then show ?thesis using l pf u Some False \<open>n \<notin> L\<close> by (simp add: leave_father_def)
  qed
qed (use s l in \<open>simp add: leave_father_def\<close>)

text \<open>The blocks in the list that is dealt with are held: they go to the first process or are freed.\<close>

lemma kinv_reparent:
  "kinv (L \<union> set (map ch_node ks)) x s \<Longrightarrow> distinct (map ch_node ks) \<Longrightarrow> L \<inter> set (map ch_node ks) = {} \<Longrightarrow>
   reparent ks s = Some s' \<Longrightarrow> kinv L x s'"
proof (induction ks arbitrary: s)
  case (Cons c ks)
  let ?M = "L \<union> set (map ch_node ks)"
  have n: "ch_node c \<notin> ?M" "L \<union> set (map ch_node (c # ks)) = insert (ch_node c) ?M" using Cons.prems(2,3) by auto
  note k = Cons.prems(1) [unfolded n(2)]
  obtain i s1 where i: "process_get_with_pid 1 s = Some i"
    and s1: "(if i \<noteq> 0 then update_proc i (\<lambda>p. p\<lparr>children := c # children p\<rparr>) s else Some (kfree (ch_node c) s)) = Some s1"
      "reparent ks s1 = Some s'"
    using Cons.prems(4) by (auto simp: bind_eq_Some_conv)
  have "kinv ?M x s1"
  proof (cases "i = 0")
    case True
    then have e: "s1 = kfree (ch_node c) s" using s1(1) by simp
    have "kinv (insert (ch_node c) ?M - {ch_node c}) x s1" unfolding e by (rule kinv_kfree [OF k]) simp
    then show ?thesis using n(1) by simp
  next
    case False
    then obtain p where p: "procs s i = Some p" "s1 = s\<lparr>procs := (procs s)(i \<mapsto> p\<lparr>children := c # children p\<rparr>)\<rparr>"
      using s1(1) by (auto simp: update_proc_eq)
    show ?thesis unfolding p(2) by (rule kinv_link [OF k n(1) p(1)]) (simp_all add: nodes_def)
  qed
  then show ?case by (rule Cons.IH) (use Cons.prems(2,3) s1(2) in auto)
qed simp

lemma table_ok_unlist:
  assumes "table_ok x s"
  shows "table_ok (insert a x) (s\<lparr>process_list := removeAll a (process_list s)\<rparr>)"
  using assms unfolding table_ok_def by (auto simp: pid_of_def zombie_def distinct_removeAll inj_on_def)

lemma table_ok_gone:
  assumes "table_ok x s" "a \<notin> set (process_list s)"
  shows "table_ok x (s\<lparr>procs := (procs s)(a := None)\<rparr>)"
proof -
  let ?t = "s\<lparr>procs := (procs s)(a := None)\<rparr>"
  have pid: "pid_of ?t b = pid_of s b" if "b \<in> set (process_list s)" for b using that assms(2) by (auto simp: pid_of_def)
  have "inj_on (pid_of ?t) (set (process_list s)) = inj_on (pid_of s) (set (process_list s))"
    by (rule inj_on_cong) (rule pid)
  then show ?thesis using assms pid by (auto simp: table_ok_def zombie_def)
qed

lemma kinv_free_process:
  assumes s: "kinv L x s" and f: "free_process a s = Some s'"
  shows "kinv L (insert a x) s'"
proof -
  let ?s0 = "s\<lparr>process_list := removeAll a (process_list s)\<rparr>" and ?x = "insert a x"
  obtain p s1 p1 s2 where p: "procs s a = Some p" and s1: "leave_father a (father p) ?s0 = Some s1" and p1: "procs s1 a = Some p1"
    and s2: "reparent (children p1) (s1\<lparr>procs := (procs s1)(a \<mapsto> p1\<lparr>children := []\<rparr>)\<rparr>) = Some s2"
    and s': "s' = (kfree a s2)\<lparr>procs := (procs (kfree a s2))(a := None)\<rparr>"
    using f by (auto simp: free_process_def bind_eq_Some_conv Let_def)
  have "kinv L ?x ?s0" using s table_ok_unlist by (auto simp: kinv_def)
  from kinv_leave_father [OF this s1] have k1: "kinv L ?x s1" .
  let ?q = "p1\<lparr>children := []\<rparr>" and ?C = "map ch_node (children p1)"
  have m: "mset (nodes p1) = mset ?C + mset (nodes ?q)" by (simp add: nodes_def)
  note u = kinv_unlink [OF k1 p1 _ _ _ _ m]
  have "kinv (L \<union> set ?C) ?x (s1\<lparr>procs := (procs s1)(a \<mapsto> ?q)\<rparr>)" "distinct ?C" "L \<inter> set ?C = {}"
    using u kinv_nodes(3) [OF k1 p1] by auto
  from kinv_reparent [OF this s2] have k2: "kinv L ?x s2" .
  have pl: "a \<notin> set (process_list s2)" using reparent_effect [OF s2] leave_father_effect [OF s1] by simp
  obtain p2 where p2: "procs s2 a = Some p2"
    using reparent_effect [OF s2] only_children_dom [of "procs (s1\<lparr>procs := (procs s1)(a \<mapsto> ?q)\<rparr>)" "procs s2"] by auto
  have "hold ((procs s2)(a := None)) (insert a (L \<union> set (nodes p2))) s2"
    using k2 hold_end [where t = "procs s2", OF _ p2] by (auto simp: kinv_def)
  then have "hold ((procs s2)(a := None)) (insert a L) s2" by (rule hold_mono) auto
  from hold_kfree [OF this, of a] have "hold ((procs s2)(a := None)) (insert a L - {a}) (kfree a s2)" by simp
  moreover have "a \<notin> L" using k2 p2 by (auto simp: kinv_def hold_def separate_def owned_def)
  ultimately have h: "hold ((procs s2)(a := None)) L s'" unfolding s' by simp
  have "table_ok ?x (s2\<lparr>procs := (procs s2)(a := None)\<rparr>)" using k2 pl table_ok_gone by (auto simp: kinv_def)
  moreover have "table_ok ?x s' = table_ok ?x (s2\<lparr>procs := (procs s2)(a := None)\<rparr>)"
    unfolding s' by (rule table_ok_cong) simp_all
  ultimately show ?thesis using h s' by (simp add: kinv_def)
qed

text \<open>A process that is exempt may become a zombie once its signals are gone.\<close>

lemma kinv_zombie:
  assumes s: "kinv L x s" "a \<in> x" and a: "procs s a = Some p" "sigs p = []"
  shows "kinv L x (s\<lparr>procs := (procs s)(a \<mapsto> p\<lparr>state := ZOMBIE\<rparr>)\<rparr>)"
proof -
  have n: "nodes (p\<lparr>state := ZOMBIE\<rparr>) = nodes p" by (simp add: nodes_def)
  note k = kinv_nodes [OF s(1) a(1)]
  have "kinv ((L \<union> set (nodes p)) - set (nodes (p\<lparr>state := ZOMBIE\<rparr>))) x (s\<lparr>procs := (procs s)(a \<mapsto> p\<lparr>state := ZOMBIE\<rparr>)\<rparr>)"
    by (rule kinv_upd [OF s(1) a(1)]) (use s(2) a(2) k(1,4) n in auto)
  then show ?thesis by (rule kinv_weaken) (use n k(2) in auto)
qed

lemma kinv_uncurrent: "kinv L {a} s \<Longrightarrow> kinv L {} (s\<lparr>current := 0\<rparr>)"
  by (auto simp: kinv_def table_ok_def pid_of_def [abs_def] zombie_def)

lemma kinv_clear_signals:
  assumes "kinv L x s" "update_proc a (\<lambda>p. p\<lparr>sigs := []\<rparr>) s = Some s'"
  shows "kinv L x s'" "\<exists>p. procs s' a = Some p \<and> sigs p = []"
proof -
  obtain p where p: "procs s a = Some p" "s' = s\<lparr>procs := (procs s)(a \<mapsto> p\<lparr>sigs := []\<rparr>)\<rparr>" using assms(2) by (auto simp: update_proc_eq)
  have m: "mset (nodes p) = mset (map sq_node (sigs p)) + mset (nodes (p\<lparr>sigs := []\<rparr>))" by (simp add: nodes_def)
  have "kinv (L \<union> set (map sq_node (sigs p))) x s'" unfolding p(2) by (rule kinv_unlink(1) [OF assms(1) p(1) _ _ _ _ m]) simp_all
  then show "kinv L x s'" by (rule kinv_weaken) auto
  show "\<exists>p. procs s' a = Some p \<and> sigs p = []" using p by auto
qed

lemma current_free_process: "free_process a s = Some s' \<Longrightarrow> current s' = current s"
  by (rule free_process_effect(4))

lemma kinv_die:
  fixes s :: "'a proc_st_scheme"
  assumes s: "kinv L {} s" and d: "process_die_safe a s = Some (c, s')"
  shows "kinv L {} s'"
proof -
  define T where "T s2 p =
    (if father p \<noteq> 0
     then do {
       (_, s3) \<leftarrow> add_signal (uint SIGCHLD) (father p) SIG_SOFT s2;
       pf \<leftarrow> procs s3 (father p);
       s4 \<leftarrow> update_proc a (\<lambda>p. p\<lparr>state := ZOMBIE\<rparr>) s3;
       (if sig_handler pf (unat SIGCHLD) \<noteq> Null then free_process a s4 else Some s4) }
     else do { s4 \<leftarrow> update_proc a (\<lambda>p. p\<lparr>state := ZOMBIE\<rparr>) s2; free_process a s4 })" for s2 :: "'a proc_st_scheme" and p :: process
  have "process_die_safe a s = do {
      s1 \<leftarrow> process_free_all_memory a s;
      s2 \<leftarrow> update_proc a (\<lambda>p. p\<lparr>sigs := []\<rparr>) s1;
      p \<leftarrow> procs s2 a;
      s4 \<leftarrow> T s2 p;
      (if a = current s4 then Some (Resched, s4\<lparr>current := 0\<rparr>) else Some (Returned 0, s4)) }"
    unfolding process_die_safe_def T_def by (rule refl)
  with d obtain s1 s2 p s4 where s1: "process_free_all_memory a s = Some s1" and s2: "update_proc a (\<lambda>p. p\<lparr>sigs := []\<rparr>) s1 = Some s2"
    and p: "procs s2 a = Some p" and s4: "T s2 p = Some s4" and s': "s' = (if a = current s4 then s4\<lparr>current := 0\<rparr> else s4)"
    by (auto simp: bind_eq_Some_conv split: if_splits)
  note s4 = s4 [unfolded T_def]
  note k1 = kinv_free_all [OF s s1]
  have k2: "kinv L {a} s2" using kinv_clear_signals(1) [OF k1 s2] by (rule kinv_weaken) simp_all
  have p2: "sigs p = []" "father p \<noteq> a" using kinv_clear_signals(2) [OF k1 s2] p kinv_nodes(4) [OF k2 p] by auto
  have z: "kinv L {a} u" if "kinv L {a} t" "update_proc a (\<lambda>p. p\<lparr>state := ZOMBIE\<rparr>) t = Some u" "procs t a = Some p" for t u
    using kinv_zombie [OF that(1) _ that(3) p2(1)] that(2,3) by (auto simp: update_proc_eq)
  have f: "kinv L {a} u" if "kinv L {a} t" "free_process a t = Some u" for t u
    using kinv_free_process [OF that] by simp
  have "kinv L {a} s4"
  proof (cases "father p = 0")
    case True
    then show ?thesis using s4 z [OF k2 _ p] f by (auto simp: bind_eq_Some_conv)
  next
    case False
    then obtain e s3 s3' where s3: "add_signal (uint SIGCHLD) (father p) SIG_SOFT s2 = Some (e, s3)"
      "update_proc a (\<lambda>p. p\<lparr>state := ZOMBIE\<rparr>) s3 = Some s3'"
      "free_process a s3' = Some s4 \<or> s4 = s3'"
      using s4 by (auto simp: bind_eq_Some_conv split: if_splits)
    have "procs s3 a = Some p" using add_signal_effect(4) [OF s3(1)] p p2(2) by auto
    from z [OF kinv_add_signal [OF k2 s3(1)] s3(2) this] have "kinv L {a} s3'" .
    then show ?thesis using s3(3) f by blast
  qed
  then show ?thesis using s' kinv_uncurrent kinv_drop [of L a "{}" s4] by auto
qed

lemma kinv_exit:
  assumes "kinv L {} s" "exit a st s = Some (c, s')"
  shows "kinv L {} s'"
proof -
  obtain s1 where s1: "update_proc a (\<lambda>p. p\<lparr>end_value := WAIT_EXITCODE (uint st) 0\<rparr>) s = Some s1" "process_die_safe a s1 = Some (c, s')"
    using assms(2) by (auto simp: exit_def process_die_def bind_eq_Some_conv)
  have "kinv L {} s1" by (rule kinv_update [OF assms(1) s1(1)]) (simp_all add: nodes_def)
  from kinv_die [OF this s1(2)] show ?thesis .
qed

subsection \<open>Waiting\<close>

text \<open>Only zombies are reaped, and the current process is none.\<close>

lemma kinv_end_of_child:
  assumes s: "kinv L {} s" and z: "zombie s c" and e: "end_of_child c f s = Some s'"
  shows "kinv L {} s'"
proof -
  obtain pc s1 s2 where pc: "procs s c = Some pc" and s1: "update_proc f (\<lambda>p. p\<lparr>waiting_return := end_value pc, waiting_pid := pid pc\<rparr>) s = Some s1"
    and s2: "free_process c s1 = Some s2" and s': "update_proc f (\<lambda>p. p\<lparr>state := RUN\<rparr>) s2 = Some s'"
    using e by (auto simp: end_of_child_def bind_eq_Some_conv)
  have k1: "kinv L {} s1" by (rule kinv_update [OF s s1]) (simp_all add: nodes_def)
  have "c \<noteq> 0 \<Longrightarrow> current s \<noteq> c" using s z by (auto simp: kinv_def table_ok_def)
  then have cur: "c \<noteq> 0 \<Longrightarrow> current s2 \<noteq> c" using current_free_process [OF s2] s1 by (auto elim: update_procE)
  have "kinv L {c} s2" using kinv_free_process [OF k1 s2] by simp
  then have "kinv L {} s2"
  proof (cases "c = 0")
    case True
    with \<open>kinv L {c} s2\<close> show ?thesis by (simp add: kinv_def table_ok_def)
  next
    case False
    with \<open>kinv L {c} s2\<close> cur kinv_drop show ?thesis by blast
  qed
  then show ?thesis by (rule kinv_update [OF _ s']) (simp_all add: nodes_def)
qed

lemma kinv_child_ended_loop:
  "kinv L {} s \<Longrightarrow> child_ended_loop ks a s = Some (r, s') \<Longrightarrow> kinv L {} s'"
proof (induction ks)
  case (Cons c ks)
  obtain p q where p: "procs s (ch_p c) = Some p" "procs s a = Some q" using Cons.prems(2) by (auto simp: bind_eq_Some_conv)
  show ?case
  proof (cases "state p = ZOMBIE \<and> (waiting_pid q = - 1 \<or> pid p = waiting_pid q)")
    case False
    then show ?thesis using Cons p by auto
  next
    case True
    then have z: "zombie s (ch_p c)" using p by (auto simp: zombie_def)
    show ?thesis
    proof (cases "waiting_pid q = - 1")
      case False
      then show ?thesis using Cons.prems p True kinv_end_of_child [OF Cons.prems(1) z] by (auto simp: bind_eq_Some_conv)
    next
      case m: True
      then obtain s1 where s1: "update_proc a (\<lambda>q. q\<lparr>waiting_pid := pid p\<rparr>) s = Some s1" "end_of_child (ch_p c) a s1 = Some s'"
        using Cons.prems p True by (auto simp: bind_eq_Some_conv)
      have k1: "kinv L {} s1" by (rule kinv_update [OF Cons.prems(1) s1(1)]) (simp_all add: nodes_def)
      have "zombie s1 (ch_p c)" using z s1(1) by (auto simp: zombie_def update_proc_eq)
      from kinv_end_of_child [OF k1 this s1(2)] show ?thesis .
    qed
  qed
qed simp

lemma kinv_waitpid:
  assumes s: "kinv L {} s" and w: "process_waitpid a n opt s = Some (r, st, s')"
  shows "kinv L {} s'"
proof -
  have b: "kinv L {} t" if "start_blocking a n s = Some (e, so, t)" for e so t
  proof -
    have "update_proc a (\<lambda>p. p\<lparr>state := STOPPED, waiting_pid := n\<rparr>) (printk ''stopped'' s) = Some t"
      using that by (auto simp: start_blocking_def bind_eq_Some_conv)
    then show ?thesis by (rule kinv_update [rotated]) (use s in \<open>simp_all add: nodes_def\<close>)
  qed
  have r: "kinv L {} (t\<lparr>procs := (procs t)(a \<mapsto> q\<lparr>waiting_return := 0\<rparr>)\<rparr>)" if "kinv L {} t" "procs t a = Some q" for t q
    by (rule kinv_keep [OF that]) (simp_all add: nodes_def)
  have e: "kinv L {} t" if "end_of_child c a s = Some t" "procs s c = Some pc" "state pc = ZOMBIE" for c pc t
    using kinv_end_of_child [OF s _ that(1)] that(2,3) by (auto simp: zombie_def)
  show ?thesis
    using w s by (auto simp: process_waitpid_def bind_eq_Some_conv split: if_splits intro: r b e)
qed

subsection \<open>Delivery of signals\<close>

lemma kinv_run_handler:
  assumes s: "kinv L {} s" and h: "run_handler h a n s = Some (c, s')" and a: "\<not> zombie s a"
  shows "kinv L {} s'"
proof -
  have u: "kinv L {} t" if "update_proc a f s = Some t" "\<And>p. pid (f p) = pid p" "\<And>p. nodes (f p) = nodes p" "\<And>p. sigs (f p) = sigs p"
    "\<And>p. father (f p) = father p" "\<And>p. state (f p) = ZOMBIE \<Longrightarrow> state p = ZOMBIE" for f t
    by (rule kinv_update [OF s that])
  have die: "kinv L {} s'" if "update_proc a (\<lambda>p. p\<lparr>end_value := v\<rparr>) s = Some t" "process_die a t = Some (c, s')" for v t
  proof -
    have "kinv L {} t" by (rule u [OF that(1)]) (simp_all add: nodes_def)
    then show ?thesis using kinv_die that(2) by (simp add: process_die_def)
  qed
  show ?thesis
  proof (cases h)
    case Sig_stop
    then have "update_proc a (\<lambda>p. p\<lparr>end_value := WAIT_STOPCODE n, state := STOPPED\<rparr>) s = Some s'" using h by (auto simp: run_handler_def bind_eq_Some_conv)
    then show ?thesis by (rule u) (simp_all add: nodes_def)
  next
    case Sig_cont
    then have "update_proc a (\<lambda>p. p\<lparr>end_value := WAIT_CONTINUED, state := RUN\<rparr>) s = Some s'" using h by (auto simp: run_handler_def bind_eq_Some_conv)
    then show ?thesis by (rule u) (simp_all add: nodes_def)
  next
    case Child_ended
    then show ?thesis using h kinv_child_ended_loop [OF s] by (auto simp: run_handler_def child_ended_def bind_eq_Some_conv)
  qed (use h s die in \<open>auto simp: run_handler_def bind_eq_Some_conv\<close>)
qed

lemma kinv_shrink:
  assumes s: "kinv L x s" and a: "procs s a = Some p" and q: "pid q = pid p" "state q = state p" "father q = father p"
    "set (nodes q) \<subseteq> set (nodes p)" "distinct (nodes q)" "sigs p = [] \<Longrightarrow> sigs q = []"
  shows "kinv L x (s\<lparr>procs := (procs s)(a \<mapsto> q)\<rparr>)"
proof -
  note n = kinv_nodes [OF s a]
  have "kinv ((L \<union> set (nodes p)) - set (nodes q)) x (s\<lparr>procs := (procs s)(a \<mapsto> q)\<rparr>)"
    by (rule kinv_upd [OF s a]) (use q n in auto)
  then show ?thesis by (rule kinv_weaken) (use q(4) n(2) in auto)
qed

lemma distinct_map_filter_append:
  "distinct (xs @ map f ys @ zs) \<Longrightarrow> distinct (xs @ map f (filter P ys) @ zs)"
  by (induction ys) auto

lemma kinv_del_sig:
  assumes "kinv L x s" "update_proc a (\<lambda>p. list_del_sig n (p\<lparr>sig_avalaible := g p\<rparr>)) s = Some s'"
  shows "kinv L x s'"
proof -
  obtain p where p: "procs s a = Some p" "s' = s\<lparr>procs := (procs s)(a \<mapsto> list_del_sig n (p\<lparr>sig_avalaible := g p\<rparr>))\<rparr>"
    using assms(2) by (auto simp: update_proc_eq)
  have d: "distinct (map ch_node (children p) @ map sq_node (sigs p) @ (map mm_node (mm_heap p) @ map mm_node (mm_stack p)))"
    using kinv_nodes(1) [OF assms(1) p(1)] by (simp add: nodes_def)
  show ?thesis unfolding p(2)
    by (rule kinv_shrink [OF assms(1) p(1)])
       (use distinct_map_filter_append [OF d, of "\<lambda>q. sq_node q \<noteq> n"] in \<open>auto simp: list_del_sig_def nodes_def\<close>)
qed

lemma kinv_call_handler:
  assumes s: "kinv L {} s" and h: "call_handler sq a p s = Some (c, s')" and a: "\<not> zombie s a" and p: "procs s a = Some p"
  shows "kinv L {} s'"
proof -
  let ?f = "\<lambda>p. p\<lparr>sigs := map (\<lambda>q. if sq_node q = sq_node sq then q\<lparr>sq_state := sq_state q OR SIG_EXECUTING\<rparr> else q) (sigs p)\<rparr>"
  have m: "map sq_node (sigs (?f p)) = map sq_node (sigs p)" by auto
  have "kinv L {} (s\<lparr>procs := (procs s)(a \<mapsto> ?f p)\<rparr>)"
    by (rule kinv_shrink [OF s p]) (use kinv_nodes(1) [OF s p] m in \<open>simp_all add: nodes_def del: map_map\<close>)
  then have u: "kinv L {} t" if "update_proc a ?f s = Some t" for t using that p by (auto simp: update_proc_eq)
  show ?thesis
    using h kinv_run_handler [OF s _ a] u
    by (auto simp: call_handler_def Let_def bind_eq_Some_conv split: if_splits shandler.splits)
qed

lemma kinv_send_signal:
  assumes s: "kinv L {} s" and h: "send_signal a s = Some (c, s')"
  shows "kinv L {} s'"
proof -
  obtain p where p: "procs s a = Some p" using h by (auto simp: send_signal_def bind_eq_Some_conv)
  show ?thesis
  proof (cases "sigs p")
    case Nil
    then show ?thesis using h p s by (simp add: send_signal_def)
  next
    case (Cons sq rest)
    then have z: "state p \<noteq> ZOMBIE" "\<not> zombie s a" using kinv_nodes(3) [OF s p] p by (auto simp: zombie_def)
    show ?thesis
    proof (cases "sq_state sq = SIG_EXECUTING")
      case True
      then show ?thesis using h p s Cons z by (simp add: send_signal_def)
    next
      case False
      then obtain c1 s1 where c1: "call_handler sq a p s = Some (c1, s1)" using h p Cons z by (auto simp: send_signal_def bind_eq_Some_conv)
      note k1 = kinv_call_handler [OF s c1 z(2) p]
      show ?thesis
        using h p Cons z False c1 k1 kinv_del_sig [OF k1, where g = "\<lambda>p. sig_avalaible p AND NOT (mask_of (sig_handled sq))"]
        by (auto simp: send_signal_def bind_eq_Some_conv split: ctl.splits if_splits)
    qed
  qed
qed

subsection \<open>The scheduler\<close>

lemma blocks_pos: "heap_inv s \<Longrightarrow> 0 \<notin> blocks s"
  using live_in_bounds(1) [of "headers s"] heap_inv_area [of s] by (fastforce simp: blocks_def live_def)

lemma kinv_list_wf:
  assumes "kinv L {} s"
  shows "list_wf s"
proof -
  have "0 \<notin> dom (procs s)" using assms blocks_pos by (auto simp: kinv_def hold_def owned_def)
  then show ?thesis using assms by (auto simp: kinv_def table_ok_def list_wf_def)
qed

definition picked :: "'a proc_st_scheme \<Rightarrow> nat \<Rightarrow> bool" where
  "picked s b \<longleftrightarrow> b = 0 \<or> b \<in> set (process_list s) \<and> (\<exists>p. procs s b = Some p \<and> (state p = RUN \<or> sigs p \<noteq> []))"

lemma next_process_listed:
  assumes "next_process cur s = Some n" "list_wf s" "cur = 0 \<or> cur \<in> set (process_list s)"
  shows "n = 0 \<or> n \<in> set (process_list s)"
proof (cases "process_list s = []")
  case True
  then show ?thesis using assms(1,3) by (simp add: next_process_def)
next
  case False
  then show ?thesis using next_in_list [OF assms(2) False assms(3)] assms(1) by auto
qed

lemma select_picks:
  assumes "select_loop s cur prev m = Some y" "list_wf s" "cur = 0 \<or> cur \<in> set (process_list s)"
  shows "picked s (fst y)"
proof -
  let ?P = "\<lambda>s cur prev (m :: bool) y. list_wf s \<and> (cur = 0 \<or> cur \<in> set (process_list s)) \<longrightarrow> picked s (fst y)"
  have "?P s cur prev m y"
    using assms(1)
  proof (rule select_loop.raw_induct [where P = ?P, rotated])
    fix loop :: "'a proc_st_scheme \<Rightarrow> nat \<Rightarrow> nat \<Rightarrow> bool \<Rightarrow> (nat \<times> bool) option"
      and s :: "'a proc_st_scheme" and cur prev m y
    assume ih: "\<And>s cur prev m y. loop s cur prev m = Some y \<Longrightarrow> ?P s cur prev m y"
      and run: "Option.bind (next_process cur s) (\<lambda>nxt.
       if nxt = 0 then Some (0, m)
       else Option.bind (procs s nxt) (\<lambda>p.
         if state p \<noteq> RUN \<and> sigs p = []
         then if nxt = prev then Some (0, m \<or> state p \<noteq> ZOMBIE)
              else loop s nxt prev (m \<or> state p \<noteq> ZOMBIE)
         else Some (nxt, m))) = Some y"
    show "?P s cur prev m y"
    proof (intro impI)
      assume wf: "list_wf s \<and> (cur = 0 \<or> cur \<in> set (process_list s))"
      obtain n where n: "next_process cur s = Some n" using run by (auto simp: bind_eq_Some_conv)
      note nl = next_process_listed [OF n wf [THEN conjunct1] wf [THEN conjunct2]]
      show "picked s (fst y)"
      proof (cases "n = 0")
        case True
        then show ?thesis using run n by (auto simp: picked_def)
      next
        case False
        then obtain p where p: "procs s n = Some p" using run n by (auto simp: bind_eq_Some_conv)
        show ?thesis using ih [of s n prev "m \<or> state p \<noteq> ZOMBIE" y] run n p False nl wf by (auto simp: picked_def split: if_splits)
      qed
    qed
  qed
  with assms(2,3) show ?thesis by blast
qed

lemma kinv_switch_p:
  assumes s: "kinv L {} s" and r: "proc_switch_p old new s = Some (r, s')"
  shows "kinv L {} s'"
proof -
  obtain e1 s1 where s1: "(if old \<noteq> 0 then process_memory_switch old False s else Some (0, s)) = Some (e1, s1)"
    using r by (auto simp: proc_switch_p_def bind_eq_Some_conv)
  have k1: "kinv L {} s1"
  proof (cases "old = 0")
    case False
    then have "process_memory_switch old False s = Some (e1, s1)" using s1 by simp
    then show ?thesis using s kinv_vm [OF vm_frame_memory_switch] by blast
  qed (use s s1 in simp)
  show ?thesis
  proof (cases "e1 = 0")
    case False
    then show ?thesis using r s1 k1 by (auto simp: proc_switch_p_def kern_panic_def)
  next
    case True
    obtain e2 s2 where s2: "process_memory_switch new True s1 = Some (e2, s2)"
      using r s1 True by (auto simp: proc_switch_p_def bind_eq_Some_conv Let_def split: if_splits)
    have k2: "kinv L {} s2" using k1 kinv_vm [OF vm_frame_memory_switch [OF s2]] by simp
    show ?thesis
    proof (cases "e2 = 0")
      case False
      then show ?thesis using r s1 s2 True k2 by (auto simp: proc_switch_p_def kern_panic_def bind_eq_Some_conv Let_def)
    next
      case e2: True
      have "(\<exists>c. send_signal new s2 = Some (c, s')) \<or> s' = s2"
        using r s1 s2 True e2
        by (auto simp: proc_switch_p_def bind_eq_Some_conv Let_def split: ctl.splits if_splits) (metis ctl.exhaust)+
      then show ?thesis using k2 kinv_send_signal [OF k2] by blast
    qed
  qed
qed

lemma kinv_switch_pass:
  assumes s: "kinv L {} s" and r: "switch_pass data s = Some (r, s')"
  shows "kinv L {} s'"
proof -
  obtain cur m where c: "select_loop s (current s) (current s) False = Some (cur, m)"
    using r by (auto simp: switch_pass_def bind_eq_Some_conv)
  have "current s = 0 \<or> current s \<in> set (process_list s)" using s by (auto simp: kinv_def table_ok_def)
  from select_picks [OF c kinv_list_wf [OF s] this] have "picked s cur" by simp
  then have k: "kinv L {} (s\<lparr>current := cur\<rparr>)"
    using s by (auto simp: kinv_def table_ok_def picked_def pid_of_def [abs_def] zombie_def)
  show ?thesis
  proof (cases "\<not> m \<and> cur = 0")
    case True
    then show ?thesis using r c s by (auto simp: switch_pass_def kern_panic_def)
  next
    case False
    then have "proc_switch data (current s) cur (s\<lparr>current := cur\<rparr>) = Some (r, s')" using r c by (auto simp: switch_pass_def)
    then obtain s1 where s1: "(if current s \<noteq> 0
        then do { d \<leftarrow> data; update_proc (current s) (\<lambda>p. p\<lparr>pregs := proc_save d (pregs p)\<rparr>) (s\<lparr>current := cur\<rparr>) }
        else Some (s\<lparr>current := cur\<rparr>)) = Some s1"
      and p: "proc_switch_p (current s) (if cur = 0 then process_hlt s1 else cur) s1 = Some (r, s')"
      unfolding proc_switch_def by (auto simp: bind_eq_Some_conv)
    have "kinv L {} s1"
    proof (cases "current s = 0")
      case True
      then show ?thesis using s1 k by simp
    next
      case False
      then obtain d where "update_proc (current s) (\<lambda>p. p\<lparr>pregs := proc_save d (pregs p)\<rparr>) (s\<lparr>current := cur\<rparr>) = Some s1"
        using s1 by (auto simp: bind_eq_Some_conv)
      then show ?thesis by (rule kinv_update [OF k]) (simp_all add: nodes_def)
    qed
    then show ?thesis using p by (rule kinv_switch_p)
  qed
qed

lemma kinv_switch_process:
  assumes "switch_process data s = Some y" "kinv L {} s"
  shows "kinv L {} (snd y)"
proof -
  let ?P = "\<lambda>(data :: interupt option) s y. kinv L {} s \<longrightarrow> kinv L {} (snd y)"
  have "?P data s y"
    using assms(1)
  proof (rule switch_process.raw_induct [where P = ?P, rotated])
    fix loop :: "interupt option \<Rightarrow> 'a sched_st_scheme \<Rightarrow> (sched_out \<times> 'a sched_st_scheme) option"
      and data and s :: "'a sched_st_scheme" and y
    assume ih: "\<And>data s y. loop data s = Some y \<Longrightarrow> ?P data s y"
      and run: "Option.bind (switch_pass data s) (\<lambda>(r, s').
         case r of Done out \<Rightarrow> Some (out, s') | Again d \<Rightarrow> loop d s') = Some y"
    obtain r s1 where p: "switch_pass data s = Some (r, s1)" using run by (auto simp: bind_eq_Some_conv)
    show "?P data s y"
      using ih [of _ s1 y] run p kinv_switch_pass [OF _ p] by (cases r) auto
  qed
  with assms(2) show ?thesis by blast
qed

subsection \<open>Interrupts\<close>

lemma kinv_switched: "kinv L {} s \<Longrightarrow> switched d s = Some (out, s') \<Longrightarrow> kinv L {} s'"
  using kinv_switch_process by (fastforce simp: switched_def bind_eq_Some_conv)

lemma kinv_kill_process:
  assumes s: "kinv L {} s" and k: "kill_process d s = Some (out, s')"
  shows "kinv L {} s'"
  using s k kinv_die [of L "printk ''Kernel error terminate process'' s"]
  by (auto simp: kill_process_def process_die_def bind_eq_Some_conv Let_def split: if_splits ctl.splits dest: kinv_switched)
     (metis ctl.exhaust)

lemma kinv_irq_general:
  assumes s: "kinv L {} s" and k: "irq_general d s = Some (out, s')"
  shows "kinv L {} s'"
proof -
  have pf: "kinv L {} t" if "page_fault_handler s = Some (r, t)" for r t
    using that s by (auto simp: page_fault_handler_def Let_def bind_eq_Some_conv split: if_splits)
  have ok: "kinv L {} s'" if "kinv L {} t" "kill_process d t = Some (out, s') \<or> switched (Some d) t = Some (out, s') \<or> s' = t" for t
    using that kinv_kill_process kinv_switched by blast
  have sig: "kinv L {} u" if "kinv L {} t" "add_signal n a ty t = Some (e, u)" for t u n a ty e
    using kinv_add_signal that by blast
  show ?thesis
    using k s by (auto simp: irq_general_def bind_eq_Some_conv split: option.splits if_splits intro: ok sig dest!: pf)
qed

end
