(* ===== verification/Process_Life.thy ===== *)
theory Process_Life
  imports Process_Inv
begin

text \<open>
  The life of processes. The operations that create processes and change their memory keep the invariant of
  \<open>Process_Inv\<close>. A step of the kernel is a system call of a process, an interrupt, or the start of a kernel process; the
  invariant holds in every state that steps reach.
\<close>

subsection \<open>New processes\<close>

lemma kinv_process_new:
  assumes s: "kinv L {} s" and n: "process_new s = (c, s')" "c \<noteq> 0"
  shows "kinv L {} s'" "procs s c = None" "procs s' = (procs s)(c \<mapsto> empty_process)" "process_list s' = process_list s"
    "c \<notin> set (process_list s)"
proof -
  obtain t where t: "kmalloc sizeof_process s = (Some c, t)" "s' = t\<lparr>procs := (procs t)(c \<mapsto> empty_process)\<rparr>"
    using n by (auto simp: process_new_def split: prod.splits option.splits)
  note k = kinv_kmalloc [OF s t(1)]
  show p: "procs s c = None" "procs s' = (procs s)(c \<mapsto> empty_process)" "process_list s' = process_list s"
    using k t proc_kmalloc [OF t(1)] by auto
  then show l: "c \<notin> set (process_list s)" using s by (auto simp: kinv_def table_ok_def)
  have t1: "table_ok {} t" using k(1) by (auto simp: kinv_def)
  have l': "c \<notin> set (process_list t)" "procs t c = None" using l p k(4) proc_kmalloc(2) [OF t(1)] by auto
  have "pid_of s' b = pid_of t b" if "b \<in> set (process_list t)" for b using that l'(1) t(2) by (auto simp: pid_of_def)
  moreover from this have "inj_on (pid_of s') (set (process_list t)) = inj_on (pid_of t) (set (process_list t))"
    by (intro inj_on_cong) blast
  ultimately have "table_ok {} s'"
    using t1 l' n(2) t(2) by (auto simp: table_ok_def zombie_def empty_process_def)
  moreover have "hold (procs s') L s'"
    unfolding t(2) using hold_new [of "procs t" c L t] k by (simp add: kinv_def nodes_def empty_process_def)
  ultimately show "kinv L {} s'" by (simp add: kinv_def)
qed

lemma kinv_process_new_None: "kinv L {} s \<Longrightarrow> process_new s = (0, s') \<Longrightarrow> kinv L {} s'"
proof -
  assume s: "kinv L {} s" and n: "process_new s = (0, s')"
  obtain r t where t: "kmalloc sizeof_process s = (r, t)" by fastforce
  have "r \<noteq> Some 0"
  proof
    assume "r = Some 0"
    then have "0 \<in> blocks t" using kinv_kmalloc(1) [OF s] t by (auto simp: kinv_def hold_def)
    then show False using kmalloc_blocks(1) [OF kinv_heap [OF s] t] blocks_pos by auto
  qed
  then have "r = None" "s' = t" using n t by (auto simp: process_new_def split: option.splits)
  then show "kinv L {} s'" using kinv_kmalloc_None [OF s] t by simp
qed

lemma kinv_alloc_pid:
  assumes s: "kinv L x s" and a: "process_alloc_pid s = Some ((err, n), s')"
  shows "kinv L x s'" "procs s' = procs s" "process_list s' = process_list s"
    "err = 0 \<Longrightarrow> 1 \<le> n \<and> n \<le> 0xfff \<and> n \<notin> pid_of s ` set (process_list s)"
proof -
  have l: "1 \<le> last_pid s" "last_pid s \<le> 0xfff" "set (process_list s) \<subseteq> dom (procs s)" using s by (auto simp: kinv_def table_ok_def)
  note f = process_alloc_pid_facts [OF a l(1,2)]
  obtain u where u: "pids s = Some u" using a by (auto simp: process_alloc_pid_def bind_eq_Some_conv)
  obtain r i where "alloc_pid_loop u 0 (last_pid s) = (r, i)" by fastforce
  then have i: "s' = s\<lparr>last_pid := i\<rparr>" using a u by (simp add: process_alloc_pid_def)
  show "procs s' = procs s" "process_list s' = process_list s" using i by auto
  show "err = 0 \<Longrightarrow> 1 \<le> n \<and> n \<le> 0xfff \<and> n \<notin> pid_of s ` set (process_list s)" using f l(3) by (fastforce simp: pid_of_def)
  show "kinv L x s'" using s f i by (auto simp: kinv_def table_ok_def pid_of_def [abs_def] zombie_def)
qed

lemma kinv_set_pid:
  assumes s: "kinv L x s" and c: "c \<notin> set (process_list s)" and u: "update_proc c (\<lambda>q. q\<lparr>pid := n\<rparr>) s = Some s'"
  shows "kinv L x s'"
proof -
  obtain q where q: "procs s c = Some q" "s' = s\<lparr>procs := (procs s)(c \<mapsto> q\<lparr>pid := n\<rparr>)\<rparr>" using u by (auto simp: update_proc_eq)
  have n: "nodes (q\<lparr>pid := n\<rparr>) = nodes q" by (simp add: nodes_def)
  note k = kinv_nodes [OF s q(1)]
  have "kinv ((L \<union> set (nodes q)) - set (nodes (q\<lparr>pid := n\<rparr>))) x s'"
    unfolding q(2) by (rule kinv_upd [OF s q(1)]) (use c k n in auto)
  then show ?thesis by (rule kinv_weaken) (use n k(2) in auto)
qed

lemma kinv_enlist:
  assumes s: "kinv L x s" and c: "procs s c = Some q" "c \<notin> set (process_list s)"
    "1 \<le> pid q" "pid q \<le> 0xfff" "pid q \<notin> pid_of s ` set (process_list s)"
    and l: "set l = insert c (set (process_list s))" "distinct l"
  shows "kinv L x (s\<lparr>process_list := l\<rparr>)"
proof -
  let ?t = "s\<lparr>process_list := l\<rparr>"
  have p: "pid_of ?t = pid_of s" "pid_of s c = pid q" using c(1) by (simp_all add: pid_of_def [abs_def])
  have "inj_on (pid_of s) (set l)" unfolding l(1) using s c p by (auto simp: kinv_def table_ok_def)
  moreover have "\<forall>a \<in> set l. 1 \<le> pid_of s a \<and> pid_of s a \<le> 0xfff" unfolding l(1) using s c p by (auto simp: kinv_def table_ok_def)
  moreover have "set l \<subseteq> dom (procs s)" unfolding l(1) using s c(1) by (auto simp: kinv_def table_ok_def)
  ultimately have "table_ok x ?t" using s l p by (auto simp: kinv_def table_ok_def zombie_def)
  then show ?thesis using s by (simp add: kinv_def)
qed

lemma kinv_give_up:
  assumes "kinv L {} s" "c \<notin> set (process_list s)" "c \<noteq> 0" "free_process c s = Some s'"
  shows "kinv L {} s'"
proof -
  have "current s \<noteq> c" using assms by (auto simp: kinv_def table_ok_def)
  then have "current s' \<noteq> c" using current_free_process [OF assms(4)] by simp
  with kinv_free_process [OF assms(1,4)] show ?thesis by (rule kinv_drop)
qed

subsection \<open>Copying a process\<close>

lemma kinv_copy_mem_block:
  "process_copy_mem_block n pm s = (r, s') \<Longrightarrow> kinv L x s' = kinv L x s"
  "process_copy_mem_block n pm s = (Some npm, s') \<Longrightarrow> mm_node npm = n"
proof -
  show "process_copy_mem_block n pm s = (r, s') \<Longrightarrow> kinv L x s' = kinv L x s"
    by (rule kinv_vm) (rule copy_mem_block_effect(1))
  show "process_copy_mem_block n pm s = (Some npm, s') \<Longrightarrow> mm_node npm = n"
    by (auto simp: process_copy_mem_block_def Let_def split: prod.splits if_splits)
qed

definition pushes :: "(map_memory \<Rightarrow> process \<Rightarrow> process) \<Rightarrow> bool" where
  "pushes put \<longleftrightarrow> (\<forall>pm p. mset (nodes (put pm p)) = add_mset (mm_node pm) (mset (nodes p)) \<and> pid (put pm p) = pid p \<and>
     state (put pm p) = state p \<and> father (put pm p) = father p \<and> sigs (put pm p) = sigs p)"

lemma pushes_push: "pushes push_heap" "pushes push_stack"
  by (simp_all add: pushes_def nodes_def)

lemma kinv_copy_maps:
  "kinv L x s \<Longrightarrow> pushes put \<Longrightarrow> copy_maps pms put c s = Some (ok, s') \<Longrightarrow> kinv L x s'"
proof (induction pms arbitrary: s)
  case (Cons pm pms)
  obtain r s1 where 1: "kmalloc sizeof_map_memory s = (r, s1)" by fastforce
  show ?case
  proof (cases r)
    case None
    then show ?thesis using Cons.prems(3) 1 kinv_kmalloc_None [OF Cons.prems(1)] by auto
  next
    case (Some node)
    note k1 = kinv_kmalloc [OF Cons.prems(1) 1 [unfolded Some] size_nodes(2)]
    obtain b s2 where 2: "process_copy_mem_block node pm s1 = (b, s2)" by fastforce
    have k2: "kinv (insert node L) x s2" using k1(1) kinv_copy_mem_block(1) [OF 2] by simp
    show ?thesis
    proof (cases b)
      case None
      have "kinv (insert node L - {node}) x (kfree node s2)" by (rule kinv_kfree [OF k2]) simp
      then show ?thesis using Cons.prems(3) 1 2 Some None k1(2) by simp
    next
      case b: (Some npm)
      then obtain s3 where s3: "update_proc c (put npm) s2 = Some s3" "copy_maps pms put c s3 = Some (ok, s')"
        using Cons.prems(3) 1 2 Some by (auto simp: bind_eq_Some_conv)
      then obtain q where q: "procs s2 c = Some q" "s3 = s2\<lparr>procs := (procs s2)(c \<mapsto> put npm q)\<rparr>" by (auto simp: update_proc_eq)
      have "kinv L x s3" unfolding q(2)
        by (rule kinv_link [OF k2 k1(2) q(1)]) (use Cons.prems(2) kinv_copy_mem_block(2) [of node pm s1 npm s2] 2 b in \<open>auto simp: pushes_def\<close>)
      then show ?thesis by (rule Cons.IH [OF _ Cons.prems(2) s3(2)])
    qed
  qed
qed simp

lemma kinv_copy_signals: "kinv L x s \<Longrightarrow> copy_signals qs c s = Some s' \<Longrightarrow> kinv L x s'"
  by (induction qs arbitrary: s) (auto simp: bind_eq_Some_conv dest: kinv_add_signal)

lemma insert_after_set: "a \<in> set l \<Longrightarrow> set (insert_after a c l) = insert c (set l)"
  by (induction l) auto

lemma insert_after_distinct: "distinct l \<Longrightarrow> c \<notin> set l \<Longrightarrow> distinct (insert_after a c l)"
proof (induction l)
  case (Cons b l)
  have "set (insert_after a c l) \<subseteq> insert c (set l)" by (induction l) auto
  then show ?case using Cons by auto
qed simp

text \<open>What a copy in the making keeps: the list, every process but the new one, and its identifier.\<close>

definition making :: "nat \<Rightarrow> 'a proc_st_scheme \<Rightarrow> 'a proc_st_scheme \<Rightarrow> bool" where
  "making c s s' \<longleftrightarrow> process_list s' = process_list s \<and> (\<forall>b. b \<noteq> c \<longrightarrow> procs s' b = procs s b) \<and>
     map_option pid (procs s' c) = map_option pid (procs s c)"

lemma making_refl [simp]: "making c s s"
  by (simp add: making_def)

lemma making_trans: "making c s t \<Longrightarrow> making c t u \<Longrightarrow> making c s u"
  by (simp add: making_def)

lemma making_copy_maps:
  assumes "copy_maps pms put c s = Some (ok, s')" "pushes put" "procs s c = Some q"
  shows "making c s s'"
proof -
  have "pid (fold put npms q) = pid q" for npms :: "map_memory list" and q
    using assms(2) by (induction npms arbitrary: q) (auto simp: pushes_def)
  then show ?thesis using copy_maps_effect [OF assms(1,3)] assms(3) by (auto simp: making_def)
qed

lemma making_copy_signals:
  assumes "copy_signals qs c s = Some s'" "procs s c = Some q"
  shows "making c s s'"
  using copy_signals_effect [OF assms] assms(2) by (auto simp: making_def queued_more_def)

lemma making_update:
  assumes "update_proc c f s = Some s'" "\<And>p. pid (f p) = pid p"
  shows "making c s s'"
  using assms by (auto simp: making_def update_proc_eq)

lemma making_heap: "heap_frame s s' \<Longrightarrow> making c s s'"
  using heap_frame_proc by (fastforce simp: making_def)

lemma making_get: "making c s t \<Longrightarrow> procs s c = Some q \<Longrightarrow> \<exists>q'. procs t c = Some q' \<and> pid q' = pid q"
  by (auto simp: making_def)

text \<open>The last step: the new process, whose identifier is free, enters the lists.\<close>

lemma kinv_adopt:
  assumes s: "kinv (insert node L) {} s" "node \<notin> L" and d: "adopt a c node s = Some s'" and ac: "a \<noteq> c"
    and p: "procs s a = Some p" "state p \<noteq> ZOMBIE" and c: "procs s c = Some q" "c \<notin> set (process_list s)"
    "1 \<le> pid q" "pid q \<le> 0xfff" "pid q \<notin> pid_of s ` set (process_list s)"
  shows "kinv L {} s'"
proof -
  let ?q = "q\<lparr>state := state p, pregs := pregs p, uid := uid p, children := [], father := a, end_value := 0, waiting_pid := 0\<rparr>"
  let ?p = "p\<lparr>children := \<lparr>ch_node = node, ch_p = c\<rparr> # children p\<rparr>"
  let ?s1 = "s\<lparr>procs := (procs s)(c \<mapsto> ?q)\<rparr>"
  let ?s2 = "?s1\<lparr>procs := (procs ?s1)(a \<mapsto> ?p)\<rparr>"
  have n: "set (nodes ?q) \<subseteq> set (nodes q)" "distinct (nodes q) \<Longrightarrow> distinct (nodes ?q)" by (auto simp: nodes_def)
  note k = kinv_nodes [OF s(1) c(1)]
  have "kinv ((insert node L \<union> set (nodes q)) - set (nodes ?q)) {} ?s1"
    by (rule kinv_upd [OF s(1) c(1)]) (use n k(1) p(2) ac in auto)
  then have k1: "kinv (insert node L) {} ?s1" by (rule kinv_weaken) (use n(1) k(2) in auto)
  have k2: "kinv L {} ?s2"
    by (rule kinv_link [OF k1 s(2), of a p]) (use ac p(1) in \<open>auto simp: nodes_def\<close>)
  have d': "a \<in> set (process_list s)" "s' = ?s2\<lparr>process_list := insert_after a c (process_list s)\<rparr>"
    using d p(1) c(1) ac by (auto simp: adopt_def update_proc_def bind_eq_Some_conv split: if_splits)
  have same: "pid_of ?s2 b = pid_of s b" if "b \<in> set (process_list s)" for b
    using that c(1,2) p(1) ac by (auto simp: pid_of_def)
  then have fresh: "pid_of ?s2 ` set (process_list s) = pid_of s ` set (process_list s)" by (intro image_cong) auto
  have dist: "distinct (process_list s)" using s(1) by (simp add: kinv_def table_ok_def)
  show ?thesis unfolding d'(2)
    by (rule kinv_enlist [OF k2, of c ?q])
       (use c ac fresh in simp_all, simp_all add: insert_after_set [OF d'(1)] insert_after_distinct [OF dist c(2)])
qed

lemma kinv_copy_process:
  fixes s :: "'a fork_st_scheme"
  assumes s: "kinv L {} s" and r: "copy_process a c s = Some (e, s')" and ac: "a \<noteq> c"
    and p: "procs s a = Some p" "state p \<noteq> ZOMBIE" and c: "procs s c = Some empty_process" "c \<notin> set (process_list s)"
  shows "kinv L {} s' \<and> (e < 0 \<longrightarrow> c \<notin> set (process_list s')) \<and> (\<exists>q. procs s' c = Some q)"
proof -
  obtain err n s1 s2 where 1: "process_alloc_pid s = Some ((err, n), s1)" and 2: "update_proc c (\<lambda>q. q\<lparr>pid := n\<rparr>) s1 = Some s2"
    using r by (auto simp: copy_process_def bind_eq_Some_conv)
  note a1 = kinv_alloc_pid [OF s 1]
  have k2: "kinv L {} s2" by (rule kinv_set_pid [OF a1(1) _ 2]) (simp add: a1(3) c(2))
  have s2: "procs s2 = (procs s)(c \<mapsto> empty_process\<lparr>pid := n\<rparr>)" "process_list s2 = process_list s"
    using 2 a1(2,3) c(1) by (auto simp: update_proc_eq)
  show ?thesis
  proof (cases "err < 0")
    case True
    then show ?thesis using r 1 2 k2 s2 c(2) by (auto simp: copy_process_def)
  next
    case False
    then have pid: "1 \<le> n" "n \<le> 0xfff" "n \<notin> pid_of s ` set (process_list s)"
      using a1(4) process_alloc_pid_frame(3) [OF 1] by (auto simp: errno_defs)
    have fin: "kinv L {} t \<Longrightarrow> making c s2 t \<Longrightarrow> kinv L {} t \<and> c \<notin> set (process_list t) \<and> (\<exists>q. procs t c = Some q)" for t
      using c(2) s2 making_get [of c s2 t] by (auto simp: making_def)
    have p2: "procs s2 a = Some p" using p(1) ac s2 by simp
    obtain ok3 s3 where 3: "copy_maps (mm_heap p) push_heap c s2 = Some (ok3, s3)"
      using r 1 2 False p2 by (auto simp: copy_process_def bind_eq_Some_conv)
    note k3 = kinv_copy_maps [OF k2 pushes_push(1) 3]
    have m3: "making c s2 s3" by (rule making_copy_maps [OF 3 pushes_push(1)]) (simp add: s2)
    show ?thesis
    proof (cases ok3)
      case False
      then show ?thesis using r 1 2 \<open>\<not> err < 0\<close> p2 3 fin [OF k3 m3] by (auto simp: copy_process_def)
    next
      case ok3: True
      obtain ok4 s4 where 4: "copy_maps (mm_stack p) push_stack c s3 = Some (ok4, s4)"
        using r 1 2 False p2 3 ok3 by (auto simp: copy_process_def bind_eq_Some_conv)
      note k4 = kinv_copy_maps [OF k3 pushes_push(2) 4]
      obtain q3 where q3: "procs s3 c = Some q3" using making_get [OF m3] s2 by auto
      have m4: "making c s2 s4" using making_trans [OF m3 making_copy_maps [OF 4 pushes_push(2) q3]] .
      obtain b5 s5 where 5: "process_copy_mem_block 0 (mm_code p) s4 = (b5, s5)" by fastforce
      have k5: "kinv L {} s5" using k4 kinv_copy_mem_block(1) [OF 5] by simp
      have m5: "making c s2 s5"
        using making_trans [OF m4 making_heap [OF vm_frame_heap_frame [OF copy_mem_block_effect(1) [OF 5]]]] .
      show ?thesis
      proof (cases "ok4 \<and> b5 \<noteq> None")
        case False
        then have "e = - 1 \<and> (s' = s4 \<or> s' = s5)" using r 1 2 \<open>\<not> err < 0\<close> p2 3 ok3 4 5
          by (cases ok4; cases b5) (auto simp: copy_process_def)
        then show ?thesis using fin [OF k4 m4] fin [OF k5 m5] by blast
      next
        case ok5: True
        then obtain code where code: "b5 = Some code" by auto
        obtain s6 s7 where 6: "update_proc c (\<lambda>q. q\<lparr>mm_code := code\<rparr>) s5 = Some s6" and 7: "copy_signals (sigs p) c s6 = Some s7"
          using r 1 2 False p2 3 ok3 4 ok5 5 code by (auto simp: copy_process_def bind_eq_Some_conv)
        have k6: "kinv L {} s6" by (rule kinv_update [OF k5 6]) (simp_all add: nodes_def)
        have m6: "making c s2 s6" by (rule making_trans [OF m5 making_update [OF 6]]) simp
        note k7 = kinv_copy_signals [OF k6 7]
        obtain q6 where q6: "procs s6 c = Some q6" using making_get [OF m6] s2 by auto
        have m7: "making c s2 s7" using making_trans [OF m6 making_copy_signals [OF 7 q6]] .
        obtain r8 s8 where 8: "kmalloc sizeof_children s7 = (r8, s8)" by fastforce
        have m8: "making c s2 s8" using making_trans [OF m7 making_heap [OF heap_frame_kmalloc [OF 8]]] .
        show ?thesis
        proof (cases r8)
          case None
          then have "e = - 1 \<and> s' = s8" using r 1 2 False p2 3 ok3 4 ok5 5 code 6 7 8 by (simp add: copy_process_def)
          then show ?thesis using fin [OF kinv_kmalloc_None [OF k7 8 [unfolded None] size_nodes(3)] m8] by simp
        next
          case (Some node)
          note k8 = kinv_kmalloc [OF k7 8 [unfolded Some] size_nodes(3)]
          have d: "e = 0" "adopt a c node s8 = Some s'"
            using r 1 2 False p2 3 ok3 4 ok5 5 code 6 7 8 Some by (auto simp: copy_process_def bind_eq_Some_conv)
          obtain q8 where q8: "procs s8 c = Some q8" "pid q8 = n" using making_get [OF m8] s2 by auto
          have l8: "process_list s8 = process_list s" "procs s8 a = Some p" using m8 s2 p2 ac by (auto simp: making_def)
          have "pid_of s8 b = pid_of s b" if "b \<in> set (process_list s)" for b
          proof -
            have "b \<noteq> c" using that c(2) by auto
            then have "procs s8 b = procs s b" using m8 s2(1) by (simp add: making_def)
            then show ?thesis by (simp add: pid_of_def)
          qed
          then have "pid_of s8 ` set (process_list s8) = pid_of s ` set (process_list s)" unfolding l8(1) by (intro image_cong) auto
          then have "kinv L {} s'" using kinv_adopt [OF k8(1,2) d(2) ac l8(2) p(2) q8(1)] c(2) l8(1) q8(2) pid by simp
          moreover have "\<exists>q. procs s' c = Some q"
            using d(2) q8 l8(2) ac by (auto simp: adopt_def update_proc_def bind_eq_Some_conv split: if_splits)
          ultimately show ?thesis using d(1) by simp
        qed
      qed
    qed
  qed
qed

lemma kinv_fork:
  assumes s: "kinv L {} s" and f: "fork a s = Some (r, s')" and p: "procs s a = Some p" "state p \<noteq> ZOMBIE"
  shows "kinv L {} s'"
proof -
  obtain c s1 where n: "process_new s = (c, s1)" by fastforce
  show ?thesis
  proof (cases "c = 0")
    case True
    then show ?thesis using f n kinv_process_new_None [OF s] by (simp add: fork_def)
  next
    case False
    note k = kinv_process_new [OF s n False]
    have ac: "a \<noteq> c" using k(2) p(1) by auto
    obtain e s2 where e: "copy_process a c s1 = Some (e, s2)" using f n False by (auto simp: fork_def bind_eq_Some_conv)
    have c: "kinv L {} s2" "e < 0 \<longrightarrow> c \<notin> set (process_list s2)" "\<exists>q. procs s2 c = Some q"
      using kinv_copy_process [OF k(1) e ac] k p ac by auto
    show ?thesis
    proof (cases "e < 0")
      case True
      then obtain s3 where "free_process c s2 = Some s3" "s' = s3" using f n False e by (auto simp: fork_def bind_eq_Some_conv)
      then show ?thesis using kinv_give_up [OF c(1) _ False] c(2) True by simp
    next
      case e0: False
      obtain q where q: "procs s2 c = Some q" using c(3) by blast
      then have s': "s' = s2\<lparr>procs := (procs s2)(c \<mapsto> q\<lparr>father := a\<rparr>)\<rparr>" using f n False e e0 by (auto simp: fork_def bind_eq_Some_conv update_proc_eq)
      note k2 = kinv_nodes [OF c(1) q]
      have nn: "nodes (q\<lparr>father := a\<rparr>) = nodes q" by (simp add: nodes_def)
      have "kinv ((L \<union> set (nodes q)) - set (nodes (q\<lparr>father := a\<rparr>))) {} s'"
        unfolding s' by (rule kinv_upd [OF c(1) q]) (use k2 nn ac in auto)
      then show ?thesis by (rule kinv_weaken) (use nn k2(2) in auto)
    qed
  qed
qed

subsection \<open>Memory of a process\<close>

lemma kinv_memory_add:
  assumes s: "kinv L x s" and r: "process_memory_add a n v mf pf s = Some (e, s')"
  shows "kinv L x s'"
proof -
  let ?np = "pages_from v n" and ?va = "v AND PAGE_ADDR"
  obtain ph s1 where 1: "page_get_phys ?va s = (ph, s1)" by fastforce
  obtain r2 s2 where 2: "kmalloc sizeof_map_memory s1 = (r2, s2)" by fastforce
  obtain pa s3 where 3: "get_phys_block (unat ?np) s2 = (pa, s3)" by fastforce
  obtain e4 s4 where 4: "phys_bzero pa (unat ?np) s3 = (e4, s4)" by fastforce
  obtain e5 s5 where 5: "(if pf AND PROC_MEM_ADD_IMEDIATE \<noteq> 0 then page_map_range pa ?va mf (unat ?np) s4 else (0, s4)) = (e5, s5)"
    by fastforce
  have k1: "kinv L x s1" using s kinv_vm [OF vm_frame_page_get_phys [OF 1]] by simp
  show ?thesis
  proof (cases "ph \<noteq> 0 \<or> mf AND PAGE_PRESENT = 0 \<or> r2 = None")
    case True
    have "s' = s1 \<or> r2 = None \<and> s' = s2" using r True 1 2 by (auto simp: process_memory_add_def Let_def split: if_splits)
    then show ?thesis using k1 kinv_kmalloc_None [OF k1 _ size_nodes(2)] 2 by auto
  next
    case False
    then obtain node where node: "r2 = Some node" by auto
    note k2 = kinv_kmalloc [OF k1 2 [unfolded node] size_nodes(2)]
    have f4: "vm_frame s2 s3" "vm_frame s3 s4" "vm_frame s4 s5"
      using vm_frame_get_phys_block [OF 3] vm_frame_phys_bzero [OF 4] vm_frame_page_map_range 5 by (auto split: if_splits)
    have k: "kinv (insert node L) x s3" "kinv (insert node L) x s4" "kinv (insert node L) x s5"
      using k2(1) kinv_vm [OF f4(1)] kinv_vm [OF f4(2)] kinv_vm [OF f4(3)] by simp_all
    have free: "kinv L x (kfree node t)" if "kinv (insert node L) x t" for t
      using kinv_kfree [OF that, of node] k2(2) by simp
    have free2: "kinv L x (kfree node (free_phys_block pa (unat ?np) t))" if "kinv (insert node L) x t" for t
      using free kinv_vm [OF vm_frame_free_phys_block] that by blast
    let ?pm = "\<lparr>mm_node = node, v_addr = ?va, p_addr = pa, mm_size = ?np, flags = mf\<rparr>"
    have heap: "kinv L x t" if "update_proc a (\<lambda>p. p\<lparr>mm_heap := ?pm # mm_heap p\<rparr>) s5 = Some t" for t
      using that kinv_link [OF k(3) k2(2)] by (auto simp: update_proc_eq nodes_def)
    have stack: "kinv L x t" if "update_proc a (\<lambda>p. p\<lparr>mm_stack := ?pm # mm_stack p\<rparr>) s5 = Some t" for t
      using that kinv_link [OF k(3) k2(2)] by (auto simp: update_proc_eq nodes_def)
    have code: "kinv L x (kfree node t)" if "update_proc a (\<lambda>p. p\<lparr>mm_code := ?pm\<rparr>) s5 = Some t" for t
      by (rule free) (rule kinv_update [OF k(3) that], simp_all add: nodes_def)
    show ?thesis
      using r False 1 2 3 4 5 node free [OF k(1)] free2 [OF k(2)] free2 [OF k(3)] heap stack code
      by (auto simp: process_memory_add_def Let_def split: if_splits)
  qed
qed

lemma kinv_mmap:
  assumes s: "kinv L x s" and r: "mmap a addr n prot fl fd off s = Some (v, s')"
  shows "kinv L x s'"
  using r s
  by (auto simp: mmap_def Let_def bind_eq_Some_conv split: if_splits option.splits dest!: kinv_memory_add [OF s])

lemma replace_block_mset:
  assumes "pm \<in> set pms" "distinct (map mm_node pms)"
  shows "add_mset (mm_node pm) (mset (map mm_node (replace_block (mm_node pm) r pms))) = mset (map mm_node r) + mset (map mm_node pms)"
  using assms by (induction pms) (auto simp: image_iff)

lemma block_found: "mmap_get_block p addr = Some (pl, b) \<Longrightarrow>
   (pl = In_heap \<longrightarrow> b \<in> set (mm_heap p)) \<and> (pl = In_stack \<longrightarrow> b \<in> set (mm_stack p))"
  by (auto simp: mmap_get_block_def mmap_get_block_l_def find_Some_iff split: option.splits if_splits)

lemma kinv_swap:
  assumes s: "kinv M x s" and a: "procs s a = Some p" and q: "pid q = pid p" "state q = state p" "father q = father p" "sigs q = sigs p"
    and m: "mset (nodes q) + mset D = mset (nodes p) + mset A" "set A \<subseteq> M" "distinct A"
  shows "kinv ((M - set A) \<union> set D) x (s\<lparr>procs := (procs s)(a \<mapsto> q)\<rparr>)" "(M - set A) \<inter> set D = {}"
proof -
  note p = kinv_nodes [OF s a]
  have "distinct (nodes p @ A)" using p(1,2) m(2,3) by auto
  moreover have "mset (nodes q @ D) = mset (nodes p @ A)" using m(1) by simp
  ultimately have d: "distinct (nodes q @ D)" using mset_eq_imp_distinct_iff by blast
  have set: "set (nodes q) \<union> set D = set (nodes p) \<union> set A" using arg_cong [OF m(1), of set_mset] by simp
  have "kinv ((M \<union> set (nodes p)) - set (nodes q)) x (s\<lparr>procs := (procs s)(a \<mapsto> q)\<rparr>)"
    by (rule kinv_upd [OF s a]) (use q p(3,4) d set m(2) in auto)
  then show "kinv ((M - set A) \<union> set D) x (s\<lparr>procs := (procs s)(a \<mapsto> q)\<rparr>)"
    by (rule kinv_weaken) (use d set p(2) m(2) in auto)
  show "(M - set A) \<inter> set D = {}" using set p(2) m(2) by auto
qed

lemma kinv_kfree_upd:
  assumes "kinv (insert b L) x (t\<lparr>procs := u\<rparr>)" "b \<notin> L"
  shows "kinv L x ((kfree b t)\<lparr>procs := u\<rparr>)"
proof -
  have "hold u (insert b L - {b}) (kfree b t)" by (rule hold_kfree) (use assms(1) in \<open>simp_all add: kinv_def\<close>)
  moreover have "table_ok x ((kfree b t)\<lparr>procs := u\<rparr>) = table_ok x (t\<lparr>procs := u\<rparr>)" by (rule table_ok_cong) simp_all
  ultimately show ?thesis using assms by (simp add: kinv_def)
qed

text \<open>What \<^verbatim>\<open>munmap\<close> does to the list: the block goes or is cut, a new one may come.\<close>

lemma kinv_replace:
  assumes s: "kinv (set A \<union> L) x t" "set A \<inter> L = {}" "distinct A" and a: "procs t a = Some p"
    and q: "q = p\<lparr>mm_heap := replace_block nb r (mm_heap p)\<rparr> \<and> b \<in> set (mm_heap p) \<or>
        q = p\<lparr>mm_stack := replace_block nb r (mm_stack p)\<rparr> \<and> b \<in> set (mm_stack p)" "nb = mm_node b"
    and r: "map mm_node r = (if gone then [] else [nb]) @ A"
  shows "kinv L x ((if gone then kfree nb t else t)\<lparr>procs := (procs t)(a \<mapsto> q)\<rparr>)"
proof -
  have d: "distinct (map mm_node (mm_heap p))" "distinct (map mm_node (mm_stack p))"
    using kinv_nodes(1) [OF s(1) a] by (auto simp: nodes_def)
  have "add_mset nb (mset (nodes q)) = mset (map mm_node r) + mset (nodes p)"
    using q(1)
  proof
    assume h: "q = p\<lparr>mm_heap := replace_block nb r (mm_heap p)\<rparr> \<and> b \<in> set (mm_heap p)"
    show ?thesis using replace_block_mset [of b "mm_heap p" r] h d(1) q(2) by (simp add: nodes_def)
  next
    assume h: "q = p\<lparr>mm_stack := replace_block nb r (mm_stack p)\<rparr> \<and> b \<in> set (mm_stack p)"
    show ?thesis using replace_block_mset [of b "mm_stack p" r] h d(2) q(2) by (simp add: nodes_def)
  qed
  then have m: "mset (nodes q) + mset (if gone then [nb] else []) = mset (nodes p) + mset A" unfolding r by (auto simp: ac_simps split: if_splits)
  have f: "pid q = pid p" "state q = state p" "father q = father p" "sigs q = sigs p" using q(1) by auto
  note k = kinv_swap [OF s(1) a f m _ s(3)]
  have "kinv (L \<union> set (if gone then [nb] else [])) x (t\<lparr>procs := (procs t)(a \<mapsto> q)\<rparr>)"
    by (rule kinv_weaken [OF k(1)]) (use s(2) in auto)
  moreover have "gone \<Longrightarrow> nb \<notin> L" using k(2) s(2) by auto
  ultimately show ?thesis using kinv_kfree_upd [where b = nb and L = L and x = x and t = t] by (cases gone) simp_all
qed

lemma kinv_munmap:
  fixes s :: "'a proc_st_scheme"
  assumes s: "kinv L x s" and r: "munmap a addr n fl s = Some (e, s')"
  shows "kinv L x s'"
proof (cases "n = 0 \<or> addr AND PAGE_FLAG \<noteq> 0 \<or> addr + n \<le> addr \<or> addr + n > mmap_max_addr fl + 4096")
  case True
  then have "munmap a addr n fl s = Some (- EINVAL, s)"
    unfolding munmap_def by (cases "n = 0 \<or> addr AND PAGE_FLAG \<noteq> 0 \<or> addr + n \<le> addr") simp_all
  then show ?thesis using s r by simp
next
  case False
  then obtain p where p: "procs s a = Some p" using r by (auto simp: munmap_def bind_eq_Some_conv)
  show ?thesis
  proof (cases "mmap_get_block p addr")
    case None
    then show ?thesis using False p s r by (auto simp: munmap_def)
  next
    case (Some plb)
    then obtain pl b where b: "mmap_get_block p addr = Some (pl, b)" by (cases plb) auto
    let ?sb = "drop_bit 12 (addr - v_addr b)" and ?np0 = "mmap_get_number_of_page n"
    define np where "np = (if mm_size b - ?sb \<le> ?np0 then mm_size b - ?sb else ?np0)"
    define sa where "sa = mm_size b - np - ?sb"
    define wrong where "wrong = push_bit 12 sa"
    define K where "K = (if sa \<noteq> 0 then kmalloc sizeof_map_memory s else (Some 0, s))"
    define M where "M t = (if a = current t then page_map_range 0 (v_addr b + wrong) PAGE_NOTHING (unat np) t else (0, t))" for t :: "'a proc_st_scheme"
    obtain r1 s1 where 1: "K = (r1, s1)" by fastforce
    note defs = np_def [symmetric] sa_def [symmetric] wrong_def [symmetric] K_def [symmetric] M_def [symmetric]
    have np': "\<not> (n = 0 \<or> addr AND PAGE_FLAG \<noteq> 0 \<or> addr + n \<le> addr)" "\<not> addr + n > mmap_max_addr fl + 4096" using False by blast+
    note body = r [unfolded munmap_def if_not_P [OF np'(1)] if_not_P [OF np'(2)] p Option.bind.simps b option.case prod.case Let_def defs 1 prod.case]
    show ?thesis
    proof (cases r1)
      case None
      then have "s' = s1" "kmalloc sizeof_map_memory s = (None, s1)" using body 1 by (auto simp: K_def split: if_splits)
      then show ?thesis using kinv_kmalloc_None [OF s _ size_nodes(2)] by simp
    next
      case (Some node)
      define A where "A = (if sa \<noteq> 0 then [node] else [])"
      have k1: "kinv (set A \<union> L) x s1" "set A \<inter> L = {}" "procs s1 = procs s"
      proof -
        have "kinv (set A \<union> L) x s1 \<and> set A \<inter> L = {} \<and> procs s1 = procs s"
        proof (cases "sa = 0")
          case True
          then show ?thesis using 1 s by (simp add: A_def K_def)
        next
          case False
          then have "kmalloc sizeof_map_memory s = (Some node, s1)" using 1 Some by (simp add: K_def)
          from kinv_kmalloc [OF s this size_nodes(2)] show ?thesis using False by (simp add: A_def)
        qed
        then show "kinv (set A \<union> L) x s1" "set A \<inter> L = {}" "procs s1 = procs s" by blast+
      qed
      obtain e2 s2 where 2: "M s1 = (e2, s2)" by fastforce
      have f2: "vm_frame s1 s2" using 2 vm_frame_page_map_range by (auto simp: M_def split: if_splits)
      note body = body [unfolded Some option.case 2 prod.case]
      have k2: "kinv (set A \<union> L) x s2" "procs s2 = procs s"
        using k1 kinv_vm [OF f2] heap_frame_proc(1) [OF vm_frame_heap_frame [OF f2]] by simp_all
      show ?thesis
      proof (cases "e2 = 0")
        case e2: False
        then have "s' = s2" using body by simp
        then show ?thesis using kinv_weaken [OF k2(1), of L x] by auto
      next
        case e2: True
        let ?s3 = "free_phys_block (p_addr b + wrong) (unat np) s2"
        let ?after = "if sa \<noteq> 0 then [\<lparr>mm_node = node, v_addr = v_addr b + push_bit 12 (np + ?sb),
            p_addr = p_addr b + push_bit 12 (np + ?sb), mm_size = sa, flags = flags b\<rparr>] else []"
        let ?r = "(if ?sb = 0 then [] else [b\<lparr>mm_size := ?sb\<rparr>]) @ ?after"
        let ?s4 = "if ?sb = 0 then kfree (mm_node b) ?s3 else ?s3"
        have k3: "kinv (set A \<union> L) x ?s3" "procs ?s3 a = Some p" using k2 kinv_vm [where s = s2 and t = "free_phys_block (p_addr b + wrong) (unat np) s2", OF vm_frame_free_phys_block] p by auto
        have r4: "(if pl = In_code \<and> (?sb = 0 \<or> sa \<noteq> 0) then None
           else map_option (Pair 0) (update_proc a (\<lambda>p. case pl of
              In_heap \<Rightarrow> p\<lparr>mm_heap := replace_block (mm_node b) ?r (mm_heap p)\<rparr>
            | In_stack \<Rightarrow> p\<lparr>mm_stack := replace_block (mm_node b) ?r (mm_stack p)\<rparr>
            | In_code \<Rightarrow> p\<lparr>mm_code := b\<lparr>mm_size := ?sb\<rparr>\<rparr>) ?s4)) = Some (e, s')"
          using body e2 by simp
        have p4: "procs ?s4 = procs ?s3" by simp
        have "map mm_node ?r = (if ?sb = 0 then [] else [mm_node b]) @ A" by (simp add: A_def)
        note k4 = kinv_replace [OF k3(1) k1(2) _ k3(2) _ refl this]
        have dA: "distinct A" by (simp add: A_def)
        show ?thesis
        proof (cases pl)
          case In_stack
          then have "s' = ?s4\<lparr>procs := (procs ?s3)(a \<mapsto> p\<lparr>mm_stack := replace_block (mm_node b) ?r (mm_stack p)\<rparr>)\<rparr>"
            using r4 k3(2) by (auto simp: update_proc_def)
          then show ?thesis using k4 [OF dA] block_found [OF b] In_stack by blast
        next
          case In_heap
          then have "s' = ?s4\<lparr>procs := (procs ?s3)(a \<mapsto> p\<lparr>mm_heap := replace_block (mm_node b) ?r (mm_heap p)\<rparr>)\<rparr>"
            using r4 k3(2) by (auto simp: update_proc_def)
          then show ?thesis using k4 [OF dA] block_found [OF b] In_heap by blast
        next
          case In_code
          then have c: "sa = 0" "?sb \<noteq> 0" "update_proc a (\<lambda>p. p\<lparr>mm_code := b\<lparr>mm_size := ?sb\<rparr>\<rparr>) ?s3 = Some s'" using r4 by (auto split: if_splits)
          have "kinv L x ?s3" using k3(1) by (rule kinv_weaken) auto
          then show ?thesis by (rule kinv_update [OF _ c(3)]) (simp_all add: nodes_def)
        qed
      qed
    qed
  qed
qed

subsection \<open>Kernel processes\<close>

lemma vm_frame_virt_memcpy: "virt_memcpy d v n s = Some s' \<Longrightarrow> vm_frame s s'"
proof (induction n arbitrary: d v s)
  case (Suc n)
  obtain b s1 where 1: "virt_write d b s = Some s1" "virt_memcpy (d + 1) (v + 1) n s1 = Some s'"
    using Suc.prems by (auto simp: bind_eq_Some_conv)
  have "vm_frame s s1" using 1(1) by (auto simp: virt_write_def Let_def)
  then show ?case using Suc.IH [OF 1(2)] vm_frame_trans by blast
qed simp

lemma memory_add_frame:
  assumes "process_memory_add a n v mf pf s = Some (e, s')" "procs s a = Some q"
  shows "process_list s' = process_list s" "\<forall>b. b \<noteq> a \<longrightarrow> procs s' b = procs s b" "\<exists>q'. procs s' a = Some q' \<and> pid q' = pid q"
proof -
  let ?np = "pages_from v n" and ?va = "v AND PAGE_ADDR"
  obtain ph s1 where 1: "page_get_phys ?va s = (ph, s1)" by fastforce
  obtain r2 s2 where 2: "kmalloc sizeof_map_memory s1 = (r2, s2)" by fastforce
  obtain pa s3 where 3: "get_phys_block (unat ?np) s2 = (pa, s3)" by fastforce
  obtain e4 s4 where 4: "phys_bzero pa (unat ?np) s3 = (e4, s4)" by fastforce
  obtain e5 s5 where 5: "page_map_range pa ?va mf (unat ?np) s4 = (e5, s5)" by fastforce
  note f = vm_frame_heap_frame [OF vm_frame_page_get_phys [OF 1]] heap_frame_kmalloc [OF 2]
    vm_frame_heap_frame [OF vm_frame_get_phys_block [OF 3]] vm_frame_heap_frame [OF vm_frame_phys_bzero [OF 4]]
    vm_frame_heap_frame [OF vm_frame_page_map_range [OF 5]]
  note p = f [THEN heap_frame_proc(1)] and l = f [THEN heap_frame_proc(2)]
  have "process_list s' = process_list s \<and> (\<forall>b. b \<noteq> a \<longrightarrow> procs s' b = procs s b) \<and> (\<exists>q'. procs s' a = Some q' \<and> pid q' = pid q)"
    using assms 1 2 3 4 5 p l by (cases r2) (auto simp: process_memory_add_def Let_def update_proc_def split: if_splits)
  then show "process_list s' = process_list s" "\<forall>b. b \<noteq> a \<longrightarrow> procs s' b = procs s b" "\<exists>q'. procs s' a = Some q' \<and> pid q' = pid q" by blast+
qed

lemma making_memory_add: "process_memory_add a n v mf pf s = Some (e, s') \<Longrightarrow> procs s a = Some q \<Longrightarrow> making a s s'"
  using memory_add_frame [of a n v mf pf s e s' q] by (auto simp: making_def)

lemma kinv_ini_kern:
  assumes s: "kinv L {} s" and r: "process_ini_kern v f n s = Some (w, s')"
  shows "kinv L {} s'"
proof -
  obtain a s1 where n: "process_new s = (a, s1)" by fastforce
  show ?thesis
  proof (cases "a = 0")
    case True
    then show ?thesis using r n kinv_process_new_None [OF s] by (simp add: process_ini_kern_def)
  next
    case a0: False
    note k1 = kinv_process_new [OF s n a0]
    obtain err i s2 s3 where 2: "process_alloc_pid s1 = Some ((err, i), s2)" and 3: "update_proc a (\<lambda>p. p\<lparr>pid := i\<rparr>) s2 = Some s3"
      using r n a0 by (auto simp: process_ini_kern_def Let_def bind_eq_Some_conv)
    note k2 = kinv_alloc_pid [OF k1(1) 2]
    have a2: "a \<notin> set (process_list s2)" using k1(4,5) k2(3) by simp
    note k3 = kinv_set_pid [OF k2(1) a2 3]
    have s3: "process_list s3 = process_list s" "procs s3 = (procs s)(a \<mapsto> empty_process\<lparr>pid := i\<rparr>)"
      using 3 k1(3,4) k2(2,3) by (auto simp: update_proc_eq)
    have give: "kinv L {} t'" if "kinv L {} t" "making a s3 t" "free_process a t = Some t'" for t t'
      by (rule kinv_give_up [OF that(1) _ a0 that(3)]) (use that(2) s3(1) k1(5) in \<open>simp add: making_def\<close>)
    show ?thesis
    proof (cases "err = 0")
      case False
      then obtain t where "free_process a s3 = Some t" "s' = t" using r n a0 2 3 by (auto simp: process_ini_kern_def Let_def bind_eq_Some_conv)
      then show ?thesis using give [OF k3] by simp
    next
      case err: True
      obtain e1 s4 where 4: "process_memory_add a n v user_flags (PROC_MEM_ADD_IMEDIATE OR PROC_MEM_ADD_CODE) s3 = Some (e1, s4)"
        using r n a0 2 3 err by (auto simp: process_ini_kern_def Let_def bind_eq_Some_conv)
      note k4 = kinv_memory_add [OF k3 4]
      have m4: "making a s3 s4" by (rule making_memory_add [OF 4]) (simp add: s3)
      show ?thesis
      proof (cases "e1 = 0")
        case False
        then obtain t where "free_process a s4 = Some t" "s' = t" using r n a0 2 3 err 4 by (auto simp: process_ini_kern_def Let_def bind_eq_Some_conv)
        then show ?thesis using give [OF k4 m4] by simp
      next
        case e1: True
        obtain s5 where 5: "virt_memcpy (v AND PAGE_ADDR) (f AND PAGE_ADDR) (unat (n + (v AND PAGE_FLAG))) s4 = Some s5"
          using r n a0 2 3 err 4 e1 by (auto simp: process_ini_kern_def Let_def bind_eq_Some_conv)
        note f5 = vm_frame_virt_memcpy [OF 5]
        have k5: "kinv L {} s5" using k4 kinv_vm [OF f5] by simp
        have m5: "making a s3 s5" by (rule making_trans [OF m4 making_heap [OF vm_frame_heap_frame [OF f5]]])
        obtain e2 s6 where 6: "process_memory_add a 4096 (0xC0000000 - 4096) user_flags (PROC_MEM_ADD_IMEDIATE OR PROC_MEM_ADD_STACK) s5 = Some (e2, s6)"
          using r n a0 2 3 err 4 e1 5 by (auto simp: process_ini_kern_def Let_def bind_eq_Some_conv)
        note k6 = kinv_memory_add [OF k5 6]
        obtain q5 where q5: "procs s5 a = Some q5" using making_get [OF m5] s3 by auto
        have m6: "making a s3 s6" by (rule making_trans [OF m5 making_memory_add [OF 6 q5]])
        show ?thesis
        proof (cases "e2 = 0")
          case False
          then obtain t where "free_process a s6 = Some t" "s' = t"
            using r n a0 2 3 err 4 e1 5 6 by (auto simp: process_ini_kern_def Let_def bind_eq_Some_conv)
          then show ?thesis using give [OF k6 m6] by simp
        next
          case e2: True
          obtain s7 where 7: "update_proc a (\<lambda>p. p\<lparr>pregs := kernel_regs v (0xC0000000 - 0x10) zero_regs\<rparr>) s6 = Some s7"
            and s': "s' = s7\<lparr>process_list := a # process_list s7\<rparr>"
            using r n a0 2 3 err 4 e1 5 6 e2 by (auto simp: process_ini_kern_def Let_def bind_eq_Some_conv)
          have k7: "kinv L {} s7" by (rule kinv_update [OF k6 7]) (simp_all add: nodes_def)
          have m7: "making a s3 s7" by (rule making_trans [OF m6 making_update [OF 7]]) simp
          obtain q7 where q7: "procs s7 a = Some q7" "pid q7 = i" using making_get [OF m7] s3 by auto
          have l7: "process_list s7 = process_list s" using m7 s3 by (simp add: making_def)
          have "pid_of s7 b = pid_of s1 b" if "b \<in> set (process_list s)" for b
          proof -
            have "b \<noteq> a" using that k1(5) by auto
            then have "procs s7 b = procs s1 b" using m7 s3(2) k1(3) by (simp add: making_def)
            then show ?thesis by (simp add: pid_of_def)
          qed
          then have fresh: "pid_of s7 ` set (process_list s7) = pid_of s1 ` set (process_list s1)" unfolding l7 k1(4) by (intro image_cong) auto
          have "distinct (process_list s)" using s by (simp add: kinv_def table_ok_def)
          then show ?thesis unfolding s'
            using k2(4) [OF err] fresh k1(5) l7 q7(2) by (intro kinv_enlist [OF k7 q7(1)]) simp_all
        qed
      qed
    qed
  qed
qed

lemma kinv_hlt_create:
  assumes s: "kinv L {} s" and r: "process_hlt_create u s = Some (w, s')"
  shows "kinv L {} s'"
proof -
  obtain r1 s1 where 1: "kmalloc 4096 s = (r1, s1)" by fastforce
  show ?thesis
  proof (cases r1)
    case None
    have "kinv L {} s1" by (rule kinv_kmalloc_None [OF s 1 [unfolded None]]) simp
    then show ?thesis using r 1 None by (simp add: process_hlt_create_def)
  next
    case (Some st)
    have k: "kinv (insert st L) {} s1" "st \<notin> L" using kinv_kmalloc(1,2) [OF s 1 [unfolded Some]] by simp_all
    obtain a s2 where n: "process_new s1 = (a, s2)" by fastforce
    show ?thesis
    proof (cases "a = 0")
      case True
      have "kinv (insert st L - {st}) {} (kfree st s2)"
        by (rule kinv_kfree [OF kinv_process_new_None [OF k(1) n [unfolded True]]]) simp
      then show ?thesis using r 1 Some n True k(2) by (simp add: process_hlt_create_def)
    next
      case False
      have k2: "kinv L {} s2" using kinv_process_new(1) [OF k(1) n False] by (rule kinv_weaken) auto
      obtain s3 where 3: "update_proc a (\<lambda>p. p\<lparr>pregs := kernel_regs u (of_nat st + 4096) (pregs p)\<rparr>) s2 = Some s3" "s' = s3"
        using r 1 Some n False by (auto simp: process_hlt_create_def bind_eq_Some_conv)
      show ?thesis unfolding 3(2) by (rule kinv_update [OF k2 3(1)]) (simp_all add: nodes_def)
    qed
  qed
qed

lemma kinv_init_process:
  assumes s: "kinv L {} s" and r: "init_process i u s = Some (m, s')"
  shows "kinv L {} s'"
proof -
  obtain w s1 where 1: "process_ini_kern i (i + 0xC0000000) 4096 s = Some (w, s1)" using r by (auto simp: init_process_def bind_eq_Some_conv)
  note k1 = kinv_ini_kern [OF s 1]
  show ?thesis
  proof (cases "w = 0")
    case True
    then show ?thesis using r 1 k1 by (simp add: init_process_def)
  next
    case False
    then obtain e s2 h s3 where 2: "process_memory_switch w False s1 = Some (e, s2)" and 3: "process_hlt_create u s2 = Some (h, s3)"
      using r 1 by (auto simp: init_process_def bind_eq_Some_conv)
    have k2: "kinv L {} s2" using k1 kinv_vm [OF vm_frame_memory_switch [OF 2]] by simp
    note k3 = kinv_hlt_create [OF k2 3]
    show ?thesis using r 1 2 3 False k3 by (auto simp: init_process_def Let_def split: if_splits)
  qed
qed

subsection \<open>Steps of the kernel\<close>

text \<open>
  System calls come from processes that are not zombies; the frame of an interrupt is arbitrary. \<open>step_start\<close> and
  \<open>step_map\<close> are what \<^verbatim>\<open>kmain\<close> does to start the shell.
\<close>

definition runs :: "'a proc_st_scheme \<Rightarrow> nat \<Rightarrow> bool" where
  "runs s a \<longleftrightarrow> (case procs s a of None \<Rightarrow> False | Some p \<Rightarrow> state p \<noteq> ZOMBIE)"

inductive kernel_step :: "'a fork_st_scheme \<Rightarrow> 'a fork_st_scheme \<Rightarrow> bool" where
  step_fork: "runs s a \<Longrightarrow> fork a s = Some (r, s') \<Longrightarrow> kernel_step s s'"
| step_exit: "runs s a \<Longrightarrow> exit a status s = Some (c, s') \<Longrightarrow> kernel_step s s'"
| step_waitpid: "runs s a \<Longrightarrow> process_waitpid a n opt s = Some (r, st, s') \<Longrightarrow> kernel_step s s'"
| step_kill: "runs s a \<Longrightarrow> kill a n sig s = Some (r, s') \<Longrightarrow> kernel_step s s'"
| step_signal: "runs s a \<Longrightarrow> signal a sig h s = Some (old, s') \<Longrightarrow> kernel_step s s'"
| step_mmap: "runs s a \<Longrightarrow> mmap a addr n prot fl fd off s = Some (v, s') \<Longrightarrow> kernel_step s s'"
| step_munmap: "runs s a \<Longrightarrow> munmap a addr n fl s = Some (r, s') \<Longrightarrow> kernel_step s s'"
| step_schedule: "switch_process data s = Some (out, s') \<Longrightarrow> kernel_step s s'"
| step_exception: "irq_general d s = Some (irq, s') \<Longrightarrow> kernel_step s s'"
| step_clock: "fst (irq_clock d l s) = Some (irq, s') \<Longrightarrow> kernel_step s s'"
| step_init: "init_process i u s = Some (m, s') \<Longrightarrow> kernel_step s s'"
| step_start: "process_ini_kern v f n s = Some (w, s') \<Longrightarrow> kernel_step s s'"
| step_map: "process_memory_switch a add s = Some (e, s') \<Longrightarrow> kernel_step s s'"

inductive_cases kernel_stepE: "kernel_step s s'"

abbreviation sound :: "'a fork_st_scheme \<Rightarrow> bool" where
  "sound s \<equiv> kinv {} {} s"

lemma sound_step:
  assumes "kernel_step s s'" "sound s"
  shows "sound s'"
  using assms(1)
proof (cases rule: kernel_step.cases)
  case (step_fork a r)
  then obtain p where p: "procs s a = Some p" "state p \<noteq> ZOMBIE" by (auto simp: runs_def split: option.splits)
  show ?thesis by (rule kinv_fork [OF assms(2) step_fork(2) p])
next
  case (step_exit a st c)
  show ?thesis by (rule kinv_exit [OF assms(2) step_exit(2)])
next
  case (step_waitpid a n opt r st)
  show ?thesis by (rule kinv_waitpid [OF assms(2) step_waitpid(2)])
next
  case (step_kill a n sig r)
  show ?thesis by (rule kinv_kill [OF assms(2) step_kill(2)])
next
  case (step_signal a sig h old)
  show ?thesis by (rule kinv_signal [OF assms(2) step_signal(2)])
next
  case (step_mmap a addr n prot fl fd off v)
  show ?thesis by (rule kinv_mmap [OF assms(2) step_mmap(2)])
next
  case (step_munmap a addr n fl r)
  show ?thesis by (rule kinv_munmap [OF assms(2) step_munmap(2)])
next
  case (step_schedule data out)
  show ?thesis using kinv_switch_process [OF step_schedule assms(2)] by simp
next
  case (step_exception d irq)
  show ?thesis by (rule kinv_irq_general [OF assms(2) step_exception])
next
  case (step_clock d l irq)
  then have "switched (Some d) s = Some (irq, s')" by (simp add: irq_clock_def)
  then show ?thesis by (rule kinv_switched [OF assms(2)])
next
  case (step_init i u m)
  show ?thesis by (rule kinv_init_process [OF assms(2) step_init])
next
  case (step_start v f n w)
  show ?thesis by (rule kinv_ini_kern [OF assms(2) step_start])
next
  case (step_map a add e)
  show ?thesis using assms(2) kinv_vm [OF vm_frame_memory_switch [OF step_map]] by simp
qed

lemma sound_reachable: "kernel_step\<^sup>*\<^sup>* s s' \<Longrightarrow> sound s \<Longrightarrow> sound s'"
  by (induction rule: rtranclp_induct) (auto intro: sound_step)

lemma sound_facts:
  assumes "sound s"
  shows "heap_inv s \<and> list_wf s \<and> inj_on (pid_of s) (set (process_list s)) \<and>
    (current s \<noteq> 0 \<longrightarrow> runs s (current s)) \<and> separate (procs s) {} \<and> owned (procs s) \<subseteq> blocks s"
proof -
  have "current s \<noteq> 0 \<longrightarrow> runs s (current s)"
    using assms by (auto simp: kinv_def table_ok_def zombie_def runs_def split: option.splits)
  then show ?thesis using assms kinv_list_wf [OF assms] by (simp add: kinv_def hold_def table_ok_def)
qed

text \<open>The state the boot leaves: a heap in order and no process.\<close>

lemma sound_start:
  assumes "heap_inv s" "procs s = Map.empty" "process_list s = []" "current s = 0" "1 \<le> last_pid s" "last_pid s \<le> 0xfff"
  shows "sound s"
  using assms by (simp add: kinv_def hold_def separate_def owned_def table_ok_def)

text \<open>
  C3. The process table stays sound. Over every sequence of system calls, interrupts, context switches and process starts,
  from a sound state such as the one after the boot (\<open>sound_start\<close>): the heap stays in order, the scheduler's list holds
  living processes, each once, with distinct identifiers between 1 and 4095; the current process, when there is one, is in the
  list and no zombie; and every process structure and list node is a live heap block of its own, so that no
  operation frees a block twice or hands one out that is still in use.
\<close>

theorem process_table_stays_sound:
  assumes "kernel_step\<^sup>*\<^sup>* s s'" "sound s"
  shows "sound s' \<and> heap_inv s' \<and> list_wf s' \<and> inj_on (pid_of s') (set (process_list s')) \<and>
    (\<forall>a \<in> set (process_list s'). 1 \<le> pid_of s' a \<and> pid_of s' a \<le> 0xfff) \<and> (current s' \<noteq> 0 \<longrightarrow> runs s' (current s')) \<and>
    separate (procs s') {} \<and> owned (procs s') \<subseteq> blocks s'"
proof -
  have k: "sound s'" by (rule sound_reachable [OF assms])
  then show ?thesis using sound_facts [OF k] by (simp add: kinv_def table_ok_def)
qed

lemma process_table_stays_sound_witness:
  "\<exists>s'. fork 0xC0510030 demo_fork = Some (2, s') \<and> list_wf s' \<and> inj_on (pid_of s') (set (process_list s'))"
proof -
  obtain s' where s': "fork 0xC0510030 demo_fork = Some (2, s')" using demo_fork_result by blast
  have "runs demo_fork 0xC0510030" by (simp add: runs_def demo_father_def empty_process_def)
  from step_fork [OF this s'] have r: "kernel_step\<^sup>*\<^sup>* demo_fork s'" by blast
  have n: "nodes demo_father = []" by (simp add: nodes_def demo_father_def empty_process_def)
  have "current demo_fork = 0" by (simp add: demo_fork_def sched_st.defs)
  then have "sound demo_fork"
    using demo_fork_heap n
    by (auto simp: kinv_def hold_def separate_def owned_def table_ok_def blocks_def pid_of_def zombie_def demo_father_def empty_process_def)
  from process_table_stays_sound [OF r this] s' show ?thesis by blast
qed

end
