(* ===== verification/Acpi.thy ===== *)
theory Acpi
  imports Process_Create Lib_Mem Descriptors
begin

text \<open>
  Switching the machine off through ACPI (\<^verbatim>\<open>kernel/minishell/cmd/power_off.c\<close>, \<^verbatim>\<open>inc/acpi.h\<close>). The tables of the
  firmware are read byte by byte; a table the kernel copies into its heap is its address and its bytes, and
  reading past the end of the copy, or through a null pointer, has no value. The fields of the packed
  structures are their offsets. What the ports answer is an argument, a function of the number of the
  read.
\<close>

record acpi_st = heap_st +
  SMI_CMD :: u32
  ACPI_ENABLE :: u8
  ACPI_DISABLE :: u8
  PM1a_CNT :: u32
  PM1b_CNT :: u32
  SLP_TYPa :: u16
  SLP_TYPb :: u16
  SLP_EN :: u16
  SCI_EN :: u16
  PM1_CNT_LEN :: u8
  words_out :: "(u32 \<times> u16) list"
  bytes_out :: "(u32 \<times> u8) list"

subsection \<open>Reading\<close>

definition byte_at :: "u8 list \<Rightarrow> nat \<Rightarrow> u8 option" where
  "byte_at tab i = (if i < length tab then Some (tab ! i) else None)"

definition bytes_at :: "u8 list \<Rightarrow> nat \<Rightarrow> nat \<Rightarrow> u8 list option" where
  "bytes_at tab i n = (if i + n \<le> length tab then Some (take n (drop i tab)) else None)"

definition word_of_bytes :: "u8 list \<Rightarrow> u32" where
  "word_of_bytes bs = (\<Sum>k < length bs. push_bit (8 * k) (ucast (bs ! k)))"

definition word_at :: "u8 list \<Rightarrow> nat \<Rightarrow> u32 option" where
  "word_at tab i = map_option word_of_bytes (bytes_at tab i 4)"

definition virt_bytes :: "u32 \<Rightarrow> nat \<Rightarrow> 'a vm_st_scheme \<Rightarrow> u8 list option" where
  "virt_bytes p n s = those (map (\<lambda>k. virt_read (p + of_nat k) s) [0..<n])"

text \<open>The bytes of a physical page that the second window shows.\<close>

definition window_bytes :: "nat \<Rightarrow> nat \<Rightarrow> 'a vm_st_scheme \<Rightarrow> u8 list" where
  "window_bytes delta n s =
     (let f = window_frame (page_swap2 (lay s)) s
      in map (\<lambda>k. ucast (drop_bit (8 * ((delta + k) mod 4)) (pmem s f ((delta + k) div 4)))) [0..<n])"

function copy_phys_loop :: "nat \<Rightarrow> u32 \<Rightarrow> nat \<Rightarrow> u8 list \<Rightarrow> 'a vm_st_scheme \<Rightarrow> (int \<times> u8 list) \<times> 'a vm_st_scheme" where
  "copy_phys_loop delta addr struct_size acc s =
     (if struct_size = 0 \<or> delta \<ge> 4096 then ((0, acc), s)
      else case access_table_with_physical (page_swap2 (lay s)) addr s of (err, s1) \<Rightarrow>
        if err \<noteq> 0 then ((- 1, acc), s1)
        else let to_copy = min struct_size (4096 - delta)
             in copy_phys_loop 0 (addr + 4096) (struct_size - to_copy) (acc @ window_bytes delta to_copy s1) s1)"
  by pat_completeness auto
termination
  by (relation "measure (\<lambda>(delta, addr, n, acc, s). n)") auto

declare copy_phys_loop.simps [simp del]

definition copy_with_physical :: "u32 \<Rightarrow> nat \<Rightarrow> 'a vm_st_scheme \<Rightarrow> (int \<times> u8 list) \<times> 'a vm_st_scheme" where
  "copy_with_physical addr struct_size s =
     copy_phys_loop (unat (addr mod 4096)) (push_bit 12 (drop_bit 12 addr)) struct_size [] s"

subsection \<open>The root pointer\<close>

definition RSDP_SIG :: "u8 list" where "RSDP_SIG = [82, 83, 68, 32, 80, 84, 82, 32]"
definition sizeof_RSDPDescriptor :: nat where "sizeof_RSDPDescriptor = 20"

definition get_ebda :: "'a vm_st_scheme \<Rightarrow> u32 option" where
  "get_ebda s = do {
     bs \<leftarrow> virt_bytes (0x40E + KERNEL_POS) 2 s;
     (let ebda = scast (ucast (word_of_bytes bs) :: u16) :: u32 in Some (push_bit 4 ebda AND 0x000FFFFF)) }"

text \<open>The address of the table, 0 when there is no valid header at the pointer.\<close>

definition acpiCheckRSDPtr :: "u32 \<Rightarrow> 'a vm_st_scheme \<Rightarrow> u32 option" where
  "acpiCheckRSDPtr ptr s = do {
     sg \<leftarrow> virt_bytes ptr 8 s;
     (if sg = RSDP_SIG
      then do {
        bs \<leftarrow> virt_bytes ptr sizeof_RSDPDescriptor s;
        (if sum_list bs = 0 then word_at bs 16 else Some 0) }
      else Some 0) }"

fun rsdp_search :: "nat \<Rightarrow> u32 \<Rightarrow> 'a vm_st_scheme \<Rightarrow> u32 option" where
  "rsdp_search 0 addr s = Some 0"
| "rsdp_search (Suc n) addr s = do {
     r \<leftarrow> acpiCheckRSDPtr addr s;
     (if r \<noteq> 0 then Some r else rsdp_search n (addr + 16) s) }"

text \<open>Every 16 bytes from \<open>0xE0000\<close> to \<open>0x100000\<close>, then in the first 1024 bytes of the extended BIOS data area.\<close>

definition acpiGetRSDPtr :: "'a vm_st_scheme \<Rightarrow> u32 option" where
  "acpiGetRSDPtr s = do {
     r \<leftarrow> rsdp_search 8192 (0x000E0000 + KERNEL_POS) s;
     (if r \<noteq> 0 then Some r
      else do {
        ebda \<leftarrow> get_ebda s;
        rsdp_search 64 (ebda + KERNEL_POS) s }) }"

subsection \<open>Tables\<close>

definition sizeof_ACPISDTHeader :: nat where "sizeof_ACPISDTHeader = 36"

text \<open>0 for a table with the signature whose bytes add up to zero.\<close>

definition acpiCheckHeader :: "u8 list \<Rightarrow> u8 list \<Rightarrow> int option" where
  "acpiCheckHeader tab sg = do {
     h \<leftarrow> bytes_at tab 0 4;
     (if h = sg
      then do {
        len \<leftarrow> word_at tab 4;
        bs \<leftarrow> bytes_at tab 0 (nat (sint len));
        Some (if sum_list bs = 0 then 0 else - 1) }
      else Some (- 1)) }"

text \<open>A table is the address of its copy and the bytes of it, \<open>None\<close> is the null pointer.\<close>

type_synonym table_copy = "(nat \<times> u8 list) option"

definition get_ACPIHeader :: "u32 \<Rightarrow> 'a heap_st_scheme \<Rightarrow> (table_copy \<times> 'a heap_st_scheme) option" where
  "get_ACPIHeader addr s =
     (case kmalloc (of_nat sizeof_ACPISDTHeader) s of
        (None, s1) \<Rightarrow> Some (None, s1)
      | (Some h1, s1) \<Rightarrow>
          (case copy_with_physical addr sizeof_ACPISDTHeader s1 of ((_, b1), s2) \<Rightarrow> do {
             len \<leftarrow> word_at b1 4;
             (let n = of_nat sizeof_ACPISDTHeader + len in
              case kmalloc n s2 of
                (None, s3) \<Rightarrow> Some (None, kfree h1 s3)
              | (Some h, s3) \<Rightarrow>
                  (case copy_with_physical addr (unat n) s3 of ((_, b), s4) \<Rightarrow>
                     Some (Some (h, b), kfree h1 s4))) }))"

definition the_table :: "table_copy \<Rightarrow> u8 list option" where
  "the_table t = map_option snd t"

definition free_table :: "table_copy \<Rightarrow> 'a heap_st_scheme \<Rightarrow> 'a heap_st_scheme" where
  "free_table t s = (case t of None \<Rightarrow> kfree 0 s | Some (h, _) \<Rightarrow> kfree h s)"

subsection \<open>The sleep state\<close>

definition S5_NAME :: "u8 list" where "S5_NAME = [95, 83, 53, 95]"

text \<open>The loop over the DSDT: the place it stops at and what is left of the counter.\<close>

function s5_search :: "u8 list \<Rightarrow> nat \<Rightarrow> int \<Rightarrow> (nat \<times> int) option" where
  "s5_search tab pos dsdtLength =
     (if 0 < dsdtLength
      then do {
        x \<leftarrow> bytes_at tab pos 4;
        (if x = S5_NAME then Some (pos, dsdtLength - 1) else s5_search tab (pos + 1) (dsdtLength - 1)) }
      else Some (pos, dsdtLength - 1))"
  by pat_completeness auto
termination
  by (relation "measure (\<lambda>(tab, pos, n). nat n)") auto

declare s5_search.simps [simp del]

definition skip_prefix :: "u8 list \<Rightarrow> nat \<Rightarrow> nat option" where
  "skip_prefix tab i = do { b \<leftarrow> byte_at tab i; Some (if b = 0x0A then i + 1 else i) }"

definition typ_of :: "u8 \<Rightarrow> u16" where
  "typ_of b = push_bit 10 (scast b)"

text \<open>The two values, \<open>None\<close> inside when the structure is not the expected one.\<close>

definition s5_values :: "u8 list \<Rightarrow> nat \<Rightarrow> (u16 \<times> u16) option option" where
  "s5_values tab p = do {
     b1 \<leftarrow> byte_at tab (p - 1);
     name_ok \<leftarrow> (if b1 = 0x08 then Some True
                 else do { b2 \<leftarrow> byte_at tab (p - 2); Some (b2 = 0x08 \<and> b1 = 92) });
     pkg \<leftarrow> (if name_ok then byte_at tab (p + 4) else Some 0);
     (if name_ok \<and> pkg = 0x12
      then do {
        l \<leftarrow> byte_at tab (p + 5);
        q \<leftarrow> skip_prefix tab (p + 5 + unat (drop_bit 6 (l AND 0xC0)) + 2);
        a \<leftarrow> byte_at tab q;
        q2 \<leftarrow> skip_prefix tab (q + 1);
        b \<leftarrow> byte_at tab q2;
        Some (Some (typ_of a, typ_of b)) }
      else Some None) }"

datatype s5 = S5 u16 u16 | Parse_error | Not_present

definition find_s5 :: "u8 list \<Rightarrow> s5 option" where
  "find_s5 dsdt = do {
     len \<leftarrow> word_at dsdt 4;
     (p, left) \<leftarrow> s5_search dsdt 36 (sint len - 36);
     (if left > 0
      then do { v \<leftarrow> s5_values dsdt p; Some (case v of Some (a, b) \<Rightarrow> S5 a b | None \<Rightarrow> Parse_error) }
      else Some Not_present) }"

subsection \<open>Setting up and switching off\<close>

definition RSDT_SIG :: "u8 list" where "RSDT_SIG = [82, 83, 68, 84]"
definition FACP_SIG :: "u8 list" where "FACP_SIG = [70, 65, 67, 80]"
definition DSDT_SIG :: "u8 list" where "DSDT_SIG = [68, 83, 68, 84]"

text \<open>Where the fields of the packed structure \<^verbatim>\<open>FACP\<close> are.\<close>

definition FACP_DSDT :: nat where "FACP_DSDT = 40"
definition FACP_SMI_CMD :: nat where "FACP_SMI_CMD = 48"
definition FACP_ACPI_ENABLE :: nat where "FACP_ACPI_ENABLE = 52"
definition FACP_ACPI_DISABLE :: nat where "FACP_ACPI_DISABLE = 53"
definition FACP_PM1a_CNT_BLK :: nat where "FACP_PM1a_CNT_BLK = 64"
definition FACP_PM1b_CNT_BLK :: nat where "FACP_PM1b_CNT_BLK = 68"
definition FACP_PM1_CNT_LEN :: nat where "FACP_PM1_CNT_LEN = 89"

text \<open>The registers that the FACP names, and the sleep types.\<close>

definition store_facp :: "u8 list \<Rightarrow> u16 \<Rightarrow> u16 \<Rightarrow> 'a acpi_st_scheme \<Rightarrow> 'a acpi_st_scheme option" where
  "store_facp f a b s = do {
     smi \<leftarrow> word_at f FACP_SMI_CMD;
     en \<leftarrow> byte_at f FACP_ACPI_ENABLE;
     dis \<leftarrow> byte_at f FACP_ACPI_DISABLE;
     pm1a \<leftarrow> word_at f FACP_PM1a_CNT_BLK;
     pm1b \<leftarrow> word_at f FACP_PM1b_CNT_BLK;
     len \<leftarrow> byte_at f FACP_PM1_CNT_LEN;
     Some (s\<lparr>SLP_TYPa := a, SLP_TYPb := b, SMI_CMD := smi, ACPI_ENABLE := en, ACPI_DISABLE := dis,
             PM1a_CNT := pm1a, PM1b_CNT := pm1b, PM1_CNT_LEN := len, SLP_EN := push_bit 13 1, SCI_EN := 1\<rparr>) }"

text \<open>The loop over the tables the RSDT points to, from entry \<open>i\<close>; the flag says whether it found the sleep state.\<close>

fun acpi_entries :: "nat \<Rightarrow> nat \<Rightarrow> u8 list \<Rightarrow> 'a acpi_st_scheme \<Rightarrow> (bool \<times> 'a acpi_st_scheme) option" where
  "acpi_entries 0 i rsbt s = Some (False, printk ''no valid FACP present.'' s)"
| "acpi_entries (Suc n) i rsbt s = do {
     addr \<leftarrow> word_at rsbt (sizeof_ACPISDTHeader + 4 * i);
     (facp, s1) \<leftarrow> get_ACPIHeader addr s;
     f \<leftarrow> the_table facp;
     c \<leftarrow> acpiCheckHeader f FACP_SIG;
     (if c = 0
      then do {
        dsdt_addr \<leftarrow> word_at f FACP_DSDT;
        (dsdt, s2) \<leftarrow> get_ACPIHeader dsdt_addr s1;
        d \<leftarrow> the_table dsdt;
        c2 \<leftarrow> acpiCheckHeader d DSDT_SIG;
        (if c2 = 0
         then do {
           r \<leftarrow> find_s5 d;
           (case r of
              S5 a b \<Rightarrow> do { s3 \<leftarrow> store_facp f a b s2; Some (True, free_table facp (free_table dsdt s3)) }
            | Parse_error \<Rightarrow> acpi_entries n (i + 1) rsbt (free_table facp (free_table dsdt (printk (CHR 0x5C # ''_S5 parse error.'') s2)))
            | Not_present \<Rightarrow> acpi_entries n (i + 1) rsbt (free_table facp (free_table dsdt (printk ''_S5 not present.'' s2)))) }
         else acpi_entries n (i + 1) rsbt (free_table facp (free_table dsdt (printk ''DSDT invalid.'' s2)))) }
      else acpi_entries n (i + 1) rsbt (free_table facp s1)) }"

definition initAcpi :: "'a acpi_st_scheme \<Rightarrow> (int \<times> 'a acpi_st_scheme) option" where
  "initAcpi s = do {
     root \<leftarrow> acpiGetRSDPtr s;
     (rsbt, s1) \<leftarrow> get_ACPIHeader root s;
     ok \<leftarrow> (case rsbt of None \<Rightarrow> Some False | Some (h, b) \<Rightarrow> map_option (\<lambda>c. c = 0) (acpiCheckHeader b RSDT_SIG));
     (found, s2) \<leftarrow>
       (if ok
        then do {
          b \<leftarrow> the_table rsbt;
          len \<leftarrow> word_at b 4;
          acpi_entries (unat ((len - of_nat sizeof_ACPISDTHeader) div 4)) 0 b s1 }
        else Some (False, printk ''no acpi.'' s1));
     Some (if found then 0 else - 1, free_table rsbt (printk (if found then ''ACPI DONE'' else ''ACPI FAIL'') s2)) }"

text \<open>One of the two polling loops, from the counter \<open>i\<close>; \<open>k\<close> counts the reads of ports.\<close>

function poll_enabled :: "(nat \<Rightarrow> u32 \<Rightarrow> u16) \<Rightarrow> u32 \<Rightarrow> u16 \<Rightarrow> nat \<Rightarrow> nat \<Rightarrow> nat \<times> nat" where
  "poll_enabled inw port sci i k =
     (if i < 300 then if inw k port AND sci = 1 then (i, k + 1) else poll_enabled inw port sci (i + 1) (k + 1) else (i, k))"
  by pat_completeness auto
termination
  by (relation "measure (\<lambda>(inw, port, sci, i, k). 300 - i)") auto

declare poll_enabled.simps [simp del]

text \<open>The result, the number of reads and the state.\<close>

definition acpiEnable :: "(nat \<Rightarrow> u32 \<Rightarrow> u16) \<Rightarrow> 'a acpi_st_scheme \<Rightarrow> (int \<times> nat) \<times> 'a acpi_st_scheme" where
  "acpiEnable inw s =
     (if inw 0 (PM1a_CNT s) AND SCI_EN s = 0
      then if SMI_CMD s \<noteq> 0 \<and> ACPI_ENABLE s \<noteq> 0
           then let s1 = s\<lparr>bytes_out := outb (SMI_CMD s) (ACPI_ENABLE s) (bytes_out s)\<rparr>;
                    (i, k) = poll_enabled inw (PM1a_CNT s) (SCI_EN s) 0 1;
                    (i', k') = (if PM1b_CNT s \<noteq> 0 then poll_enabled inw (PM1b_CNT s) (SCI_EN s) i k else (i, k))
                in if i' < 300 then ((0, k'), printk ''enabled acpi.'' s1)
                   else ((- 1, k'), printk ''couldn't enable acpi.'' s1)
           else ((- 1, 1), printk ''no known way to enable acpi.'' s)
      else ((0, 1), printk ''acpi was already enabled.'' s))"

definition outw :: "u32 \<Rightarrow> u16 \<Rightarrow> (u32 \<times> u16) list \<Rightarrow> (u32 \<times> u16) list" where
  "outw ad v l = l @ [(ad, v)]"

definition acpiPowerOff :: "(nat \<Rightarrow> u32 \<Rightarrow> u16) \<Rightarrow> 'a acpi_st_scheme \<Rightarrow> 'a acpi_st_scheme" where
  "acpiPowerOff inw s =
     (if SCI_EN s = 0 then s
      else let s1 = snd (acpiEnable inw s);
               s2 = s1\<lparr>words_out := outw (PM1a_CNT s1) (SLP_TYPa s1 OR SLP_EN s1) (words_out s1)\<rparr>;
               s3 = (if PM1b_CNT s2 \<noteq> 0 then s2\<lparr>words_out := outw (PM1b_CNT s2) (SLP_TYPb s2 OR SLP_EN s2) (words_out s2)\<rparr> else s2)
           in printk ''acpi poweroff failed.'' s3)"

end
