(* ===== verification/Lib_Str.thy ===== *)
theory Lib_Str
  imports Lib_Mem
begin

text \<open>
  The string functions of the kernel's library (\<^verbatim>\<open>lib/str\<close>) on a byte memory. A loop that
  looks for the terminating zero may run past every bound when there is none; it is a
  \<open>partial_function (option)\<close>, and \<open>None\<close> is not returning. The theorems show that the loops
  return on strings (\<open>cstr\<close>). A \<^verbatim>\<open>char\<close> is signed: where the source compares or converts it
  as an \<^verbatim>\<open>int\<close>, the model uses \<open>sint\<close>. \<^verbatim>\<open>int\<close> arithmetic is on 32-bit words.
\<close>

type_synonym i32 = "32 word"

subsection \<open>Length and copying\<close>

partial_function (option) strlen_loop :: "nat \<Rightarrow> nat \<Rightarrow> mem \<Rightarrow> nat option" where
  "strlen_loop s len m = (if m (s + len) \<noteq> 0 then strlen_loop s (len + 1) m else Some len)"

definition strlen :: "nat \<Rightarrow> mem \<Rightarrow> nat option" where
  "strlen s m = strlen_loop s 0 m"

partial_function (option) strcpy_loop :: "nat \<Rightarrow> nat \<Rightarrow> nat \<Rightarrow> nat \<Rightarrow> mem \<Rightarrow> (nat \<times> mem) option" where
  "strcpy_loop dst src i j m =
     (if m (src + j) \<noteq> 0 then strcpy_loop dst src (i + 1) (j + 1) (m(dst + i := m (src + j)))
      else Some (i, m))"

definition strcpy :: "nat \<Rightarrow> nat \<Rightarrow> mem \<Rightarrow> mem option" where
  "strcpy dst src m = do { (i, m') \<leftarrow> strcpy_loop dst src 0 0 m; Some (m'(dst + i := 0)) }"

definition strcat :: "nat \<Rightarrow> nat \<Rightarrow> mem \<Rightarrow> mem option" where
  "strcat dst src m = do {
     i \<leftarrow> strlen_loop dst 0 m;
     (i', m') \<leftarrow> strcpy_loop dst src i 0 m;
     Some (m'(dst + i' := 0)) }"

text \<open>The bounded copying loops end at \<open>n\<close> at the latest. The loop of \<^verbatim>\<open>strlcat\<close> tests the two conditions in the other
  order, so it reads one byte more of the source; memory is total here and the result is the same.\<close>

function bounded_copy :: "nat \<Rightarrow> nat \<Rightarrow> nat \<Rightarrow> nat \<Rightarrow> nat \<Rightarrow> mem \<Rightarrow> nat \<times> mem" where
  "bounded_copy dst src off n j m =
     (if j < n \<and> m (src + j) \<noteq> 0
      then bounded_copy dst src off n (j + 1) (m(dst + (off + j) := m (src + j)))
      else (j, m))"
  by pat_completeness auto
termination
  by (relation "measure (\<lambda>(dst, src, off, n, j, m). n - j)") auto

function pad_zero :: "nat \<Rightarrow> nat \<Rightarrow> nat \<Rightarrow> mem \<Rightarrow> mem" where
  "pad_zero dst n i m = (if i < n then pad_zero dst n (i + 1) (m(dst + i := 0)) else m)"
  by pat_completeness auto
termination
  by (relation "measure (\<lambda>(dst, n, i, m). n - i)") auto

declare bounded_copy.simps [simp del] pad_zero.simps [simp del]

definition strncpy :: "nat \<Rightarrow> nat \<Rightarrow> nat \<Rightarrow> mem \<Rightarrow> mem" where
  "strncpy dst src n m = (case bounded_copy dst src 0 n 0 m of (i, m') \<Rightarrow> pad_zero dst n i m')"

definition strncat :: "nat \<Rightarrow> nat \<Rightarrow> nat \<Rightarrow> mem \<Rightarrow> mem option" where
  "strncat dst src n m = do {
     i \<leftarrow> strlen_loop dst 0 m;
     (let (j, m') = bounded_copy dst src i n 0 m in Some (m'(dst + (i + j) := 0))) }"

definition strlcat :: "nat \<Rightarrow> nat \<Rightarrow> nat \<Rightarrow> mem \<Rightarrow> (nat \<times> mem) option" where
  "strlcat dst src n m = do {
     dst_len \<leftarrow> strlen dst m;
     (if n \<le> dst_len then do { l \<leftarrow> strlen src m; Some (n + l, m) }
      else let (i, m') = bounded_copy dst src dst_len (n - dst_len - 1) 0 m;
               m'' = m'(dst + (dst_len + i) := 0)
           in do { l \<leftarrow> strlen src m''; Some (dst_len + l, m'') }) }"

definition strclr :: "nat \<Rightarrow> mem \<Rightarrow> mem option" where
  "strclr s m = (if s = 0 then Some m else do { n \<leftarrow> strlen s m; Some (bzero s n m) })"

subsection \<open>Comparing\<close>

partial_function (option) strcmp_loop :: "nat \<Rightarrow> nat \<Rightarrow> nat \<Rightarrow> mem \<Rightarrow> nat option" where
  "strcmp_loop s1 s2 i m =
     (if m (s1 + i) \<noteq> 0 \<and> m (s2 + i) \<noteq> 0 \<and> m (s1 + i) = m (s2 + i)
      then strcmp_loop s1 s2 (i + 1) m else Some i)"

definition strcmp :: "nat \<Rightarrow> nat \<Rightarrow> mem \<Rightarrow> int option" where
  "strcmp s1 s2 m = do { i \<leftarrow> strcmp_loop s1 s2 0 m; Some (uint (m (s1 + i)) - uint (m (s2 + i))) }"

function strncmp_loop :: "nat \<Rightarrow> nat \<Rightarrow> nat \<Rightarrow> nat \<Rightarrow> mem \<Rightarrow> nat" where
  "strncmp_loop s1 s2 n i m =
     (if i < n \<and> m (s1 + i) \<noteq> 0 \<and> m (s2 + i) \<noteq> 0 \<and> m (s1 + i) = m (s2 + i)
      then strncmp_loop s1 s2 n (i + 1) m else i)"
  by pat_completeness auto
termination
  by (relation "measure (\<lambda>(s1, s2, n, i, m). n - i)") auto

declare strncmp_loop.simps [simp del]

definition strncmp :: "nat \<Rightarrow> nat \<Rightarrow> nat \<Rightarrow> mem \<Rightarrow> int" where
  "strncmp s1 s2 n m =
     (let i = strncmp_loop s1 s2 n 0 m
      in if i = n then 0 else uint (m (s1 + i)) - uint (m (s2 + i)))"

definition strequ :: "nat \<Rightarrow> nat \<Rightarrow> mem \<Rightarrow> int option" where
  "strequ s1 s2 m =
     (if s1 = 0 \<or> s2 = 0 then Some 0
      else do {
        i \<leftarrow> strcmp_loop s1 s2 0 m; l1 \<leftarrow> strlen s1 m; l2 \<leftarrow> strlen s2 m;
        Some (if i = l1 \<and> i = l2 then 1 else 0) })"

partial_function (option) strnequ_loop :: "nat \<Rightarrow> nat \<Rightarrow> nat \<Rightarrow> nat \<Rightarrow> mem \<Rightarrow> nat option" where
  "strnequ_loop s1 s2 n i m =
     (if m (s1 + i) = m (s2 + i) \<and> m (s1 + i) \<noteq> 0 \<and> m (s2 + i) \<noteq> 0 \<and> i < n
      then strnequ_loop s1 s2 n (i + 1) m else Some i)"

definition strnequ :: "nat \<Rightarrow> nat \<Rightarrow> nat \<Rightarrow> mem \<Rightarrow> int option" where
  "strnequ s1 s2 n m =
     (if s1 = 0 \<or> s2 = 0 then Some 0
      else do {
        i \<leftarrow> strnequ_loop s1 s2 n 0 m; l1 \<leftarrow> strlen s1 m; l2 \<leftarrow> strlen s2 m;
        Some (if (i = l1 \<and> i = l2) \<or> i = n then 1 else 0) })"

subsection \<open>Searching\<close>

text \<open>
  \<^verbatim>\<open>strchr\<close> compares a signed \<^verbatim>\<open>char\<close> with an \<^verbatim>\<open>unsigned char\<close> and adds the index converted to a
  signed \<^verbatim>\<open>char\<close> to the pointer; \<^verbatim>\<open>strrchr\<close> converts it to an \<^verbatim>\<open>unsigned char\<close>. A pointer is an
  integer here, since the offset may be negative.
\<close>

partial_function (option) strchr_loop :: "nat \<Rightarrow> u8 \<Rightarrow> nat \<Rightarrow> mem \<Rightarrow> int option option" where
  "strchr_loop s c i m =
     (if i = 0 \<or> m (s + (i - 1)) \<noteq> 0
      then if sint (m (s + i)) = uint c then Some (Some (int s + sint (of_nat i :: u8)))
           else strchr_loop s c (i + 1) m
      else Some None)"

definition strchr :: "nat \<Rightarrow> u8 \<Rightarrow> mem \<Rightarrow> int option option" where
  "strchr s c m = strchr_loop s c 0 m"

fun strrchr_loop :: "nat \<Rightarrow> u8 \<Rightarrow> nat \<Rightarrow> mem \<Rightarrow> int option" where
  "strrchr_loop s c 0 m = (if sint (m s) = uint c then Some (int s) else None)"
| "strrchr_loop s c (Suc i) m =
     (if sint (m (s + Suc i)) = uint c then Some (int s + uint (of_nat (Suc i) :: u8))
      else strrchr_loop s c i m)"

definition strrchr :: "nat \<Rightarrow> u8 \<Rightarrow> mem \<Rightarrow> int option option" where
  "strrchr s c m = do { i \<leftarrow> strlen s m; Some (strrchr_loop s c i m) }"

text \<open>The inner loop of \<^verbatim>\<open>strstr\<close> and the same with the bound of \<^verbatim>\<open>strnstr\<close>.\<close>

partial_function (option) match_len :: "nat \<Rightarrow> nat \<Rightarrow> nat \<Rightarrow> mem \<Rightarrow> nat option" where
  "match_len big little j m =
     (if m (big + j) \<noteq> 0 \<and> m (little + j) \<noteq> 0 \<and> m (big + j) = m (little + j)
      then match_len big little (j + 1) m else Some j)"

partial_function (option) strstr_loop :: "nat \<Rightarrow> nat \<Rightarrow> nat \<Rightarrow> mem \<Rightarrow> nat option option" where
  "strstr_loop big little i m =
     (if m (big + i) \<noteq> 0
      then do {
        j \<leftarrow> match_len (big + i) little 0 m;
        (if m (little + j) = 0 then Some (Some (big + i)) else strstr_loop big little (i + 1) m) }
      else Some None)"

definition strstr :: "nat \<Rightarrow> nat \<Rightarrow> mem \<Rightarrow> nat option option" where
  "strstr big little m = do {
     l \<leftarrow> strlen little m;
     (if l = 0 then Some (Some big) else strstr_loop big little 0 m) }"

partial_function (option) match_len_n :: "nat \<Rightarrow> nat \<Rightarrow> nat \<Rightarrow> nat \<Rightarrow> nat \<Rightarrow> mem \<Rightarrow> nat option" where
  "match_len_n big little len i j m =
     (if m (big + (i + j)) \<noteq> 0 \<and> m (little + j) \<noteq> 0 \<and> m (big + (i + j)) = m (little + j) \<and> i + j < len
      then match_len_n big little len i (j + 1) m else Some j)"

partial_function (option) strnstr_loop :: "nat \<Rightarrow> nat \<Rightarrow> nat \<Rightarrow> nat \<Rightarrow> mem \<Rightarrow> nat option option" where
  "strnstr_loop big little len i m =
     (if m (big + i) \<noteq> 0
      then do {
        j \<leftarrow> match_len_n big little len i 0 m;
        (if m (little + j) = 0 \<or> j = len then Some (Some (big + i))
         else strnstr_loop big little len (i + 1) m) }
      else Some None)"

definition strnstr :: "nat \<Rightarrow> nat \<Rightarrow> nat \<Rightarrow> mem \<Rightarrow> nat option option" where
  "strnstr big little len m = do {
     l \<leftarrow> strlen little m;
     (if m big \<noteq> 0 \<and> l = 0 then Some (Some big)
      else if len < l then Some None
      else strnstr_loop big little len 0 m) }"

subsection \<open>Every character\<close>

partial_function (option) map_loop :: "(int \<Rightarrow> int) \<Rightarrow> nat \<Rightarrow> nat \<Rightarrow> mem \<Rightarrow> mem option" where
  "map_loop f str i m =
     (if m (str + i) \<noteq> 0 then map_loop f str (i + 1) (m(str + i := of_int (f (sint (m (str + i))))))
      else Some m)"

definition str_tolower :: "nat \<Rightarrow> mem \<Rightarrow> (nat \<times> mem) option" where
  "str_tolower str m = (if str = 0 then Some (0, m) else do { m' \<leftarrow> map_loop tolower str 0 m; Some (str, m') })"

definition str_toupper :: "nat \<Rightarrow> mem \<Rightarrow> (nat \<times> mem) option" where
  "str_toupper str m = (if str = 0 then Some (0, m) else do { m' \<leftarrow> map_loop toupper str 0 m; Some (str, m') })"

partial_function (option) striteri_loop :: "(nat \<Rightarrow> nat \<Rightarrow> mem \<Rightarrow> mem) \<Rightarrow> nat \<Rightarrow> nat \<Rightarrow> mem \<Rightarrow> mem option" where
  "striteri_loop f s i m = (if m (s + i) \<noteq> 0 then striteri_loop f s (i + 1) (f i (s + i) m) else Some m)"

text \<open>A null function pointer is \<open>None\<close>.\<close>

definition striteri :: "nat \<Rightarrow> (nat \<Rightarrow> nat \<Rightarrow> mem \<Rightarrow> mem) option \<Rightarrow> mem \<Rightarrow> mem option" where
  "striteri s f m = (case f of None \<Rightarrow> Some m | Some g \<Rightarrow> if s = 0 then Some m else striteri_loop g s 0 m)"

definition striter :: "nat \<Rightarrow> (nat \<Rightarrow> mem \<Rightarrow> mem) option \<Rightarrow> mem \<Rightarrow> mem option" where
  "striter s f m = striteri s (map_option (\<lambda>g _. g) f) m"

subsection \<open>Numbers\<close>

definition is_atoi_space :: "u8 \<Rightarrow> bool" where
  "is_atoi_space c \<longleftrightarrow> c = 32 \<or> c = 9 \<or> c = 10 \<or> c = 11 \<or> c = 13 \<or> c = 12"

partial_function (option) skip_spaces :: "nat \<Rightarrow> nat \<Rightarrow> mem \<Rightarrow> nat option" where
  "skip_spaces s i m = (if is_atoi_space (m (s + i)) then skip_spaces s (i + 1) m else Some i)"

partial_function (option) atoi_digits :: "nat \<Rightarrow> nat \<Rightarrow> i32 \<Rightarrow> mem \<Rightarrow> i32 option" where
  "atoi_digits s i result m =
     (if m (s + i) \<noteq> 0 \<and> sint (m (s + i)) \<ge> 48 \<and> sint (m (s + i)) \<le> 57
      then atoi_digits s (i + 1) (result * 10 + (scast (m (s + i)) - 48)) m
      else Some result)"

definition atoi :: "nat \<Rightarrow> mem \<Rightarrow> i32 option" where
  "atoi nptr m = do {
     i \<leftarrow> skip_spaces nptr 0 m;
     (let sign = (if m (nptr + i) = 45 then - 1 else 1);
          i' = (if m (nptr + i) = 43 \<or> m (nptr + i) = 45 then i + 1 else i)
      in do { result \<leftarrow> atoi_digits nptr i' 0 m; Some (sign * result) }) }"

definition char_to_base :: "u8 \<Rightarrow> i32" where
  "char_to_base c =
     (if sint c \<ge> 48 \<and> sint c \<le> 57 then scast c - 48
      else if sint c \<ge> 97 \<and> sint c \<le> 102 then scast c - 97 + 10
      else if sint c \<ge> 65 \<and> sint c \<le> 70 then scast c - 65 + 10
      else - 1)"

partial_function (option) atoi_base_loop :: "nat \<Rightarrow> i32 \<Rightarrow> nat \<Rightarrow> i32 \<Rightarrow> mem \<Rightarrow> i32 option" where
  "atoi_base_loop str str_base i res m =
     (if char_to_base (m (str + i)) \<noteq> - 1
      then atoi_base_loop str str_base (i + 1) (res * str_base + char_to_base (m (str + i))) m
      else Some res)"

definition atoi_base :: "nat \<Rightarrow> i32 \<Rightarrow> mem \<Rightarrow> i32 option" where
  "atoi_base str str_base m =
     (let sign = (if m str = 45 then - 1 else 1);
          i = (if m str = 43 \<or> m str = 45 then 1 else 0)
      in do { res \<leftarrow> atoi_base_loop str str_base i 0 m; Some (sign * res) })"

end
