(* ===== verification/Lib_Str_Correct.thy ===== *)
theory Lib_Str_Correct
  imports Lib_Str
begin

text \<open>
  What the string functions compute, in terms of the lists of bytes that the strings are:
  comparison is the lexicographic order, search finds the first occurrence, bounded
  concatenation stays in its buffer, and \<^verbatim>\<open>atoi\<close> reads decimal numbers.
\<close>

definition cstr :: "mem \<Rightarrow> nat \<Rightarrow> u8 list \<Rightarrow> bool" where
  "cstr m p xs \<longleftrightarrow> 0 \<notin> set xs \<and> (\<forall>i < length xs. m (p + i) = xs ! i) \<and> m (p + length xs) = 0"

lemma cstr_at:
  assumes "cstr m p xs" "i < length xs"
  shows "m (p + i) = xs ! i" "xs ! i \<noteq> 0"
  using assms nth_mem [of i xs] unfolding cstr_def by metis+

lemma cstr_end: "cstr m p xs \<Longrightarrow> m (p + length xs) = 0"
  by (simp add: cstr_def)

lemma cstr_nth_append: "cstr m p xs \<Longrightarrow> i \<le> length xs \<Longrightarrow> m (p + i) = (xs @ [0]) ! i"
  by (auto simp: cstr_def nth_append)

lemma cstr_suffix: "cstr m p xs \<Longrightarrow> i \<le> length xs \<Longrightarrow> cstr m (p + i) (drop i xs)"
  by (auto simp: cstr_def add.assoc dest: in_set_dropD)

subsection \<open>Length\<close>

lemma strlen_loop_cstr: "cstr m s xs \<Longrightarrow> i \<le> length xs \<Longrightarrow> strlen_loop s i m = Some (length xs)"
proof (induction "length xs - i" arbitrary: i)
  case 0
  then show ?case using cstr_end [of m s xs] by (subst strlen_loop.simps) auto
next
  case (Suc k)
  then have "m (s + i) \<noteq> 0" using cstr_at [of m s xs i] by simp
  then show ?case using Suc by (subst strlen_loop.simps) simp
qed

lemma strlen_cstr: "cstr m s xs \<Longrightarrow> strlen s m = Some (length xs)"
  by (simp add: strlen_def strlen_loop_cstr)

subsection \<open>Comparing\<close>

fun str_diff :: "u8 list \<Rightarrow> u8 list \<Rightarrow> int" where
  "str_diff [] [] = 0"
| "str_diff [] (y # ys) = - uint y"
| "str_diff (x # xs) [] = uint x"
| "str_diff (x # xs) (y # ys) = (if x = y then str_diff xs ys else uint x - uint y)"

lemma strcmp_loop_cstr:
  assumes "cstr m a xs" "cstr m b ys" "i \<le> length xs" "i \<le> length ys" "take i xs = take i ys"
  shows "\<exists>k. strcmp_loop a b i m = Some k \<and> uint (m (a + k)) - uint (m (b + k)) = str_diff (drop i xs) (drop i ys)"
  using assms
proof (induction "length xs - i" arbitrary: i)
  case 0
  then have "drop i xs = []" "m (a + i) = 0" using cstr_end [of m a xs] by auto
  moreover have "m (b + i) = hd (drop i ys @ [0])"
    using cstr_nth_append [OF 0(3,5)] 0(5) by (simp add: hd_drop_conv_nth hd_append nth_append)
  ultimately show ?case
    by (subst strcmp_loop.simps) (cases "drop i ys"; simp)
next
  case (Suc k)
  then have "i < length xs" by simp
  with Suc have x: "m (a + i) = xs ! i" "m (a + i) \<noteq> 0" "drop i xs = xs ! i # drop (i + 1) xs"
    using cstr_at [of m a xs i] by (auto simp: Cons_nth_drop_Suc)
  show ?case
  proof (cases "i < length ys")
    case False
    then have "drop i ys = []" "m (b + i) = 0" using Suc.prems(2,4) cstr_end [of m b ys] by auto
    with x show ?thesis by (subst strcmp_loop.simps) simp
  next
    case True
    then have y: "m (b + i) = ys ! i" "m (b + i) \<noteq> 0" "drop i ys = ys ! i # drop (i + 1) ys"
      using cstr_at [OF Suc.prems(2) True] by (auto simp: Cons_nth_drop_Suc)
    show ?thesis
    proof (cases "xs ! i = ys ! i")
      case True
      then have "take (i + 1) xs = take (i + 1) ys"
        using Suc.prems(5) \<open>i < length ys\<close> Suc.hyps(2) by (simp add: take_Suc_conv_app_nth)
      then show ?thesis
        using Suc.hyps(1) [of "i + 1"] Suc.hyps(2) Suc.prems(1,2) x y True \<open>i < length ys\<close>
        by (subst strcmp_loop.simps) simp
    next
      case False
      then show ?thesis using x y by (subst strcmp_loop.simps) simp
    qed
  qed
qed

lemma strcmp_cstr: "cstr m a xs \<Longrightarrow> cstr m b ys \<Longrightarrow> strcmp a b m = Some (str_diff xs ys)"
  using strcmp_loop_cstr [of m a xs b ys 0] by (auto simp: strcmp_def)

lemma str_diff_0: "0 \<notin> set xs \<Longrightarrow> 0 \<notin> set ys \<Longrightarrow> str_diff xs ys = 0 \<longleftrightarrow> xs = ys"
  by (induction xs ys rule: str_diff.induct) (auto simp: word_uint_eq_iff)

lemma str_diff_less:
  "0 \<notin> set xs \<Longrightarrow> 0 \<notin> set ys \<Longrightarrow> str_diff xs ys < 0 \<longleftrightarrow> (xs, ys) \<in> lexord {(a, b). a < b}"
proof (induction xs ys rule: str_diff.induct)
  case (2 y ys)
  have "0 < uint y" using 2 by (metis list.set_intros(1) order_le_less uint_0_iff uint_ge_0)
  then show ?case by simp
next
  case (4 x xs y ys)
  then show ?case by (auto simp: word_less_def)
qed (auto simp: uint_ge_0 not_less)

text \<open>On two strings \<^verbatim>\<open>strcmp\<close> returns, its result is 0 exactly when they are equal, and negative
  exactly when the first comes first in the lexicographic order of unsigned bytes.\<close>

theorem strcmp_is_lexicographic:
  assumes "cstr m a xs" "cstr m b ys"
  shows "\<exists>d. strcmp a b m = Some d \<and> (d = 0 \<longleftrightarrow> xs = ys) \<and>
    (d < 0 \<longleftrightarrow> (xs, ys) \<in> lexord {(a, b). a < b})"
  using strcmp_cstr [OF assms] str_diff_0 [of xs ys] str_diff_less [of xs ys] assms by (auto simp: cstr_def)

definition demo_mem :: mem where
  "demo_mem = (\<lambda>_. 0)(100 := 97, 101 := 98, 102 := 200, 110 := 97, 111 := 98, 120 := 98)"

lemma demo_cstr: "cstr demo_mem 100 [97, 98, 200]" "cstr demo_mem 110 [97, 98]" "cstr demo_mem 120 [98]"
  by (auto simp: cstr_def demo_mem_def less_Suc_eq numeral_3_eq_3 nth_Cons')

theorem strcmp_is_lexicographic_witness:
  "\<exists>d. strcmp 110 100 demo_mem = Some d \<and> d < 0"
  using strcmp_is_lexicographic [OF demo_cstr(2,1)] by auto

subsection \<open>Searching\<close>

lemma match_len_cstr:
  assumes "cstr m b xs" "cstr m l ys" "j \<le> length xs" "j \<le> length ys" "take j xs = take j ys"
  shows "\<exists>k \<le> length ys. match_len b l j m = Some k \<and> (m (l + k) = 0 \<longleftrightarrow> take (length ys) xs = ys)"
  using assms
proof (induction "length ys - j" arbitrary: j)
  case 0
  then have "j = length ys" "m (l + j) = 0" using cstr_end [of m l ys] by auto
  with 0 show ?case by (subst match_len.simps) auto
next
  case (Suc k)
  then have j: "j < length ys" by simp
  then have l: "m (l + j) = ys ! j" "m (l + j) \<noteq> 0" using cstr_at [OF Suc.prems(2)] by auto
  show ?case
  proof (cases "j < length xs \<and> xs ! j = ys ! j")
    case True
    then have "m (b + j) = xs ! j" using cstr_at [OF Suc.prems(1)] by auto
    moreover have "take (j + 1) xs = take (j + 1) ys"
      using True Suc.prems(5) j by (simp add: take_Suc_conv_app_nth)
    ultimately show ?thesis
      using Suc.hyps(1) [of "j + 1"] Suc.hyps(2) Suc.prems(1,2) True l j by (subst match_len.simps) simp
  next
    case False
    have stop: "\<not> (m (b + j) \<noteq> 0 \<and> m (b + j) = m (l + j))"
      using False l cstr_at [OF Suc.prems(1), of j] cstr_end [OF Suc.prems(1)] Suc.prems(3)
      by (cases "j = length xs") auto
    have "take (length ys) xs \<noteq> ys"
    proof
      assume eq: "take (length ys) xs = ys"
      then have "length ys \<le> length xs" by (metis length_take min.cobounded1)
      moreover have "xs ! j = ys ! j" using j eq by (metis nth_take)
      ultimately show False using False j by simp
    qed
    then show ?thesis using stop l j by (subst match_len.simps) auto
  qed
qed

lemma strstr_loop_cstr:
  assumes "cstr m b xs" "cstr m l ys" "i \<le> length xs"
  shows "strstr_loop b l i m =
    Some (map_option (\<lambda>k. b + k) (find (\<lambda>k. take (length ys) (drop k xs) = ys) [i..<length xs]))"
  using assms
proof (induction "length xs - i" arbitrary: i)
  case 0
  then show ?case using cstr_end [of m b xs] by (subst strstr_loop.simps) auto
next
  case (Suc k)
  then have i: "i < length xs" by simp
  have c: "cstr m (b + i) (drop i xs)" using cstr_suffix [OF Suc.prems(1,3)] .
  obtain j where j: "match_len (b + i) l 0 m = Some j" "m (l + j) = 0 \<longleftrightarrow> take (length ys) (drop i xs) = ys"
    using match_len_cstr [OF c Suc.prems(2), of 0] by auto
  have "[i..<length xs] = i # [i + 1..<length xs]" using i by (simp add: upt_conv_Cons)
  then show ?case
    using Suc.hyps(1) [of "i + 1"] Suc.hyps(2) Suc.prems j i cstr_at [OF Suc.prems(1) i]
    by (subst strstr_loop.simps) simp
qed

text \<open>On two strings \<^verbatim>\<open>strstr\<close> returns, and its result is the first position of the first string at
  which the second is found, the first string itself when the second is empty, and \<^verbatim>\<open>NULL\<close>
  when there is no such position.\<close>

theorem strstr_first_occurrence:
  assumes "cstr m big xs" "cstr m little ys"
  shows "strstr big little m =
    Some (if ys = [] then Some big
          else map_option (\<lambda>k. big + k) (find (\<lambda>k. take (length ys) (drop k xs) = ys) [0..<length xs]))"
  using strlen_cstr [OF assms(2)] strstr_loop_cstr [OF assms, of 0] by (simp add: strstr_def)

theorem strstr_first_occurrence_witness: "strstr 100 120 demo_mem = Some (Some 101)"
proof -
  have "find (\<lambda>k. take (length [98]) (drop k [97, 98, 200 :: u8]) = [98]) [0..<length [97, 98, 200 :: u8]] = Some 1"
    by (simp add: upt_rec)
  then show ?thesis using strstr_first_occurrence [OF demo_cstr(1,3)] by simp
qed

lemma strchr_loop_before:
  assumes "cstr m s xs" "j \<le> i" "i \<le> length xs" "\<And>k. k < i \<Longrightarrow> sint (m (s + k)) \<noteq> uint c"
    "sint (m (s + i)) = uint c"
  shows "strchr_loop s c j m = Some (Some (int s + sint (of_nat i :: u8)))"
  using assms(2)
proof (induction "i - j" arbitrary: j)
  case 0
  have "i = 0 \<or> m (s + (i - 1)) \<noteq> 0" using cstr_at [OF assms(1), of "i - 1"] assms(3) by (cases i) auto
  with 0 assms(5) show ?case by (subst strchr_loop.simps) auto
next
  case (Suc k)
  have "j = 0 \<or> m (s + (j - 1)) \<noteq> 0" using cstr_at [OF assms(1), of "j - 1"] assms(3) Suc.hyps(2) by (cases j) auto
  with Suc assms(4) [of j] show ?case by (subst strchr_loop.simps) simp
qed

lemma sint_u8: "sint w = (if uint w < 128 then uint w else uint w - 256)" for w :: u8
proof -
  have b: "0 \<le> uint w" "uint w < 256" using uint_bounded [of w] by simp_all
  have s: "sint w = (uint w + 128) mod 256 - 128"
    by (simp add: sint_uint signed_take_bit_eq_take_bit_shift take_bit_eq_mod)
  show ?thesis
  proof (cases "uint w < 128")
    case True
    then show ?thesis using b s by (simp add: mod_pos_pos_trivial)
  next
    case False
    have "(uint w + 128) mod 256 = (uint w - 128 + 256) mod 256" by (simp add: add.commute)
    also have "\<dots> = uint w - 128" using False b by (simp only: mod_add_self2) (simp add: mod_pos_pos_trivial)
    finally show ?thesis using s False by simp
  qed
qed

lemma sint_of_nat_u8: "i < 256 \<Longrightarrow> sint (of_nat i :: u8) = (if i < 128 then int i else int i - 256)"
proof -
  assume "i < 256"
  then have "uint (of_nat i :: u8) = int i" by (simp add: uint_nat unat_of_nat)
  then show ?thesis by (simp add: sint_u8)
qed

text \<open>For a 7-bit character whose first occurrence in a string is at index \<open>i\<close>, below 256, \<^verbatim>\<open>strchr\<close>
  returns, but its result points at the character only when \<open>i\<close> is below 128: the index is
  converted to a signed \<^verbatim>\<open>char\<close> before it is added.\<close>

theorem strchr_correct_below_128:
  assumes "cstr m s xs" "i < length xs" "xs ! i = c" "c \<notin> set (take i xs)" "c < 128" "i < 256"
  shows "strchr s c m = Some (Some (int s + (if i < 128 then int i else int i - 256)))"
proof -
  have same: "sint w = uint c \<longleftrightarrow> w = c" for w :: u8
  proof
    assume "sint w = uint c"
    moreover have "0 \<le> uint c" "uint w < 256" using uint_bounded [of w] by simp_all
    ultimately have "uint w = uint c"
    proof (cases "uint w < 128")
      case False
      with \<open>sint w = uint c\<close> have "uint w - 256 = uint c" by (simp add: sint_u8)
      with \<open>0 \<le> uint c\<close> \<open>uint w < 256\<close> show ?thesis by linarith
    qed (simp add: sint_u8)
    then show "w = c" by (simp add: word_uint_eq_iff)
  next
    assume "w = c"
    have "uint c < 128" using assms(5) by (simp add: word_less_def)
    then show "sint w = uint c" using \<open>w = c\<close> by (simp add: sint_u8)
  qed
  have "m (s + k) \<noteq> c" if "k < i" for k
    using cstr_at [OF assms(1), of k] assms(2,4) that by (auto simp: in_set_conv_nth)
  moreover have "m (s + i) = c" using cstr_at [OF assms(1,2)] assms(3) by simp
  ultimately have "strchr_loop s c 0 m = Some (Some (int s + sint (of_nat i :: u8)))"
    using strchr_loop_before [OF assms(1), of 0 i c] assms(2) same by simp
  then show ?thesis by (simp add: strchr_def sint_of_nat_u8 [OF assms(6)])
qed

theorem strchr_correct_below_128_witness:
  "strchr 1000 98 (\<lambda>a. if 1000 \<le> a \<and> a < 1200 then 97 else if a = 1200 then 98 else 0) = Some (Some 944)"
proof -
  let ?m = "\<lambda>a. if 1000 \<le> a \<and> a < 1200 then 97 else if a = 1200 then 98 else 0 :: u8"
  have c: "cstr ?m 1000 (replicate 200 97 @ [98])" by (auto simp: cstr_def nth_append)
  show ?thesis using strchr_correct_below_128 [OF c, of 200 98] by (simp add: nth_append)
qed

subsection \<open>Bounded concatenation\<close>

lemma bounded_copy_result:
  assumes "cstr m0 src ys" "j \<le> n" "j \<le> length ys"
    "\<And>a. m a = (if dst + off \<le> a \<and> a < dst + (off + j) then ys ! (a - (dst + off)) else m0 a)"
    "\<And>k. k \<le> length ys \<Longrightarrow> src + k < dst + off \<or> dst + (off + n) \<le> src + k"
  shows "\<exists>m'. bounded_copy dst src off n j m = (min n (length ys), m') \<and>
    (\<forall>a. m' a = (if dst + off \<le> a \<and> a < dst + (off + min n (length ys)) then ys ! (a - (dst + off)) else m0 a))"
  using assms(2-4)
proof (induction "n - j" arbitrary: j m)
  case 0
  then have "j = n" "min n (length ys) = n" by auto
  with 0 show ?case by (subst bounded_copy.simps) simp
next
  case (Suc k)
  have less: "j < n" using Suc.hyps(2) by simp
  have src: "m (src + j) = (ys @ [0]) ! j"
    using cstr_nth_append [OF assms(1) Suc.prems(2)] assms(5) [OF Suc.prems(2)] Suc.hyps(2) Suc.prems(3) [of "src + j"]
    by auto
  show ?case
  proof (cases "j < length ys")
    case True
    let ?m = "m(dst + (off + j) := m (src + j))"
    have "?m a = (if dst + off \<le> a \<and> a < dst + (off + (j + 1)) then ys ! (a - (dst + off)) else m0 a)" for a
      using Suc.prems(3) [of a] src True by (auto simp: nth_append)
    then show ?thesis
      using Suc.hyps(1) [of "j + 1" ?m] Suc.hyps(2) less True src cstr_at(2) [OF assms(1) True]
      by (subst bounded_copy.simps) (simp add: nth_append)
  next
    case False
    then have "j = length ys" using Suc.prems(2) by simp
    then show ?thesis using src Suc.prems(3) Suc.hyps(2) by (subst bounded_copy.simps) (simp add: nth_append)
  qed
qed

text \<open>C29. \<^verbatim>\<open>strlcat\<close> on a string that is shorter than the buffer size appends as much of the source as
  fits, leaves a terminated string, writes nothing outside the buffer and returns the length it
  tried to make.\<close>

theorem strlcat_stays_in_buffer:
  assumes "cstr m dst xs" "cstr m src ys" "length xs < n" "src + length ys < dst \<or> dst + n \<le> src"
  shows "\<exists>m'. strlcat dst src n m = Some (length xs + length ys, m') \<and>
    cstr m' dst (xs @ take (n - length xs - 1) ys) \<and> (\<forall>a. a < dst \<or> dst + n \<le> a \<longrightarrow> m' a = m a)"
proof -
  let ?k = "min (n - length xs - 1) (length ys)"
  obtain m1 where m1: "bounded_copy dst src (length xs) (n - length xs - 1) 0 m = (?k, m1)"
    "\<And>a. m1 a = (if dst + length xs \<le> a \<and> a < dst + (length xs + ?k) then ys ! (a - (dst + length xs)) else m a)"
  proof -
    have "m a = (if dst + length xs \<le> a \<and> a < dst + (length xs + 0) then ys ! (a - (dst + length xs)) else m a)" for a
      by auto
    moreover have "src + k < dst + length xs \<or> dst + (length xs + (n - length xs - 1)) \<le> src + k"
      if "k \<le> length ys" for k using assms(3,4) that by auto
    ultimately show ?thesis
      using bounded_copy_result [OF assms(2), of 0 "n - length xs - 1" m dst "length xs"] that by blast
  qed
  let ?m = "m1(dst + (length xs + ?k) := 0)"
  have out: "?m a = m a" if "a < dst \<or> dst + n \<le> a" for a using that assms(3) by (auto simp: m1(2))
  have "cstr ?m src ys"
  proof -
    have "?m (src + k) = m (src + k)" if "k \<le> length ys" for k
      using out [of "src + k"] assms(4) that by (auto simp del: fun_upd_apply)
    then show ?thesis using assms(2) unfolding cstr_def by (metis less_imp_le order_refl)
  qed
  moreover have "cstr ?m dst (xs @ take (n - length xs - 1) ys)"
  proof -
    have "?m (dst + i) = (xs @ take (n - length xs - 1) ys) ! i" if "i < length xs + ?k" for i
      using that assms(1) by (auto simp: m1(2) nth_append cstr_def)
    then show ?thesis
      using assms(1,2) by (auto simp: cstr_def min.commute dest: in_set_takeD)
  qed
  ultimately show ?thesis
    using strlen_cstr [OF assms(1)] strlen_cstr [of ?m src ys] assms(3) m1(1) out
    by (intro exI [of _ ?m] conjI allI impI) (simp_all add: strlcat_def Let_def del: fun_upd_apply)
qed

theorem strlcat_stays_in_buffer_witness:
  "\<exists>m'. strlcat 120 100 3 demo_mem = Some (4, m') \<and> cstr m' 120 [98, 97]"
  using strlcat_stays_in_buffer [OF demo_cstr(3,1), of 3] by auto

subsection \<open>Numbers\<close>

definition digit_char :: "nat \<Rightarrow> u8" where
  "digit_char d = of_nat (48 + d)"

definition decimal :: "nat list \<Rightarrow> nat" where
  "decimal ds = foldl (\<lambda>v d. v * 10 + d) 0 ds"

definition is_digit :: "u8 \<Rightarrow> bool" where
  "is_digit c \<longleftrightarrow> sint c \<ge> 48 \<and> sint c \<le> 57"

lemma digit_char_value:
  assumes "d < 10"
  shows "is_digit (digit_char d)" "digit_char d \<noteq> 0" "(scast (digit_char d) :: i32) - 48 = of_nat d"
proof -
  have s: "sint (digit_char d) = int (48 + d)"
    using assms sint_of_nat_u8 [of "48 + d"] by (simp add: digit_char_def)
  show "is_digit (digit_char d)" using assms s by (simp add: is_digit_def)
  show "digit_char d \<noteq> 0" using s by auto
  show "(scast (digit_char d) :: i32) - 48 = of_nat d" by (simp add: s scast_eq)
qed

lemma atoi_digits_value:
  assumes "\<forall>d \<in> set ds. d < 10" "\<And>k. k < length ds \<Longrightarrow> m (s + (i + k)) = digit_char (ds ! k)"
    "\<not> is_digit (m (s + (i + length ds)))"
  shows "atoi_digits s i r m = Some (foldl (\<lambda>v d. v * 10 + of_nat d) r ds)"
  using assms
proof (induction ds arbitrary: i r)
  case Nil
  then show ?case by (subst atoi_digits.simps) (auto simp: is_digit_def)
next
  case (Cons d ds)
  have c: "m (s + i) = digit_char d" using Cons.prems(2) [of 0] by simp
  have "m (s + (i + 1 + k)) = digit_char (ds ! k)" if "k < length ds" for k
    using Cons.prems(2) [of "Suc k"] that by simp
  then have "atoi_digits s (i + 1) (r * 10 + of_nat d) m = Some (foldl (\<lambda>v d. v * 10 + of_nat d) (r * 10 + of_nat d) ds)"
    using Cons.IH [of "i + 1" "r * 10 + of_nat d"] Cons.prems(1,3) by simp
  then show ?case
    using c digit_char_value [of d] Cons.prems(1) by (subst atoi_digits.simps) (simp add: is_digit_def)
qed

lemma foldl_decimal_word: "foldl (\<lambda>v d. v * 10 + of_nat d) (of_nat r :: i32) ds = of_nat (foldl (\<lambda>v d. v * 10 + d) r ds)"
proof (induction ds arbitrary: r)
  case (Cons d ds)
  have "(of_nat r :: i32) * 10 + of_nat d = of_nat (r * 10 + d)" by simp
  then show ?case using Cons [of "r * 10 + d"] by simp
qed simp

lemma skip_spaces_run:
  assumes "\<And>k. k < n \<Longrightarrow> is_atoi_space (m (s + (i + k)))" "\<not> is_atoi_space (m (s + (i + n)))"
  shows "skip_spaces s i m = Some (i + n)"
  using assms
proof (induction n arbitrary: i)
  case 0
  then show ?case by (subst skip_spaces.simps) simp
next
  case (Suc n)
  have "is_atoi_space (m (s + (i + 1 + k)))" if "k < n" for k using Suc.prems(1) [of "Suc k"] that by simp
  then have "skip_spaces s (i + 1) m = Some (i + 1 + n)" using Suc.IH [of "i + 1"] Suc.prems(2) by simp
  then show ?case using Suc.prems(1) [of 0] by (subst skip_spaces.simps) simp
qed

text \<open>\<^verbatim>\<open>atoi\<close> of white space, an optional sign and decimal digits, followed by a byte that is not a
  digit, returns the number, modulo \<open>2\<^sup>3\<^sup>2\<close>.\<close>

theorem atoi_reads_decimal:
  assumes "\<forall>k < length sp. is_atoi_space (sp ! k)" "sg = [] \<or> sg = [43] \<or> sg = [45]"
    "\<forall>d \<in> set ds. d < 10" "ds \<noteq> []" "\<not> is_digit c"
    "\<forall>k < length (sp @ sg @ map digit_char ds @ [c]). m (s + k) = (sp @ sg @ map digit_char ds @ [c]) ! k"
  shows "atoi s m = Some ((if sg = [45] then - 1 else 1) * of_nat (decimal ds))"
proof -
  let ?w = "sp @ sg @ map digit_char ds @ [c]"
  have w: "m (s + k) = ?w ! k" if "k < length ?w" for k using assms(6) that by blast
  have d0: "hd ds < 10" using assms(3,4) by simp
  have first: "m (s + length sp) = (if sg = [] then digit_char (hd ds) else hd sg)"
    using w [of "length sp"] assms(2,4) by (auto simp: nth_append hd_conv_nth)
  have dig: "is_digit (digit_char (hd ds))" using digit_char_value(1) [OF d0] .
  have nodig: "\<not> is_digit 43" "\<not> is_digit 45" by (simp_all add: is_digit_def)
  have "\<not> is_atoi_space (m (s + length sp))"
    using first dig assms(2) by (auto simp: is_atoi_space_def is_digit_def)
  then have sk: "skip_spaces s 0 m = Some (length sp)"
    using skip_spaces_run [of "length sp" m s 0] assms(1) w by (simp add: nth_append)
  let ?i = "length sp + length sg"
  have "m (s + (?i + k)) = digit_char (ds ! k)" if "k < length ds" for k
    using w [of "?i + k"] that by (simp add: nth_append)
  moreover have "m (s + (?i + length ds)) = c" using w [of "?i + length ds"] by (simp add: nth_append)
  ultimately have "atoi_digits s ?i 0 m = Some (of_nat (decimal ds))"
    using atoi_digits_value [OF assms(3), of m s ?i 0] assms(5) foldl_decimal_word [of 0 ds]
    by (simp add: decimal_def)
  moreover have "digit_char (hd ds) \<noteq> 43" "digit_char (hd ds) \<noteq> 45" using dig nodig by metis+
  ultimately show ?thesis
    using sk first assms(2) by (auto simp: atoi_def Let_def)
qed

theorem atoi_reads_decimal_witness:
  "atoi 50 (\<lambda>a. [32, 45, 52, 50, 0] ! (a - 50)) = Some (- 42)"
proof -
  have e: "[32] @ [45] @ map digit_char [4, 2] @ [0] = [32, 45, 52, 50, 0 :: u8]" by (simp add: digit_char_def)
  have "\<not> is_digit 0" by (simp add: is_digit_def)
  from atoi_reads_decimal [of "[32]" "[45]" "[4, 2]" 0 "\<lambda>a. [32, 45, 52, 50, 0] ! (a - 50)" 50] this
  show ?thesis unfolding e by (simp add: is_atoi_space_def decimal_def)
qed

end
