(* ===== verification/Printk.thy ===== *)
theory Printk
  imports Lib_Str_Correct Terminal "HOL-Library.Signed_Division"
begin

text \<open>
  Formatted output (\<^verbatim>\<open>lib/printk\<close>, \<^verbatim>\<open>kernel/io/printk.c\<close>, \<^verbatim>\<open>kernel/vga/print_initialize_status.c\<close>). A format is the list of
  its bytes up to the zero; the pointer that walks over it is the rest of the list. The variable
  arguments are a list of words and strings, and taking one that is not there or of the other kind has no value.
  The writer is what it was given to write, a list of bytes, since the kernel's writer does nothing but
  \<^verbatim>\<open>tty_putchar\<close> on one terminal for each of them. The number is converted in a byte memory, because the code reads
  back what its buffer holds. On this machine \<^verbatim>\<open>int\<close>, \<^verbatim>\<open>long\<close>, \<^verbatim>\<open>size_t\<close> and pointers have 4 bytes, and
  \<^verbatim>\<open>int\<close> arithmetic is on 32-bit words.
\<close>

subsection \<open>Numbers\<close>

definition itoa_stack_max_len :: "nat \<Rightarrow> mem \<Rightarrow> nat option" where
  "itoa_stack_max_len str m = strlen_loop str 0 m"

text \<open>With fewer than two characters in the set the recursion would not end.\<close>

partial_function (option) itoa_stack_max_rec :: "nat \<Rightarrow> u32 \<Rightarrow> u8 list \<Rightarrow> mem \<Rightarrow> (nat \<times> mem) option" where
  "itoa_stack_max_rec nbr_buff nb char_set m =
     do { (i, m1) \<leftarrow> (if nb \<ge> of_nat (length char_set)
                    then itoa_stack_max_rec nbr_buff (nb div of_nat (length char_set)) char_set m
                    else Some (0, m));
          Some (i + 1, m1(nbr_buff + i := char_set ! unat (nb mod of_nat (length char_set)))) }"

text \<open>The branch for numbers that are unsigned or not negative.\<close>

definition itoa_unsigned :: "nat \<Rightarrow> u32 \<Rightarrow> u8 list \<Rightarrow> mem \<Rightarrow> (int \<times> mem) option" where
  "itoa_unsigned nbr_buff nb char_set m =
     do { (last_write, m1) \<leftarrow> itoa_stack_max_rec nbr_buff nb char_set m;
          Some (int last_write, m1(nbr_buff + last_write := 0)) }"

definition itoa_stack_max :: "nat \<Rightarrow> u8 \<Rightarrow> u32 \<Rightarrow> u8 list \<Rightarrow> mem \<Rightarrow> (int \<times> mem) option" where
  "itoa_stack_max nbr_buff is_unsigned nb char_set m =
     (let len_charset = length char_set in
      if len_charset \<le> 1 then Some (- 1, m)
      else if is_unsigned = 0 \<and> sint nb < 0
      then let m1 = m(nbr_buff := 45);
               new_nb = (- nb) div of_nat len_charset
           in do {
                (r, m2) \<leftarrow> (if new_nb > 0
                            then itoa_unsigned (nbr_buff + 1) (of_int (- (sint nb sdiv int len_charset))) char_set m1
                            else Some (0, m1));
                last_write \<leftarrow> itoa_stack_max_len nbr_buff m2;
                (let d = (of_int (- (sint nb smod int len_charset)) + of_nat len_charset :: u32) mod of_nat len_charset
                 in Some (int (last_write + 1),
                      m2(nbr_buff + last_write := char_set ! unat d, nbr_buff + (last_write + 1) := 0))) }
      else itoa_unsigned nbr_buff nb char_set m)"

subsection \<open>Directives\<close>

datatype printk_para_family = PRINTK_NONE | PRINTK_STRING | PRINTK_CHAR | PRINTK_FULL_MACRO | PRINTK_INT

record printk_para =
  pp_type :: printk_para_family
  pp_size :: nat
  pp_is_unsigned :: u8
  pp_char_set :: "u8 list"
  pp_prefix :: "u8 list"
  pp_display_prefix :: u8

datatype va_arg = Word u32 | Str "u8 list"

definition DEC :: "u8 list" where "DEC = [48, 49, 50, 51, 52, 53, 54, 55, 56, 57]"
definition OCT :: "u8 list" where "OCT = [48, 49, 50, 51, 52, 53, 54, 55]"
definition BIN :: "u8 list" where "BIN = [48, 49]"
definition HEX :: "u8 list" where "HEX = DEC @ [97, 98, 99, 100, 101, 102]"
definition HEX_UP :: "u8 list" where "HEX_UP = DEC @ [65, 66, 67, 68, 69, 70]"

text \<open>The size modifiers \<^verbatim>\<open>hh\<close>, \<^verbatim>\<open>h\<close>, \<^verbatim>\<open>l\<close>, \<^verbatim>\<open>t\<close>, \<^verbatim>\<open>z\<close>; every entry of the table is tried, in this order.\<close>

definition size_table :: "(u8 list \<times> nat) list" where
  "size_table = [([104, 104], 1), ([104], 1), ([108], 4), ([116], 4), ([122], 4)]"

fun para_size_loop :: "(u8 list \<times> nat) list \<Rightarrow> u8 list \<Rightarrow> printk_para \<Rightarrow> u8 list \<times> printk_para" where
  "para_size_loop [] fmt para = (fmt, para)"
| "para_size_loop ((md, sz) # tab) fmt para =
     (if take (length md) fmt = md then para_size_loop tab (drop (length md) fmt) (para\<lparr>pp_size := sz\<rparr>)
      else para_size_loop tab fmt para)"

definition printk_para_size :: "u8 list \<Rightarrow> printk_para \<Rightarrow> u8 list \<times> printk_para" where
  "printk_para_size fmt para = para_size_loop size_table fmt para"

text \<open>The conversions \<^verbatim>\<open>d b i o u x p X D O c C % s S\<close>: kind, signedness, size, digits, prefix, whether the
  prefix is displayed.\<close>

definition conv_table :: "(u8 \<times> printk_para_family \<times> u8 \<times> nat \<times> u8 list \<times> u8 list \<times> u8) list" where
  "conv_table = [
     (100, PRINTK_INT, 0, 0, DEC, [], 0),
     (98, PRINTK_INT, 1, 0, BIN, [48, 98], 1),
     (105, PRINTK_INT, 0, 0, DEC, [], 0),
     (111, PRINTK_INT, 1, 0, OCT, [48], 0),
     (117, PRINTK_INT, 1, 0, DEC, [], 0),
     (120, PRINTK_INT, 1, 0, HEX, [48, 120], 0),
     (112, PRINTK_INT, 1, 4, HEX, [48, 120], 1),
     (88, PRINTK_INT, 1, 0, HEX_UP, [48, 88], 0),
     (68, PRINTK_INT, 1, 4, DEC, [], 0),
     (79, PRINTK_INT, 1, 4, OCT, [], 0),
     (99, PRINTK_CHAR, 0, 0, [], [], 0),
     (67, PRINTK_CHAR, 0, 4, [], [], 0),
     (37, PRINTK_FULL_MACRO, 0, 0, [], [37], 1),
     (115, PRINTK_STRING, 0, 0, [], [], 0),
     (83, PRINTK_STRING, 0, 4, [], [], 0)]"

fun para_conv_loop ::
  "(u8 \<times> printk_para_family \<times> u8 \<times> nat \<times> u8 list \<times> u8 list \<times> u8) list \<Rightarrow> u8 list \<Rightarrow> printk_para \<Rightarrow>
   int \<times> u8 list \<times> printk_para" where
  "para_conv_loop [] fmt para = (1, fmt, para)"
| "para_conv_loop ((c, ty, un, sz, cs, pre, dp) # tab) fmt para =
     (case fmt of
        [] \<Rightarrow> para_conv_loop tab fmt para
      | f # rest \<Rightarrow>
          if c = f
          then let p1 = para\<lparr>pp_type := ty, pp_is_unsigned := un\<rparr>
               in if sz \<noteq> 0 \<and> pp_size para \<noteq> 4 then (- 1, fmt, p1)
                  else let p2 = (if sz \<noteq> 0 then p1\<lparr>pp_size := sz\<rparr> else p1);
                           p3 = p2\<lparr>pp_char_set := cs, pp_prefix := pre\<rparr>
                       in (0, rest, if dp \<noteq> 0 then p3\<lparr>pp_display_prefix := dp\<rparr> else p3)
          else para_conv_loop tab fmt para)"

definition printk_para_conv :: "u8 list \<Rightarrow> printk_para \<Rightarrow> int \<times> u8 list \<times> printk_para" where
  "printk_para_conv fmt para = para_conv_loop conv_table fmt para"

text \<open>The string a buffer holds, as \<^verbatim>\<open>write_str\<close> reads it.\<close>

definition string_at :: "nat \<Rightarrow> mem \<Rightarrow> u8 list option" where
  "string_at p m = map_option (\<lambda>n. map (\<lambda>k. m (p + k)) [0..<n]) (strlen_loop p 0 m)"

text \<open>The result is the number returned, the bytes written and the arguments left. The buffer of the
  number is zero at first and lies at address 0 of a memory of its own.\<close>

definition printk_para_display :: "va_arg list \<Rightarrow> printk_para \<Rightarrow> (int \<times> u8 list \<times> va_arg list) option" where
  "printk_para_display ap para =
     (let pre = (if pp_display_prefix para \<noteq> 0 then pp_prefix para else []);
          ret = int (length pre)
      in case pp_type para of
           PRINTK_STRING \<Rightarrow>
             if pp_size para \<noteq> 4 then Some (- 1, pre, ap)
             else (case ap of Str x # ap' \<Rightarrow> Some (int (length x) + ret, pre @ x, ap') | _ \<Rightarrow> None)
         | PRINTK_CHAR \<Rightarrow>
             if pp_size para \<noteq> 4 then Some (- 1, pre, ap)
             else (case ap of Word w # ap' \<Rightarrow> Some (1 + ret, pre @ [ucast w], ap') | _ \<Rightarrow> None)
         | PRINTK_FULL_MACRO \<Rightarrow> Some (ret, pre, ap)
         | PRINTK_INT \<Rightarrow>
             if pp_size para \<notin> {1, 2, 4} then Some (- 1, pre, ap)
             else (case ap of
                Word nb # ap' \<Rightarrow> do {
                  (r, m) \<leftarrow> itoa_stack_max 0 (pp_is_unsigned para) nb (pp_char_set para) (\<lambda>_. 0);
                  x \<leftarrow> string_at 0 m;
                  Some (int (length x) + ret, pre @ x, ap') }
              | _ \<Rightarrow> None)
         | PRINTK_NONE \<Rightarrow> Some (0, pre, ap))"

subsection \<open>Formats\<close>

definition para_init :: printk_para where
  "para_init = \<lparr>pp_type = PRINTK_NONE, pp_size = 4, pp_is_unsigned = 0, pp_char_set = [], pp_prefix = [], pp_display_prefix = 0\<rparr>"

text \<open>The number, the rest of the format, the bytes written, the arguments left.\<close>

definition printk_display :: "u8 list \<Rightarrow> va_arg list \<Rightarrow> (int \<times> u8 list \<times> u8 list \<times> va_arg list) option" where
  "printk_display fmt ap =
     (case printk_para_size fmt para_init of (fmt1, para1) \<Rightarrow>
      case printk_para_conv fmt1 para1 of (e, fmt2, para2) \<Rightarrow>
        if e \<noteq> 0 then Some (- 1, fmt2, [], ap)
        else (case printk_para_display ap para2 of
                None \<Rightarrow> None
              | Some (r, out, ap') \<Rightarrow> Some (if r < 0 then - 1 else 0, fmt2, out, ap')))"

lemma length_para_size: "length (fst (para_size_loop tab fmt para)) \<le> length fmt"
  by (induction tab fmt para rule: para_size_loop.induct) auto

lemma length_para_conv: "length (fst (snd (para_conv_loop tab fmt para))) \<le> length fmt"
  by (induction tab fmt para rule: para_conv_loop.induct) (auto simp: Let_def split: list.split)

lemma printk_display_shorter:
  assumes "printk_display fmt ap = Some (r, fmt', out, ap')"
  shows "length fmt' \<le> length fmt"
proof -
  obtain fmt1 para1 where 1: "printk_para_size fmt para_init = (fmt1, para1)" by (cases "printk_para_size fmt para_init")
  obtain e fmt2 para2 where 2: "printk_para_conv fmt1 para1 = (e, fmt2, para2)" by (cases "printk_para_conv fmt1 para1")
  have "length fmt1 \<le> length fmt" using length_para_size [of size_table fmt para_init] 1 by (simp add: printk_para_size_def)
  moreover have "length fmt2 \<le> length fmt1"
    using length_para_conv [of conv_table fmt1 para1] 2 by (simp add: printk_para_conv_def)
  moreover have "fmt' = fmt2" using assms 1 2 by (auto simp: printk_display_def split: if_splits option.splits)
  ultimately show ?thesis by simp
qed

definition BAD_FORMAT :: "u8 list" where
  "BAD_FORMAT = [66, 65, 68, 32, 80, 82, 73, 78, 84, 75, 32, 70, 79, 82, 77, 65, 84, 32, 33]"

text \<open>The number returned, as a \<^verbatim>\<open>size_t\<close>, and the bytes written.\<close>

function wvprintk :: "u8 list \<Rightarrow> va_arg list \<Rightarrow> u32 \<Rightarrow> (u32 \<times> u8 list) option" where
  "wvprintk [] ap ret = Some (ret, [])"
| "wvprintk (c # fmt) ap ret =
     (if c = 37
      then case printk_display fmt ap of
             None \<Rightarrow> None
           | Some (tmp, fmt', out, ap') \<Rightarrow>
               if tmp < 0 then Some (- 1, out @ BAD_FORMAT)
               else map_option (\<lambda>(r, rest). (r, out @ rest)) (wvprintk fmt' ap' (ret + of_int tmp))
      else map_option (\<lambda>(r, rest). (r, c # rest)) (wvprintk fmt ap ret))"
  by pat_completeness auto
termination
  by (relation "measure (\<lambda>(fmt, ap, ret). length fmt)") (auto dest: printk_display_shorter)

definition wprintk :: "u8 list \<Rightarrow> va_arg list \<Rightarrow> (u32 \<times> u8 list) option" where
  "wprintk fmt ap = wvprintk fmt ap 0"

subsection \<open>The kernel's output\<close>

text \<open>\<^verbatim>\<open>vprintk\<close> and with it \<^verbatim>\<open>printk\<close> write to the terminal that is current when they start.\<close>

definition vprintk :: "u8 list \<Rightarrow> va_arg list \<Rightarrow> 'a tty_st_scheme \<Rightarrow> (u32 \<times> 'a tty_st_scheme) option" where
  "vprintk fmt ap s =
     do { (r, out) \<leftarrow> wvprintk fmt ap 0;
          s1 \<leftarrow> tty_write (current_tty s) out s;
          Some (r, s1) }"

text \<open>The pieces of \<^verbatim>\<open>print_initialize_status\<close>, which pads the name to 59 columns.\<close>

definition say :: "u8 list \<Rightarrow> va_arg list \<Rightarrow> 'a tty_st_scheme \<Rightarrow> 'a tty_st_scheme option" where
  "say fmt ap s = map_option snd (vprintk fmt ap s)"

fun pad :: "nat \<Rightarrow> 'a tty_st_scheme \<Rightarrow> 'a tty_st_scheme option" where
  "pad 0 s = Some s"
| "pad (Suc n) s = do { s1 \<leftarrow> say [32] [] s; pad n s1 }"

definition print_initialize_status :: "u8 list \<Rightarrow> bool \<Rightarrow> 'a tty_st_scheme \<Rightarrow> 'a tty_st_scheme option" where
  "print_initialize_status init ok s = do {
     s1 \<leftarrow> say [37, 115, 32, 105, 110, 105, 116, 32, 46, 32, 46, 32, 46] [Str init] s;
     s2 \<leftarrow> pad (59 - length init) s1;
     s3 \<leftarrow> say [91, 32] [] s2;
     s4 \<leftarrow> (if ok
            then say [68, 79, 78, 69] [] (tty_setcolor 0 (vga_entry_color VGA_COLOR_LIGHT_GREEN VGA_COLOR_BLACK) s3)
            else say [70, 65, 73, 76] [] (tty_setcolor 0 (vga_entry_color VGA_COLOR_LIGHT_RED VGA_COLOR_BLACK) s3));
     say [32, 93, 10] [] (tty_setcolor 0 (vga_entry_color VGA_COLOR_LIGHT_GREY VGA_COLOR_BLACK) s4) }"

end
