(* ===== verification/Printk_Correct.thy ===== *)
theory Printk_Correct
  imports Printk
begin

text \<open>
  What formatted output prints: the numerals of \<open>itoa_stack_max\<close>, which \<open>atoi\<close> reads back, and the
  text of a format, piece by piece.
\<close>

subsection \<open>Numerals\<close>

fun digits :: "nat \<Rightarrow> nat \<Rightarrow> nat list" where
  "digits b n = (if b \<le> 1 \<or> n < b then [n mod b] else digits b (n div b) @ [n mod b])"

declare digits.simps [simp del]

lemma digits_less: "1 < b \<Longrightarrow> \<forall>d \<in> set (digits b n). d < b"
  by (induction b n rule: digits.induct) (subst digits.simps, auto)

lemma digits_not_Nil [simp]: "digits b n \<noteq> []"
  by (subst digits.simps) simp

lemma digits_value: "1 < b \<Longrightarrow> foldl (\<lambda>v d. v * b + d) 0 (digits b n) = n"
  by (induction b n rule: digits.induct) (subst digits.simps, auto)

lemma digits_split: "1 < b \<Longrightarrow> b \<le> n \<Longrightarrow> digits b n = digits b (n div b) @ [n mod b]"
  by (subst digits.simps) simp

lemma digits_one: "n < b \<Longrightarrow> digits b n = [n]"
  by (subst digits.simps) simp

definition numeral_of :: "u8 list \<Rightarrow> nat \<Rightarrow> u8 list" where
  "numeral_of cs n = map ((!) cs) (digits (length cs) n)"

definition written :: "nat \<Rightarrow> u8 list \<Rightarrow> mem \<Rightarrow> mem" where
  "written p xs m = (\<lambda>a. if p \<le> a \<and> a < p + length xs then xs ! (a - p) else m a)"

lemma written_snoc: "(written p xs m)(p + length xs := c) = written p (xs @ [c]) m"
  by (auto simp: written_def fun_eq_iff nth_append less_Suc_eq)

lemma rec_writes:
  assumes "1 < length cs" "length cs \<le> 256"
  shows "itoa_stack_max_rec buf nb cs m = Some (length (numeral_of cs (unat nb)), written buf (numeral_of cs (unat nb)) m)"
proof (induction "unat nb" arbitrary: nb rule: less_induct)
  case less
  let ?b = "of_nat (length cs) :: u32"
  have b: "unat ?b = length cs" using assms by (simp add: unat_of_nat)
  have d: "unat (nb div ?b) = unat nb div length cs" "unat (nb mod ?b) = unat nb mod length cs"
    using b by (simp_all add: unat_div unat_mod)
  show ?case
  proof (cases "?b \<le> nb")
    case True
    then have n: "length cs \<le> unat nb" using b by (simp add: word_le_nat_alt)
    then have "unat (nb div ?b) < unat nb" using assms d by simp
    from less [OF this] True d digits_split [OF assms(1) n] show ?thesis
      by (subst itoa_stack_max_rec.simps) (simp add: numeral_of_def written_snoc [symmetric])
  next
    case False
    then have n: "unat nb < length cs" using b by (simp add: word_le_nat_alt)
    with False d show ?thesis
      by (subst itoa_stack_max_rec.simps)
         (auto simp: numeral_of_def digits_one written_def fun_eq_iff)
  qed
qed

lemma unsigned_writes:
  "1 < length cs \<Longrightarrow> length cs \<le> 256 \<Longrightarrow>
   itoa_unsigned buf nb cs m = Some (int (length (numeral_of cs (unat nb))), written buf (numeral_of cs (unat nb) @ [0]) m)"
  by (simp add: itoa_unsigned_def rec_writes written_snoc)

lemma written_at: "k < length xs \<Longrightarrow> written p xs m (p + k) = xs ! k"
  by (simp add: written_def)

lemma numeral_set: "1 < length cs \<Longrightarrow> set (numeral_of cs n) \<subseteq> set cs"
  unfolding numeral_of_def using digits_less [of "length cs" n] by (auto intro: nth_mem)

lemma numeral_no_0: "1 < length cs \<Longrightarrow> 0 \<notin> set cs \<Longrightarrow> 0 \<notin> set (numeral_of cs n)"
  using numeral_set by blast

lemma written_cstr: "0 \<notin> set xs \<Longrightarrow> cstr (written p (xs @ [0]) m) p xs"
  by (auto simp: cstr_def written_def nth_append)

lemma numeral_split:
  "1 < length cs \<Longrightarrow> length cs \<le> n \<Longrightarrow> numeral_of cs n = numeral_of cs (n div length cs) @ [cs ! (n mod length cs)]"
  by (simp add: numeral_of_def digits_split)

lemma written_twice:
  "(written (p + 1) (xs @ [0]) (m(p := c)))(p + (length xs + 1) := d, p + (length xs + 2) := e) = written p (c # xs @ [d, e]) m"
  by (auto simp: written_def fun_eq_iff nth_append nth_Cons' less_Suc_eq)

text \<open>The arithmetic of the branch for negative numbers.\<close>

lemma negative_parts:
  fixes nb :: u32
  assumes "sint nb < 0" "1 < b" "b \<le> 256"
  defines "a \<equiv> nat (- sint nb)"
  shows "unat ((- nb) div of_nat b) = a div b"
    "unat (of_int (- (sint nb sdiv int b)) :: u32) = a div b"
    "unat ((of_int (- (sint nb smod int b)) + of_nat b :: u32) mod of_nat b) = a mod b"
proof -
  have s: "sint nb = - int a" and apos: "a > 0" using assms(1) by (simp_all add: a_def)
  have "sint nb \<ge> - (2 ^ 31)" using sint_ge [of nb] by simp
  then have amax: "a \<le> 2 ^ 31" by (simp add: a_def nat_le_iff)
  have b: "unat (of_nat b :: u32) = b" using assms(3) by (simp add: unat_of_nat)
  have "nb = of_int (sint nb)" by simp
  then have "nb = - of_nat a" by (simp only: s of_int_minus of_int_of_nat_eq)
  then have "- nb = of_nat a" by simp
  then have n: "unat (- nb) = a" using amax by (simp add: unat_of_nat)
  show "unat ((- nb) div of_nat b) = a div b" by (simp add: unat_div n b)
  have "a div b < 2 ^ 32" by (rule le_less_trans [OF div_le_dividend le_less_trans [OF amax]]) simp
  moreover have "- (sint nb sdiv int b) = int (a div b)"
    using apos assms(2) by (simp add: s signed_divide_int_def zdiv_int)
  ultimately show "unat (of_int (- (sint nb sdiv int b)) :: u32) = a div b" by (simp add: unat_of_nat)
  have "- (sint nb smod int b) = int (a mod b)"
    using apos assms(2) by (simp add: s signed_modulo_int_def zmod_int)
  then have "of_int (- (sint nb smod int b)) + of_nat b = (of_nat (a mod b + b) :: u32)" by simp
  moreover have "a mod b < b" using assms(2) by simp
  then have "a mod b + b < 4294967296" using assms(3) by linarith
  ultimately have "unat (of_int (- (sint nb smod int b)) + of_nat b :: u32) = a mod b + b"
    by (simp only: unat_of_nat_32)
  then show "unat ((of_int (- (sint nb smod int b)) + of_nat b :: u32) mod of_nat b) = a mod b"
    by (simp add: unat_mod b)
qed

text \<open>The text of a number: a sign for a negative one, then the digits of its absolute value.\<close>

definition int_text :: "u8 list \<Rightarrow> bool \<Rightarrow> u32 \<Rightarrow> u8 list" where
  "int_text cs un nb =
     (if \<not> un \<and> sint nb < 0 then 45 # numeral_of cs (nat (- sint nb)) else numeral_of cs (unat nb))"

lemma itoa_writes:
  assumes cs: "1 < length cs" "length cs \<le> 256" "0 \<notin> set cs" and m: "m (buf + 1) = 0"
  shows "itoa_stack_max buf un nb cs m =
    Some (int (length (int_text cs (un \<noteq> 0) nb)), written buf (int_text cs (un \<noteq> 0) nb @ [0]) m)"
proof (cases "un = 0 \<and> sint nb < 0")
  case False
  then have "itoa_stack_max buf un nb cs m = itoa_unsigned buf nb cs m"
    using cs(1) unfolding itoa_stack_max_def Let_def by (simp only: not_le [symmetric] if_False)
  moreover have "int_text cs (un \<noteq> 0) nb = numeral_of cs (unat nb)" using False by (auto simp: int_text_def)
  ultimately show ?thesis using unsigned_writes [OF cs(1,2)] by simp
next
  case True
  define a where "a = nat (- sint nb)"
  note parts = negative_parts [of nb "length cs", OF conjunct2 [OF True] cs(1,2), folded a_def]
  have new_nb: "(- nb) div of_nat (length cs) > 0 \<longleftrightarrow> length cs \<le> a"
    using parts(1) cs(1) by (auto simp: word_less_nat_alt div_greater_zero_iff)
  have tx: "int_text cs False nb = 45 # numeral_of cs a" using True by (simp add: int_text_def a_def)
  show ?thesis
  proof (cases "length cs \<le> a")
    case le: True
    let ?q = "numeral_of cs (a div length cs)"
    define m2 where "m2 = written (buf + 1) (?q @ [0]) (m(buf := 45))"
    have "cstr m2 (buf + 1) ?q" unfolding m2_def by (rule written_cstr [OF numeral_no_0 [OF cs(1,3)]])
    moreover have "m2 buf = 45" by (simp add: m2_def written_def)
    ultimately have "cstr m2 buf (45 # ?q)" by (auto simp: cstr_def nth_Cons' gr0_conv_Suc)
    then have "itoa_stack_max_len buf m2 = Some (length ?q + 1)"
      using strlen_loop_cstr [of m2 buf "45 # ?q" 0] by (simp add: itoa_stack_max_len_def)
    moreover have "itoa_unsigned (buf + 1) (of_int (- (sint nb sdiv int (length cs)))) cs (m(buf := 45)) = Some (int (length ?q), m2)"
      using unsigned_writes [OF cs(1,2)] parts(2) by (simp add: m2_def)
    ultimately show ?thesis
      using True cs(1) new_nb le parts(3) numeral_split [OF cs(1) le] written_twice [of buf ?q m 45]
      by (simp add: itoa_stack_max_def Let_def tx m2_def del: uminus_add_conv_diff of_int_minus)
  next
    case False
    then have n: "numeral_of cs a = [cs ! a]" by (simp add: numeral_of_def digits_one)
    have "cstr (m(buf := 45)) buf [45]" using m by (simp add: cstr_def)
    then have "itoa_stack_max_len buf (m(buf := 45)) = Some 1"
      using strlen_loop_cstr [of "m(buf := 45)" buf "[45]" 0] by (simp add: itoa_stack_max_len_def)
    moreover have "written buf (45 # numeral_of cs a @ [0]) m = m(buf := 45, buf + 1 := cs ! a, buf + 2 := 0)"
      by (auto simp: written_def fun_eq_iff n nth_Cons' less_Suc_eq)
    ultimately show ?thesis
      using True cs(1) new_nb False parts(3) n by (simp add: itoa_stack_max_def Let_def tx del: uminus_add_conv_diff of_int_minus)
  qed
qed

lemma digit_sets: "0 \<notin> set DEC" "0 \<notin> set HEX" "0 \<notin> set OCT" "0 \<notin> set BIN" "0 \<notin> set HEX_UP"
  "length DEC = 10" "length HEX = 16" "length OCT = 8" "length BIN = 2" "length HEX_UP = 16"
  by (simp_all add: DEC_def HEX_def OCT_def BIN_def HEX_UP_def)

lemma numeral_DEC: "numeral_of DEC n = map digit_char (digits 10 n)"
proof -
  have "DEC ! d = digit_char d" if "d < 10" for d
    using that by (auto simp: DEC_def digit_char_def less_Suc_eq numeral_eq_Suc)
  then show ?thesis using digits_less [of 10 n] by (simp add: numeral_of_def digit_sets)
qed

lemma decimal_digits: "decimal (digits 10 n) = n"
  by (simp add: decimal_def digits_value)

lemma atoi_int_text:
  assumes "\<And>k. k \<le> length (int_text DEC False nb) \<Longrightarrow> m (s + k) = (int_text DEC False nb @ [0]) ! k"
  shows "atoi s m = Some nb"
proof -
  have nd: "\<not> is_digit 0" by (simp add: is_digit_def)
  let ?neg = "sint nb < 0"
  let ?n = "if ?neg then nat (- sint nb) else unat nb"
  let ?sg = "if ?neg then [45] else []"
  have tx: "int_text DEC False nb @ [0] = [] @ ?sg @ map digit_char (digits 10 ?n) @ [0]"
    by (simp add: int_text_def numeral_DEC)
  have "\<forall>k < length ([] @ ?sg @ map digit_char (digits 10 ?n) @ [0]).
      m (s + k) = ([] @ ?sg @ map digit_char (digits 10 ?n) @ [0]) ! k"
    unfolding tx [symmetric] using assms by (simp add: less_Suc_eq_le)
  from atoi_reads_decimal [OF _ _ digits_less digits_not_Nil nd this]
  have a: "atoi s m = Some ((if ?sg = [45] then - 1 else 1) * of_nat (decimal (digits 10 ?n)))" by simp
  also have "(if ?sg = [45] then - 1 else 1) * of_nat (decimal (digits 10 ?n)) = nb"
  proof (cases ?neg)
    case True
    have "of_int (sint nb) = nb" by simp
    moreover have "sint nb = - int (nat (- sint nb))" using True by simp
    ultimately have "- of_nat (nat (- sint nb)) = nb" by (metis of_int_minus of_int_of_nat_eq)
    with True show ?thesis by (simp only: decimal_digits if_True) simp
  qed (simp add: decimal_digits)
  finally show ?thesis .
qed

text \<open>C31. \<^verbatim>\<open>itoa_stack_max\<close> and \<^verbatim>\<open>atoi\<close> are inverse on all 32-bit numbers, the smallest included (where both
  wrap): the decimal text written into a zeroed buffer is read back as the number, the number
  returned is its length, and memory outside the text and its zero is untouched.\<close>

theorem atoi_reads_what_itoa_writes:
  assumes "m (buf + 1) = 0"
  shows "\<exists>n m'. itoa_stack_max buf 0 nb DEC m = Some (int n, m') \<and> atoi buf m' = Some nb \<and>
    strlen buf m' = Some n \<and> m' = written buf (map (\<lambda>k. m' (buf + k)) [0..<n + 1]) m"
proof -
  let ?x = "int_text DEC False nb"
  let ?m = "written buf (?x @ [0]) m"
  have w: "?m (buf + k) = (?x @ [0]) ! k" if "k \<le> length ?x" for k
    using that by (simp add: written_def)
  have "0 \<notin> set ?x" using numeral_no_0 [of DEC] digit_sets by (simp add: int_text_def)
  then have "strlen buf ?m = Some (length ?x)"
    using strlen_loop_cstr [OF written_cstr, of ?x 0] by (simp add: strlen_def)
  moreover have "map (\<lambda>k. ?m (buf + k)) [0..<length ?x + 1] = ?x @ [0]"
    by (rule nth_equalityI) (use w in \<open>auto simp del: upt_Suc\<close>)
  ultimately show ?thesis
    using itoa_writes [where cs = DEC and m = m and buf = buf and un = 0 and nb = nb] digit_sets assms atoi_int_text [OF w] by auto
qed

text \<open>The number -42 in a buffer at address 100.\<close>

theorem atoi_reads_what_itoa_writes_witness:
  "\<exists>n m'. itoa_stack_max 100 0 (- 42) DEC (\<lambda>_. 0) = Some (int n, m') \<and> atoi 100 m' = Some (- 42)"
  using atoi_reads_what_itoa_writes [of "\<lambda>_. 0" 100 "- 42"] by auto

subsection \<open>Formats\<close>

datatype piece = Lit "u8 list" | Dec u32 | Uns u32 | Hex u32 | Ptr u32 | Chr u32 | Txt "u8 list" | Percent

fun fmt_of :: "piece \<Rightarrow> u8 list" where
  "fmt_of (Lit x) = x"
| "fmt_of (Dec _) = [37, 100]"
| "fmt_of (Uns _) = [37, 117]"
| "fmt_of (Hex _) = [37, 120]"
| "fmt_of (Ptr _) = [37, 112]"
| "fmt_of (Chr _) = [37, 99]"
| "fmt_of (Txt _) = [37, 115]"
| "fmt_of Percent = [37, 37]"

fun args_of :: "piece \<Rightarrow> va_arg list" where
  "args_of (Dec w) = [Word w]" | "args_of (Uns w) = [Word w]" | "args_of (Hex w) = [Word w]"
| "args_of (Ptr w) = [Word w]" | "args_of (Chr w) = [Word w]" | "args_of (Txt x) = [Str x]" | "args_of _ = []"

fun text_of :: "piece \<Rightarrow> u8 list" where
  "text_of (Lit x) = x"
| "text_of (Dec w) = int_text DEC False w"
| "text_of (Uns w) = numeral_of DEC (unat w)"
| "text_of (Hex w) = numeral_of HEX (unat w)"
| "text_of (Ptr w) = [48, 120] @ numeral_of HEX (unat w)"
| "text_of (Chr w) = [ucast w]"
| "text_of (Txt x) = x"
| "text_of Percent = [37]"

fun piece_ok :: "piece \<Rightarrow> bool" where
  "piece_ok (Lit x) = (37 \<notin> set x)"
| "piece_ok _ = True"

lemma string_at_written:
  assumes "0 \<notin> set x"
  shows "string_at p (written p (x @ [0]) m) = Some x"
proof -
  have "strlen_loop p 0 (written p (x @ [0]) m) = Some (length x)"
    using strlen_loop_cstr [OF written_cstr [OF assms]] by simp
  moreover have "map (\<lambda>k. written p (x @ [0]) m (p + k)) [0..<length x] = x"
    by (rule nth_equalityI) (simp_all add: written_def nth_append)
  ultimately show ?thesis by (simp add: string_at_def)
qed

lemma itoa_string:
  assumes "1 < length cs" "length cs \<le> 256" "0 \<notin> set cs"
  shows "\<exists>m. itoa_stack_max 0 un nb cs (\<lambda>_. 0) = Some (int (length (int_text cs (un \<noteq> 0) nb)), m) \<and>
    string_at 0 m = Some (int_text cs (un \<noteq> 0) nb)"
proof -
  have "0 \<notin> set (int_text cs (un \<noteq> 0) nb)" using numeral_no_0 [OF assms(1,3)] by (simp add: int_text_def)
  then show ?thesis using itoa_writes [OF assms, where m = "\<lambda>_. 0" and buf = 0 and un = un and nb = nb] string_at_written by simp
qed

lemma display_int:
  assumes "pp_type p = PRINTK_INT" "pp_size p = 4" "pp_char_set p \<in> {DEC, HEX, OCT, BIN, HEX_UP}"
  shows "printk_para_display (Word nb # ap) p =
    (let pre = (if pp_display_prefix p \<noteq> 0 then pp_prefix p else []);
         x = int_text (pp_char_set p) (pp_is_unsigned p \<noteq> 0) nb
     in Some (int (length x) + int (length pre), pre @ x, ap))"
proof -
  have "1 < length (pp_char_set p) \<and> length (pp_char_set p) \<le> 256 \<and> 0 \<notin> set (pp_char_set p)"
    using assms(3) digit_sets by auto
  with itoa_string [of "pp_char_set p" "pp_is_unsigned p" nb] assms(1,2)
  show ?thesis by (auto simp: printk_para_display_def Let_def)
qed

lemma int_text_unsigned: "int_text cs True w = numeral_of cs (unat w)"
  by (simp add: int_text_def)

lemma para_size_none:
  "c \<notin> {104, 108, 116, 122} \<Longrightarrow> printk_para_size (c # r) p = (c # r, p)"
  by (auto simp: printk_para_size_def size_table_def)

lemma para_conv:
  "printk_para_conv (100 # r) p = (0, r, p\<lparr>pp_type := PRINTK_INT, pp_is_unsigned := 0, pp_char_set := DEC, pp_prefix := []\<rparr>)"
  "printk_para_conv (117 # r) p = (0, r, p\<lparr>pp_type := PRINTK_INT, pp_is_unsigned := 1, pp_char_set := DEC, pp_prefix := []\<rparr>)"
  "printk_para_conv (120 # r) p = (0, r, p\<lparr>pp_type := PRINTK_INT, pp_is_unsigned := 1, pp_char_set := HEX, pp_prefix := [48, 120]\<rparr>)"
  "pp_size p = 4 \<Longrightarrow> printk_para_conv (112 # r) p = (0, r, p\<lparr>pp_type := PRINTK_INT, pp_is_unsigned := 1, pp_size := 4,
     pp_char_set := HEX, pp_prefix := [48, 120], pp_display_prefix := 1\<rparr>)"
  "printk_para_conv (99 # r) p = (0, r, p\<lparr>pp_type := PRINTK_CHAR, pp_is_unsigned := 0, pp_char_set := [], pp_prefix := []\<rparr>)"
  "printk_para_conv (115 # r) p = (0, r, p\<lparr>pp_type := PRINTK_STRING, pp_is_unsigned := 0, pp_char_set := [], pp_prefix := []\<rparr>)"
  "printk_para_conv (37 # r) p = (0, r, p\<lparr>pp_type := PRINTK_FULL_MACRO, pp_is_unsigned := 0, pp_char_set := [], pp_prefix := [37],
     pp_display_prefix := 1\<rparr>)"
  by (simp_all add: printk_para_conv_def conv_table_def Let_def)

lemma display_other:
  "pp_type p = PRINTK_CHAR \<Longrightarrow> pp_size p = 4 \<Longrightarrow> pp_display_prefix p = 0 \<Longrightarrow>
     printk_para_display (Word w # ap) p = Some (1, [ucast w], ap)"
  "pp_type p = PRINTK_STRING \<Longrightarrow> pp_size p = 4 \<Longrightarrow> pp_display_prefix p = 0 \<Longrightarrow>
     printk_para_display (Str x # ap) p = Some (int (length x), x, ap)"
  "pp_type p = PRINTK_FULL_MACRO \<Longrightarrow> pp_display_prefix p = 1 \<Longrightarrow>
     printk_para_display ap p = Some (int (length (pp_prefix p)), pp_prefix p, ap)"
  by (simp_all add: printk_para_display_def Let_def)

lemma para_init_simps [simp]: "pp_size para_init = 4" "pp_display_prefix para_init = 0"
  by (simp_all add: para_init_def)

lemma display_piece:
  assumes "fmt_of x = 37 # fmt" "piece_ok x"
  shows "printk_display (fmt @ rest) (args_of x @ ap) = Some (0, rest, text_of x, ap)"
proof (cases x)
  case (Lit y)
  with assms show ?thesis by auto
qed (use assms in \<open>auto simp: printk_display_def para_size_none para_conv display_int display_other int_text_unsigned Let_def\<close>)

lemma wvprintk_literal:
  "37 \<notin> set x \<Longrightarrow> wvprintk (x @ fmt) ap ret = map_option (\<lambda>(r, out). (r, x @ out)) (wvprintk fmt ap ret)"
proof (induction x)
  case (Cons c x)
  then show ?case by (cases "wvprintk fmt ap ret") auto
qed (cases "wvprintk fmt ap ret"; simp)

lemma wvprintk_pieces:
  "list_all piece_ok ps \<Longrightarrow>
   wvprintk (concat (map fmt_of ps)) (concat (map args_of ps)) ret = Some (ret, concat (map text_of ps))"
proof (induction ps)
  case (Cons x ps)
  then have IH: "wvprintk (concat (map fmt_of ps)) (concat (map args_of ps)) ret = Some (ret, concat (map text_of ps))"
    and ok: "piece_ok x" by simp_all
  show ?case
  proof (cases "\<exists>fmt. fmt_of x = 37 # fmt")
    case True
    then obtain fmt where f: "fmt_of x = 37 # fmt" by blast
    show ?thesis using display_piece [OF f ok] IH f by simp
  next
    case False
    then obtain y where x: "x = Lit y" by (cases x) auto
    show ?thesis using wvprintk_literal [of y] ok IH by (simp add: x)
  qed
qed simp

text \<open>C32. A format made of literal text and the directives \<open>%d\<close>, \<open>%u\<close>, \<open>%x\<close>, \<open>%p\<close>, \<open>%c\<close>, \<open>%s\<close> and \<open>%%\<close>, with its
  arguments in order, prints the texts of its pieces one after the other, whatever the numbers are; the
  number returned is 0 and not the number of characters.\<close>

theorem wprintk_prints_its_pieces:
  assumes "list_all piece_ok ps"
  shows "wprintk (concat (map fmt_of ps)) (concat (map args_of ps)) = Some (0, concat (map text_of ps))"
  using wvprintk_pieces [OF assms] by (simp add: wprintk_def)

text \<open>The format \<open>n=%d %s\<close> with -7 and \<open>ok\<close>.\<close>

theorem wprintk_prints_its_pieces_witness:
  "wprintk [110, 61, 37, 100, 32, 37, 115] [Word (- 7), Str [111, 107]] = Some (0, [110, 61, 45, 55, 32, 111, 107])"
proof -
  have "list_all piece_ok [Lit [110, 61], Dec (- 7), Lit [32], Txt [111, 107]]" by simp
  moreover have "int_text DEC False (- 7) = [45, 55]"
    by (simp add: int_text_def numeral_of_def digits_one digit_sets) (simp add: DEC_def)
  ultimately show ?thesis using wprintk_prints_its_pieces by fastforce
qed

end
