(* ===== verification/Debug.thy ===== *)
theory Debug
  imports Acpi Printk_Correct
begin

text \<open>
  The diagnostics of the kernel: the walk over the frames of a stack (\<^verbatim>\<open>kernel/x86/backtrace.c\<close>) and the
  displays of the page tables (\<^verbatim>\<open>kernel/x86/page_debug.c\<close>). What they print is the list of its bytes.
\<close>

subsection \<open>Output\<close>

definition ascii :: "string \<Rightarrow> u8 list" where
  "ascii x = map of_char x"

definition emit :: "u8 list \<Rightarrow> va_arg list \<Rightarrow> u8 list option" where
  "emit fmt ap = map_option snd (wprintk fmt ap)"

definition emit_line :: "string \<Rightarrow> va_arg list \<Rightarrow> u8 list option" where
  "emit_line fmt ap = emit (ascii fmt @ [10]) ap"

subsection \<open>The frames of a stack\<close>

text \<open>A word through the page tables: no value when one of its bytes is on a page that is not mapped.\<close>

definition virt_word :: "u32 \<Rightarrow> 'a vm_st_scheme \<Rightarrow> u32 option" where
  "virt_word p s = map_option word_of_bytes (virt_bytes p 4 s)"

definition word_present :: "u32 \<Rightarrow> 'a vm_st_scheme \<Rightarrow> bool \<times> 'a vm_st_scheme" where
  "word_present p s =
     (case page_is_present p s of (a, s1) \<Rightarrow>
        if a = 0 then (False, s1)
        else (case page_is_present (p + 3) s1 of (b, s2) \<Rightarrow> (b \<noteq> 0, s2)))"

fun backtrace_loop :: "nat \<Rightarrow> u32 \<Rightarrow> 'a vm_st_scheme \<Rightarrow> (u8 list \<times> 'a vm_st_scheme) option" where
  "backtrace_loop 0 fp s = Some ([], s)"
| "backtrace_loop (Suc n) fp s =
     (if fp = 0 then Some ([], s)
      else (case word_present (fp + 4) s of (ok, s1) \<Rightarrow>
        if \<not> ok then do { c \<leftarrow> emit_line ''  stack corrupt'' []; Some (c, s1) }
        else do {
          eip \<leftarrow> virt_word (fp + 4) s1;
          l \<leftarrow> emit_line ''  %p'' [Word eip];
          (if eip = 0 then Some (l, s1)
           else (case word_present fp s1 of (ok, s2) \<Rightarrow>
             if \<not> ok then do { c \<leftarrow> emit_line ''  stack corrupt'' []; Some (l @ c, s2) }
             else do {
               next \<leftarrow> virt_word fp s2;
               (rest, s3) \<leftarrow> backtrace_loop n next s2;
               Some (l @ rest, s3) })) }))"

definition backtrace :: "u32 \<Rightarrow> nat \<Rightarrow> 'a vm_st_scheme \<Rightarrow> (u8 list \<times> 'a vm_st_scheme) option" where
  "backtrace fp n s = do {
     h \<leftarrow> emit_line ''backtrace'' [];
     (x, s1) \<leftarrow> backtrace_loop n fp s;
     Some (h @ x, s1) }"

subsection \<open>The page tables\<close>

definition flags_info :: "(string \<times> string) list" where
  "flags_info = [
     (''P'', ''Page present''),
     (''R/W'', ''Write permition''),
     (''U/S'', ''user can accesse to the page''),
     (''PWT'', ''Page write through''),
     (''PCD'', ''Page cache disable''),
     (''A'', ''Page have been read''),
     (''D'', ''Page have been writed''),
     (''PS'', ''Page size (4MiB)''),
     (''G'', ''Page global''),
     (''AV1'', ''AVAILABLE''),
     (''AV2'', ''AVAILABLE''),
     (''AV3'', ''AVAILABLE'')]"

text \<open>The loop over the bits of \<^verbatim>\<open>PAGE_FLAG\<close>, from bit \<open>i\<close>.\<close>

fun flag_lines :: "(string \<times> string) list \<Rightarrow> nat \<Rightarrow> u32 \<Rightarrow> u8 list option" where
  "flag_lines [] i e = Some []"
| "flag_lines ((mini, desc) # infos) i e = do {
     l \<leftarrow> (if push_bit i 1 AND e \<noteq> 0
          then emit_line ''    %s(%d) -> %s'' [Str (ascii mini), Word (of_nat i), Str (ascii desc)] else Some []);
     r \<leftarrow> flag_lines infos (i + 1) e;
     Some (l @ r) }"

definition page_info_data_display :: "page_info_data \<Rightarrow> u8 list option" where
  "page_info_data_display ret = do {
     a \<leftarrow> emit_line ''Memory information: %p'' [Word (target ret)];
     b \<leftarrow> emit_line ''  real page %p'' [Word (target_page ret)];
     c \<leftarrow> emit_line ''  page_directory %p'' [Word (info_directory ret)];
     d \<leftarrow> emit_line ''  page_directory_entry %p'' [Word (info_directory_entry ret)];
     e \<leftarrow> emit_line ''   addr %p'' [Word (PAGE_GET_ADDR (info_directory_entry ret))];
     f \<leftarrow> emit_line ''   flag %b'' [Word (info_directory_entry ret AND PAGE_FLAG)];
     g \<leftarrow> flag_lines flags_info 0 (info_directory_entry ret);
     (if \<not> have_page_entry ret
      then do { h \<leftarrow> emit_line ''  no page entry'' []; Some (a @ b @ c @ d @ e @ f @ g @ h) }
      else do {
        h \<leftarrow> emit_line ''  page_entry %p'' [Word (info_page_table ret)];
        i \<leftarrow> emit_line ''  page_table_entry %p'' [Word (page_table_entry ret)];
        j \<leftarrow> emit_line ''   addr %p'' [Word (PAGE_GET_ADDR (page_table_entry ret))];
        k \<leftarrow> emit_line ''   flag %b'' [Word (page_table_entry ret AND PAGE_FLAG)];
        l \<leftarrow> flag_lines flags_info 0 (page_table_entry ret);
        Some (a @ b @ c @ d @ e @ f @ g @ h @ i @ j @ k @ l) }) }"

definition page_info_display :: "u32 \<Rightarrow> 'a vm_st_scheme \<Rightarrow> (u8 list \<times> 'a vm_st_scheme) option" where
  "page_info_display v s =
     (case page_info v s of (_, info, s1) \<Rightarrow> map_option (\<lambda>x. (x, s1)) (page_info_data_display info))"

text \<open>What is printed for one entry of a page table.\<close>

definition entry_text :: "nat \<Rightarrow> u32 \<Rightarrow> u8 list option" where
  "entry_text j e =
     (if e AND PAGE_PRESENT \<noteq> 0
      then do {
        x \<leftarrow> emit (ascii ''  %x'') [Word (of_nat j)];
        w \<leftarrow> emit (if e AND PAGE_WRITE \<noteq> 0 then ascii ''w'' else ascii '' '') [];
        u \<leftarrow> emit (if e AND PAGE_USER_SUPERVISOR \<noteq> 0 then ascii ''u'' else ascii '' '') [];
        Some (x @ w @ u) }
      else Some [])"

text \<open>The inner loop for directory slot \<open>i\<close>, with \<open>n\<close> entries left from entry \<open>j\<close>.\<close>

fun tab_row :: "nat \<Rightarrow> nat \<Rightarrow> nat \<Rightarrow> 'a vm_st_scheme \<Rightarrow> (u8 list \<times> 'a vm_st_scheme) option" where
  "tab_row i 0 j s = Some ([], s)"
| "tab_row i (Suc n) j s =
     (case page_info (push_bit 22 (of_nat i) + push_bit 12 (of_nat j)) s of (_, info, s1) \<Rightarrow>
        if \<not> have_page_entry info then Some ([], s1)
        else do {
          a \<leftarrow> (if j = 0 then emit (10 # ascii ''%x ->'') [Word (push_bit 10 (of_nat i))] else Some []);
          b \<leftarrow> entry_text j (page_table_entry info);
          (r, s2) \<leftarrow> tab_row i n (j + 1) s1;
          Some (a @ b @ r, s2) })"

fun tab_rows :: "nat \<Rightarrow> nat \<Rightarrow> 'a vm_st_scheme \<Rightarrow> (u8 list \<times> 'a vm_st_scheme) option" where
  "tab_rows 0 i s = Some ([], s)"
| "tab_rows (Suc n) i s = do {
     (a, s1) \<leftarrow> tab_row i 1024 0 s;
     (r, s2) \<leftarrow> tab_rows n (i + 1) s1;
     Some (a @ r, s2) }"

definition page_info_display_tab :: "'a vm_st_scheme \<Rightarrow> (u8 list \<times> 'a vm_st_scheme) option" where
  "page_info_display_tab s = do {
     h \<leftarrow> emit (ascii ''memory dump'') [];
     (x, s1) \<leftarrow> tab_rows 1024 0 s;
     e \<leftarrow> emit [10] [];
     Some (h @ x @ e, s1) }"

text \<open>The command of the shell.\<close>

definition mem_debug :: "'a vm_st_scheme \<Rightarrow> (u8 list \<times> 'a vm_st_scheme) option" where
  "mem_debug s = do {
     n \<leftarrow> emit [10] [];
     (x, s1) \<leftarrow> page_info_display_tab s;
     Some (n @ x, s1) }"

end
