(* ===== verification/Debug_Correct.thy ===== *)
theory Debug_Correct
  imports Debug Paging_Correct
begin

text \<open>
  The diagnostics are safe to run on any stack and report the page tables as they are: a backtrace never touches an
  address that is not mapped, and the dump of the page tables names exactly the entries that are present.
\<close>

subsection \<open>Output\<close>

lemma emit_pieces: "list_all piece_ok ps \<Longrightarrow> emit (concat (map fmt_of ps)) (concat (map args_of ps)) = Some (concat (map text_of ps))"
  using wvprintk_pieces [of ps 0] by (simp add: emit_def wprintk_def)

lemma emit_literal: "37 \<notin> set x \<Longrightarrow> emit x [] = Some x"
  using emit_pieces [of "[Lit x]"] by simp

lemma emit_between: "37 \<notin> set x \<Longrightarrow> 37 \<notin> set z \<Longrightarrow> piece_ok y \<Longrightarrow> emit (x @ fmt_of y @ z) (args_of y) = Some (x @ text_of y @ z)"
  using emit_pieces [of "[Lit x, y, Lit z]"] by simp

lemma ascii_no_percent:
  "37 \<notin> set (ascii ''  stack corrupt'')" "37 \<notin> set (ascii ''backtrace'')" "37 \<notin> set (ascii ''  '')"
  "37 \<notin> set (ascii ''memory dump'')" "37 \<notin> set (ascii ''w'')" "37 \<notin> set (ascii ''u'')" "37 \<notin> set (ascii '' '')"
  by (simp_all add: ascii_def)

lemma emit_frame_line: "emit_line ''  %p'' [Word w] = Some (ascii ''  0x'' @ numeral_of HEX (unat w) @ [10])"
  using emit_between [OF ascii_no_percent(3), of "[10]" "Ptr w"] by (simp add: emit_line_def ascii_def)

lemma emit_corrupt: "emit_line ''  stack corrupt'' [] = Some (ascii ''  stack corrupt'' @ [10])"
  "emit_line ''backtrace'' [] = Some (ascii ''backtrace'' @ [10])"
  using emit_literal [of "ascii ''  stack corrupt'' @ [10]"] emit_literal [of "ascii ''backtrace'' @ [10]"] ascii_no_percent
  by (simp_all add: emit_line_def)

subsection \<open>Looking at pages\<close>

lemma page_info_frame:
  assumes wf: "vm_wf s"
  shows "table_frame s (dir_index v) = None \<Longrightarrow> \<exists>info. page_info v s = (0, info, s) \<and> \<not> have_page_entry info"
    "table_frame s (dir_index v) = Some f \<Longrightarrow> \<exists>info. page_info v s = (0, info, show_frame f s) \<and> have_page_entry info \<and>
       page_table_entry info = pmem (show_frame f s) f (unat (table_index v))"
proof -
  assume "table_frame s (dir_index v) = None"
  then show "\<exists>info. page_info v s = (0, info, s) \<and> \<not> have_page_entry info"
    by (auto simp: page_info_def Let_def table_frame_def split: if_splits)
next
  assume f: "table_frame s (dir_index v) = Some f"
  have acc: "access_table_with_physical (page_swap (lay s)) f s = (0, show_frame f s)"
    using access_table_ok [OF vm_wf_window [OF wf] table_frame_aligned [OF f]] by (simp add: show_frame_def)
  have "window_frame (page_swap (lay s)) (show_frame f s) = f"
    using table_frame_aligned [OF f] by (simp add: window_frame_def show_frame_def)
  moreover have "bit (page_directory s (dir_index v)) 0 \<and> \<not> bit (page_directory s (dir_index v)) 7 \<and>
      PAGE_GET_ADDR (page_directory s (dir_index v)) = f"
    using f by (simp add: page_entry_split)
  ultimately show "\<exists>info. page_info v s = (0, info, show_frame f s) \<and> have_page_entry info \<and>
       page_table_entry info = pmem (show_frame f s) f (unat (table_index v))"
    using acc by (auto simp: page_info_def Let_def window_read_def)
qed

text \<open>A state reached by looking: what was mapped stays mapped.\<close>

definition looked :: "'a vm_st_scheme \<Rightarrow> 'a vm_st_scheme \<Rightarrow> bool" where
  "looked s s' \<longleftrightarrow> vm_wf s' \<and> (\<forall>w. translate s w \<noteq> None \<longrightarrow> translate s' w \<noteq> None)"

lemma looked_refl: "vm_wf s \<Longrightarrow> looked s s"
  by (simp add: looked_def)

lemma looked_trans: "looked s t \<Longrightarrow> looked t u \<Longrightarrow> looked s u"
  by (auto simp: looked_def)

lemma looked_show_frame:
  assumes "vm_wf s" "f AND PAGE_FLAG = 0"
  shows "looked s (show_frame f s)"
proof -
  have "bit (f OR (PAGE_WRITE OR PAGE_PRESENT)) 0" by (simp add: PAGE_WRITE_def PAGE_PRESENT_def bit_simps)
  then have "translate (show_frame f s) w \<noteq> None" if "translate s w \<noteq> None" for w
    using that by (auto simp: translate_def pte_def pmem_show_frame split: option.splits if_splits)
  then show ?thesis using assms by (simp add: looked_def)
qed

lemma page_is_present_looks:
  assumes "vm_wf s" "page_is_present v s = (r, s')"
  shows "looked s s'" "r \<noteq> 0 \<Longrightarrow> translate s' v \<noteq> None"
proof -
  have "looked s s' \<and> (r \<noteq> 0 \<longrightarrow> translate s' v \<noteq> None)"
  proof (cases "table_frame s (dir_index v)")
    case None
    obtain info where "page_info v s = (0, info, s)" "\<not> have_page_entry info" using page_info_frame(1) [OF assms(1) None] by blast
    then show ?thesis using assms(2) looked_refl [OF assms(1)] by (simp add: page_is_present_def)
  next
    case (Some f)
    obtain info where i: "page_info v s = (0, info, show_frame f s)" "have_page_entry info"
        "page_table_entry info = pmem (show_frame f s) f (unat (table_index v))"
      using page_info_frame(2) [OF assms(1) Some] by blast
    have "s' = show_frame f s" using i assms(2) by (auto simp: page_is_present_def split: if_splits)
    moreover have "r \<noteq> 0 \<Longrightarrow> bit (page_table_entry info) 0" using i assms(2) by (auto simp: page_is_present_def split: if_splits)
    ultimately show ?thesis
      using looked_show_frame [OF assms(1) table_frame_aligned [OF Some]] i(3) Some by (auto simp: translate_def pte_def)
  qed
  then show "looked s s'" "r \<noteq> 0 \<Longrightarrow> translate s' v \<noteq> None" by blast+
qed

subsection \<open>Words that lie on two pages\<close>

lemma page_of_byte:
  fixes p :: u32
  assumes "k \<le> 3"
  shows "unat (p + of_nat k) div 4096 = unat p div 4096 \<or> unat (p + of_nat k) div 4096 = unat (p + 3) div 4096"
proof -
  have u: "unat (p + of_nat j) = (unat p + j) mod 4294967296" if "j \<le> 3" for j
    using that by (simp add: unat_word_ariths unat_of_nat)
  have 3: "unat (p + 3) = (unat p + 3) mod 4294967296" using u [of 3] by simp
  note p = unat_less_32 [of p]
  have e: "(unat p + j) div 4096 = unat p div 4096 + (unat p mod 4096 + j) div 4096" if "j \<le> 3" for j
    using that div_add1_eq [of "unat p" j 4096] by simp
  show ?thesis
  proof (cases "unat p + k < 4294967296")
    case True
    then have k: "unat (p + of_nat k) = unat p + k" using u [OF assms] by simp
    show ?thesis
    proof (cases "unat p mod 4096 + k < 4096")
      case True
      then show ?thesis unfolding k e [OF assms] by simp
    next
      case False
      have r: "unat p mod 4096 < 4096" by simp
      then have d: "(unat p mod 4096 + 3) div 4096 = 1" "(unat p mod 4096 + k) div 4096 = 1" using False assms by (auto simp: div_nat_eqI)
      have q: "unat p div 4096 * 4096 + unat p mod 4096 = unat p" by simp
      then have "unat p div 4096 < 1048575" using True False by linarith
      then have "unat p + 3 < 4294967296" using q r by linarith
      then have "unat (p + 3) = unat p + 3" using 3 by simp
      then show ?thesis unfolding k using e [OF assms] e [of 3] d by simp
    qed
  next
    case False
    have w: "(unat p + j) mod 4294967296 = unat p + j - 4294967296" if "4294967296 \<le> unat p + j" "j \<le> 3" for j
    proof -
      have "(unat p + j) mod 4294967296 = (unat p + j - 4294967296) mod 4294967296" by (rule le_mod_geq [OF that(1)])
      also have "\<dots> = unat p + j - 4294967296" using p that(2) by (intro mod_less) linarith
      finally show ?thesis .
    qed
    have "unat (p + of_nat k) = unat p + k - 4294967296" "unat (p + 3) = unat p + 3 - 4294967296"
      unfolding u [OF assms] 3 using w [of k] w [of 3] False assms by linarith+
    moreover have "unat p + k - 4294967296 < 4096" "unat p + 3 - 4294967296 < 4096" using p assms by linarith+
    ultimately show ?thesis by simp
  qed
qed

lemma mapped_same_page:
  assumes "translate s v \<noteq> None" "unat w div 4096 = unat v div 4096"
  shows "translate s w \<noteq> None"
proof -
  have "dir_index x = unat x div 4096 div 1024" for x by (simp add: dir_index_def unat_drop_bit div_mult2_eq [symmetric])
  then have "dir_index w = dir_index v" "unat (table_index w) = unat (table_index v)"
    using assms(2) by (simp_all add: unat_table_index)
  then show ?thesis using assms(1) by (simp add: translate_def pte_def)
qed

lemma virt_word_mapped:
  assumes "translate s p \<noteq> None" "translate s (p + 3) \<noteq> None"
  shows "\<exists>w. virt_word p s = Some w"
proof -
  have "virt_read (p + of_nat k) s \<noteq> None" if "k \<le> 3" for k
    using mapped_same_page [OF assms(1), of "p + of_nat k"] mapped_same_page [OF assms(2), of "p + of_nat k"] page_of_byte [OF that, of p]
    by (auto simp: virt_read_def)
  then have "those (map (\<lambda>k. virt_read (p + of_nat k) s) [0..<4]) \<noteq> None" by (intro those_not_None) auto
  then show ?thesis by (auto simp: virt_word_def virt_bytes_def)
qed

lemma word_present_looks:
  assumes "vm_wf s" "word_present p s = (ok, s')"
  shows "looked s s'" "ok \<Longrightarrow> \<exists>w. virt_word p s' = Some w"
proof -
  obtain a s1 where 1: "page_is_present p s = (a, s1)" by fastforce
  obtain b s2 where 2: "page_is_present (p + 3) s1 = (b, s2)" by fastforce
  note l1 = page_is_present_looks [OF assms(1) 1]
  have "vm_wf s1" using l1(1) by (simp add: looked_def)
  note l2 = page_is_present_looks [OF this 2]
  show "looked s s'" using assms(2) 1 2 l1(1) looked_trans [OF l1(1) l2(1)] by (auto simp: word_present_def split: if_splits)
  assume ok
  then have "s' = s2" "a \<noteq> 0" "b \<noteq> 0" using assms(2) 1 2 by (auto simp: word_present_def split: if_splits)
  moreover have "translate s2 p \<noteq> None" using l1(2) l2(1) \<open>a \<noteq> 0\<close> by (auto simp: looked_def)
  ultimately show "\<exists>w. virt_word p s' = Some w" using virt_word_mapped [of s2 p] l2(2) by simp
qed

lemma backtrace_loop_total:
  "vm_wf s \<Longrightarrow> \<exists>x s'. backtrace_loop n fp s = Some (x, s') \<and> looked s s'"
proof (induction n arbitrary: fp s)
  case 0
  then show ?case by (simp add: looked_refl)
next
  case (Suc n)
  obtain ok s1 where 1: "word_present (fp + 4) s = (ok, s1)" by fastforce
  note l1 = word_present_looks [OF Suc.prems 1]
  then have wf1: "vm_wf s1" by (simp add: looked_def)
  obtain ok2 s2 where 2: "word_present fp s1 = (ok2, s2)" by fastforce
  note l2 = word_present_looks [OF wf1 2]
  then have wf2: "vm_wf s2" by (simp add: looked_def)
  consider (null) "fp = 0" | (bad) "fp \<noteq> 0" "\<not> ok" | (bad2) eip where "fp \<noteq> 0" ok "virt_word (fp + 4) s1 = Some eip" "eip \<noteq> 0" "\<not> ok2"
    | (last) eip where "fp \<noteq> 0" ok "virt_word (fp + 4) s1 = Some eip" "eip = 0"
    | (more) eip nx where "fp \<noteq> 0" ok "virt_word (fp + 4) s1 = Some eip" "eip \<noteq> 0" ok2 "virt_word fp s2 = Some nx"
    using l1(2) l2(2) by blast
  then show ?case
  proof cases
    case more
    obtain x s3 where "backtrace_loop n nx s2 = Some (x, s3)" "looked s2 s3" using Suc.IH [OF wf2] by blast
    then show ?thesis using more 1 2 looked_trans [OF l1(1) looked_trans [OF l2(1)]] by (simp add: emit_frame_line)
  qed (use 1 2 l1(1) looked_trans [OF l1(1) l2(1)] looked_refl [OF Suc.prems] in \<open>simp_all add: emit_frame_line emit_corrupt\<close>)
qed

text \<open>
  C24. A backtrace may be taken of any stack: whatever the frame pointer is and whatever the words it leads to
  hold, also when a word lies across two pages or wraps around the end of the address space, every read is on a mapped page,
  the walk ends after at most the given number of frames, and what was mapped stays mapped.
\<close>

theorem backtrace_never_faults:
  assumes "vm_wf s"
  shows "\<exists>out s'. backtrace fp n s = Some (out, s') \<and> vm_wf s' \<and> (\<forall>v. translate s v \<noteq> None \<longrightarrow> translate s' v \<noteq> None)"
  using backtrace_loop_total [OF assms, of n fp] by (auto simp: backtrace_def emit_corrupt looked_def)

lemma backtrace_never_faults_witness:
  "\<exists>out s'. backtrace 0x400FFE 10 (put_pte 0x4F7000 0 0x800007 demo_vm) = Some (out, s')"
  using backtrace_never_faults [of "put_pte 0x4F7000 0 0x800007 demo_vm" "0x400FFE" 10] demo_vm_wf by auto

subsection \<open>The dump of the page tables\<close>

text \<open>The entry the dump sees: the window shows the table that is being read.\<close>

definition shown_entry :: "'a vm_st_scheme \<Rightarrow> u32 \<Rightarrow> nat \<Rightarrow> u32" where
  "shown_entry s f j =
     (if f = kernel_page_frame s \<and> j = unat (window_index (page_swap (lay s)))
      then f OR (PAGE_WRITE OR PAGE_PRESENT) else pmem s f j)"

definition entry_spec :: "nat \<Rightarrow> u32 \<Rightarrow> u8 list" where
  "entry_spec j e =
     (if bit e 0 then ascii ''  '' @ numeral_of HEX j @ ascii (if bit e 1 then ''w'' else '' '') @ ascii (if bit e 2 then ''u'' else '' '')
      else [])"

definition row_spec :: "'a vm_st_scheme \<Rightarrow> nat \<Rightarrow> u8 list" where
  "row_spec s i =
     (case table_frame s i of
        None \<Rightarrow> []
      | Some f \<Rightarrow> 10 # numeral_of HEX (i * 1024) @ ascii '' ->'' @ concat (map (\<lambda>j. entry_spec j (shown_entry s f j)) [0..<1024]))"

definition dump_spec :: "'a vm_st_scheme \<Rightarrow> u8 list" where
  "dump_spec s = ascii ''memory dump'' @ concat (map (row_spec s) [0..<1024]) @ [10]"

lemma shown_entry_show_frame:
  "shown_entry (show_frame g s) f j = shown_entry s f j" "pmem (show_frame f s) f j = shown_entry s f j"
  by (auto simp: shown_entry_def pmem_show_frame)

lemma row_spec_show_frame [simp]: "row_spec (show_frame g s) i = row_spec s i"
  by (simp add: row_spec_def shown_entry_show_frame cong: option.case_cong)

lemma show_frame_twice: "show_frame f (show_frame g s) = show_frame f s"
  by (simp add: show_frame_def)

lemma entry_text_spec: "j < 1024 \<Longrightarrow> entry_text j e = Some (entry_spec j e)"
  using emit_between [OF ascii_no_percent(3), of "[]" "Hex (of_nat j)"] ascii_no_percent
  by (simp add: entry_text_def entry_spec_def emit_literal ascii_def PAGE_WRITE_def PAGE_USER_SUPERVISOR_def
      and_exp_0 [where k = 1, simplified] and_exp_0 [where k = 2, simplified] unat_of_nat_32)

lemma header_text: "i < 1024 \<Longrightarrow>
  emit (10 # ascii ''%x ->'') [Word (push_bit 10 (of_nat i))] = Some (10 # numeral_of HEX (i * 1024) @ ascii '' ->'')"
proof -
  assume i: "i < 1024"
  have u: "unat (push_bit 10 (of_nat i) :: u32) = i * 1024"
    using i by (simp add: push_bit_eq_mult unat_word_ariths unat_of_nat)
  have "37 \<notin> set (ascii '' ->'')" by (simp add: ascii_def)
  with emit_between [of "[10]" "ascii '' ->''" "Hex (push_bit 10 (of_nat i))"] u show ?thesis by (simp add: ascii_def)
qed

lemma dumped_address:
  assumes "i < 1024" "j < 1024"
  shows "dir_index (push_bit 22 (of_nat i) + push_bit 12 (of_nat j)) = i"
    "unat (table_index (push_bit 22 (of_nat i) + push_bit 12 (of_nat j))) = j"
proof -
  have "unat (push_bit 22 (of_nat i) :: u32) = i * 4194304"
    using assms by (simp add: push_bit_eq_mult unat_word_ariths unat_of_nat)
  moreover have "unat (push_bit 12 (of_nat j) :: u32) = j * 4096" using assms by (intro unat_page_addr) simp
  moreover have "i * 4194304 + j * 4096 < 4294967296" using assms by simp
  ultimately have u: "unat (push_bit 22 (of_nat i) + push_bit 12 (of_nat j) :: u32) = (i * 1024 + j) * 4096"
    by (simp add: unat_word_ariths)
  show "dir_index (push_bit 22 (of_nat i) + push_bit 12 (of_nat j)) = i"
    using assms(2) by (simp add: dir_index_def unat_drop_bit u div_mult2_eq [of _ 4096 1024, simplified])
  show "unat (table_index (push_bit 22 (of_nat i) + push_bit 12 (of_nat j))) = j"
    using assms(2) by (simp add: unat_table_index u)
qed

lemma tab_row_none:
  assumes "vm_wf s" "table_frame s i = None" "i < 1024" "j < 1024"
  shows "tab_row i (Suc n) j s = Some ([], s)"
  using page_info_frame(1) [OF assms(1), of "push_bit 22 (of_nat i) + push_bit 12 (of_nat j)"] dumped_address(1) [OF assms(3,4)] assms(2)
  by auto

lemma tab_row_some:
  assumes "vm_wf s" "table_frame s i = Some f" "i < 1024" "j + n = 1024" "n \<noteq> 0"
  shows "tab_row i n j s = Some ((if j = 0 then 10 # numeral_of HEX (i * 1024) @ ascii '' ->'' else []) @
      concat (map (\<lambda>j. entry_spec j (shown_entry s f j)) [j..<1024]), show_frame f s)"
  using assms
proof (induction n arbitrary: j s)
  case (Suc n)
  have j: "j < 1024" using Suc.prems(4) by simp
  note a = dumped_address [OF Suc.prems(3) j]
  obtain info where i: "page_info (push_bit 22 (of_nat i) + push_bit 12 (of_nat j)) s = (0, info, show_frame f s)"
      "have_page_entry info" "page_table_entry info = shown_entry s f j"
    using page_info_frame(2) [OF Suc.prems(1), of "push_bit 22 (of_nat i) + push_bit 12 (of_nat j)" f] Suc.prems(2) a
    by (auto simp: shown_entry_show_frame)
  have e: "[j..<1024] = j # [j + 1..<1024]" using j by (simp add: upt_conv_Cons)
  show ?case
  proof (cases "n = 0")
    case True
    then show ?thesis using Suc.prems(4) i header_text [OF Suc.prems(3)] entry_text_spec [OF j] by (simp add: e)
  next
    case False
    have "tab_row i n (j + 1) (show_frame f s) = Some ((if j + 1 = 0 then 10 # numeral_of HEX (i * 1024) @ ascii '' ->'' else []) @
      concat (map (\<lambda>j. entry_spec j (shown_entry (show_frame f s) f j)) [j + 1..<1024]), show_frame f (show_frame f s))"
      by (rule Suc.IH) (use Suc.prems False in simp_all)
    then show ?thesis using i header_text [OF Suc.prems(3)] entry_text_spec [OF j] by (simp add: e shown_entry_show_frame show_frame_twice)
  qed
qed simp

text \<open>Where a run over \<open>n\<close> directory slots from slot \<open>i\<close> ends: with the last page table among them in the window.\<close>

definition shows_last :: "nat \<Rightarrow> nat \<Rightarrow> 'a vm_st_scheme \<Rightarrow> 'a vm_st_scheme \<Rightarrow> bool" where
  "shows_last i n s s' \<longleftrightarrow> (\<forall>d \<in> {i..<i + n}. table_frame s d = None) \<and> s' = s \<or>
     (\<exists>d \<in> {i..<i + n}. \<exists>f. table_frame s d = Some f \<and> (\<forall>d' \<in> {d + 1..<i + n}. table_frame s d' = None) \<and> s' = show_frame f s)"

lemma shows_last_Suc:
  assumes "shows_last i 1 s t" "shows_last (i + 1) n t s'" "table_frame t = table_frame s"
  shows "shows_last i (Suc n) s s'"
proof -
  have r: "{i..<i + Suc n} = insert i {i + 1..<i + 1 + n}" by auto
  from assms(1) have "table_frame s i = None \<and> t = s \<or> (\<exists>f. table_frame s i = Some f \<and> t = show_frame f s)"
    by (auto simp: shows_last_def)
  note first = this
  from assms(2,3) consider
      (none) "\<forall>d \<in> {i + 1..<i + 1 + n}. table_frame s d = None" "s' = t"
    | (some) d f where "d \<in> {i + 1..<i + 1 + n}" "table_frame s d = Some f" "\<forall>d' \<in> {d + 1..<i + Suc n}. table_frame s d' = None"
        "s' = show_frame f t"
    unfolding shows_last_def by auto
  then show ?thesis
  proof cases
    case none
    then show ?thesis using first unfolding shows_last_def r by auto
  next
    case some
    moreover have "show_frame f t = show_frame f s" using first by (auto simp: show_frame_twice)
    ultimately show ?thesis unfolding shows_last_def by (intro disjI2 bexI [of _ d] exI [of _ f]) auto
  qed
qed

lemma tab_rows_spec:
  assumes "vm_wf s" "i + n \<le> 1024"
  shows "\<exists>s'. tab_rows n i s = Some (concat (map (row_spec s) [i..<i + n]), s') \<and> shows_last i n s s'"
  using assms
proof (induction n arbitrary: i s)
  case (Suc n)
  have i: "i < 1024" using Suc.prems(2) by simp
  have e: "[i..<Suc (i + n)] = i # [Suc i..<Suc (i + n)]" by (simp add: upt_conv_Cons)
  have len: "(1024 :: nat) = Suc 1023" by simp
  obtain t where row: "tab_row i 1024 0 s = Some (row_spec s i, t)" and t: "vm_wf t" "table_frame t = table_frame s" "row_spec t = row_spec s"
    and l: "shows_last i 1 s t"
  proof (cases "table_frame s i")
    case None
    have "shows_last i 1 s s" using None by (simp add: shows_last_def)
    then show ?thesis using that tab_row_none [OF Suc.prems(1) None i, of 0 1023] Suc.prems(1) None
      by (simp only: len [symmetric] row_spec_def option.case)
  next
    case (Some f)
    have "shows_last i 1 s (show_frame f s)" using Some by (simp add: shows_last_def)
    then show ?thesis
      using that [of "show_frame f s"] tab_row_some [OF Suc.prems(1) Some i, of 0 1024] Suc.prems(1) Some
      by (simp add: row_spec_def [of s i] fun_eq_iff)
  qed
  obtain s' where "tab_rows n (i + 1) t = Some (concat (map (row_spec t) [i + 1..<i + 1 + n]), s')" "shows_last (i + 1) n t s'"
    using Suc.IH [OF t(1), of "i + 1"] Suc.prems(2) by auto
  then show ?case using row t shows_last_Suc [OF l _ t(2)] by (simp add: e del: upt_Suc)
qed (simp add: shows_last_def)

text \<open>
  C25. The dump of the page tables is exact: \<open>memdebug\<close> prints a line for every directory slot that has a page table,
  and in it, in order, the number of every present entry with the marks of the pages that can be written and of
  those that user code reaches. Apart from what it prints, it changes one word of the machine only, the entry of the window in the page table of the kernel, which is left
  showing the page table of the last slot that has one: the directory and every other entry of every table are as they were.
\<close>

theorem mem_debug_lists_present_entries:
  assumes "vm_wf s"
  shows "\<exists>s' d f. mem_debug s = Some (10 # dump_spec s, s') \<and>
    d < 1024 \<and> table_frame s d = Some f \<and> (\<forall>d'. d < d' \<and> d' < 1024 \<longrightarrow> table_frame s d' = None) \<and>
    s' = s\<lparr>pmem := (pmem s)(kernel_page_frame s := (pmem s (kernel_page_frame s))
           (unat (window_index (page_swap (lay s))) := f OR (PAGE_WRITE OR PAGE_PRESENT)))\<rparr> \<and>
    vm_wf s' \<and> table_frame s' = table_frame s \<and> (\<forall>w. \<not> is_window s w \<longrightarrow> pte s' w = pte s w)"
proof -
  obtain s' where s': "tab_rows 1024 0 s = Some (concat (map (row_spec s) [0..<1024]), s')" "shows_last 0 1024 s s'"
    using tab_rows_spec [OF assms, of 0 1024] by auto
  have "table_frame s 768 \<noteq> None" using assms by (simp add: vm_wf_def)
  with s'(2) obtain d f where f: "d < 1024" "table_frame s d = Some f" "\<forall>d'. d < d' \<and> d' < 1024 \<longrightarrow> table_frame s d' = None"
    "s' = show_frame f s"
    unfolding shows_last_def by (fastforce simp: Suc_le_eq)
  have "mem_debug s = Some (10 # dump_spec s, s')"
    using s'(1) emit_literal [of "ascii ''memory dump''"] emit_literal [of "[10]"] ascii_no_percent
    by (simp add: mem_debug_def page_info_display_tab_def dump_spec_def)
  moreover have "vm_wf s' \<and> table_frame s' = table_frame s" using assms f(4) by (simp add: fun_eq_iff)
  moreover have "\<forall>w. \<not> is_window s w \<longrightarrow> pte s' w = pte s w" using pte_show_frame [OF assms] f(4) by simp
  ultimately show ?thesis using f(1-3) f(4) [unfolded show_frame_def] by blast
qed

lemma mem_debug_lists_present_entries_witness:
  "\<exists>s'. mem_debug demo_vm = Some (10 # dump_spec demo_vm, s') \<and> table_frame s' 1 = Some 0x4F7000 \<and>
     pte s' 0x400000 = pte demo_vm 0x400000"
proof -
  have w: "\<not> is_window demo_vm 0x400000" by (simp add: is_window_def)
  obtain s' where "mem_debug demo_vm = Some (10 # dump_spec demo_vm, s')" "table_frame s' = table_frame demo_vm"
      "\<forall>w. \<not> is_window demo_vm w \<longrightarrow> pte s' w = pte demo_vm w"
    using mem_debug_lists_present_entries [OF demo_vm_wf] by blast
  then show ?thesis using w by (simp add: demo_vm_frames)
qed

end
