(* ===== verification/Terminal_Correct.thy ===== *)
theory Terminal_Correct
  imports Terminal
begin

text \<open>
  The invariant of the terminals and what their operations do. In a good state every screen has its
  2000 cells, every cursor lies on its screen, and the video memory is the screen of the current
  terminal. All operations keep it, with one exception, a backspace at the first cell of the
  screen. On top of it, the editing of an input line: the keys typed are delivered as the
  line that results from the editing, in one piece.
\<close>

definition term_ok :: "s_tty \<Rightarrow> bool" where
  "term_ok x \<longleftrightarrow> length (screen x) = 2000 \<and> tty_row x < 25 \<and> tty_column x < 80"

definition ttys_ok :: "'a tty_st_scheme \<Rightarrow> bool" where
  "ttys_ok s \<longleftrightarrow> (\<forall>t < MAX_TTY. term_ok (tty s t)) \<and> current_tty s < MAX_TTY \<and>
     vga_buffer s = screen (tty s (current_tty s))"

text \<open>The number of the cell the cursor is on.\<close>

definition cell_of :: "s_tty \<Rightarrow> nat" where
  "cell_of x = unat (tty_row x) * 80 + unat (tty_column x)"

lemma unat_cell:
  "(y :: u32) < 25 \<Longrightarrow> (x :: u32) < 80 \<Longrightarrow> unat (y * 80 + x) = unat y * 80 + unat x"
  by (simp add: word_less_nat_alt unat_word_ariths)

lemma row_below: "(w :: u32) < 25 \<Longrightarrow> w \<noteq> 24 \<Longrightarrow> w + 1 < 25"
  by (simp add: word_less_nat_alt unat_word_ariths word_unat_eq_iff)

lemma column_below: "(w :: u32) < 80 \<Longrightarrow> w \<noteq> 79 \<Longrightarrow> w + 1 < 80"
  by (simp add: word_less_nat_alt unat_word_ariths word_unat_eq_iff)

lemma same_row: "tty_row x = 24 \<Longrightarrow> x\<lparr>screen := scr, tty_row := 24\<rparr> = x\<lparr>screen := scr\<rparr>"
  by (cases x) simp

lemma cell_less: "term_ok x \<Longrightarrow> cell_of x < 2000"
  by (auto simp: term_ok_def cell_of_def word_less_nat_alt)

lemma length_scrolled: "length scr = 2000 \<Longrightarrow> length (scrolled color scr) = 2000"
  by (simp add: scrolled_def vga_size_defs)

lemma render_shows:
  "length (screen (tty s t)) = 2000 \<Longrightarrow> length (vga_buffer s) = 2000 \<Longrightarrow>
   tty_render_vga t s = s\<lparr>vga_buffer := screen (tty s t)\<rparr>"
  using map_nth [of "screen (tty s t)"] by (simp add: tty_render_vga_def vga_size_defs)

lemma update_tty_simps [simp]:
  "tty (update_tty t f s) = (tty s)(t := f (tty s t))"
  "current_tty (update_tty t f s) = current_tty s"
  "vga_buffer (update_tty t f s) = vga_buffer s"
  by (simp_all add: update_tty_def)

lemma cursor_to_simps [simp]:
  "tty (cursor_to t s) = tty s" "current_tty (cursor_to t s) = current_tty s"
  "vga_buffer (cursor_to t s) = vga_buffer s"
  by (simp_all add: cursor_to_def vga_move_cursor_def Let_def)

lemma ttys_ok_cursor_to [simp]: "ttys_ok (cursor_to t s) = ttys_ok s"
  by (simp add: ttys_ok_def)

lemma ttys_ok_term: "ttys_ok s \<Longrightarrow> t < MAX_TTY \<Longrightarrow> term_ok (tty s t)"
  by (simp add: ttys_ok_def)

lemma ttys_ok_vga: "ttys_ok s \<Longrightarrow> length (vga_buffer s) = 2000"
  by (auto simp: ttys_ok_def term_ok_def)

lemma ttys_ok_update:
  "ttys_ok s \<Longrightarrow> term_ok (f (tty s t)) \<Longrightarrow> screen (f (tty s t)) = screen (tty s t) \<Longrightarrow>
   ttys_ok (update_tty t f s)"
  by (auto simp: ttys_ok_def)

lemma putentryat_some:
  assumes "ttys_ok s" "t < MAX_TTY" "x < 80" "y < 25"
  obtains s1 where "tty_putentryat t c color x y s = Some s1" "ttys_ok s1" "current_tty s1 = current_tty s"
    "tty s1 = (tty s)(t := (tty s t)\<lparr>screen := (screen (tty s t))[unat y * 80 + unat x := vga_entry c color]\<rparr>)"
proof -
  have "unat y * 80 + unat x < 2000" using assms(3,4) by (simp add: word_less_nat_alt)
  moreover have "length (screen (tty s t)) = 2000" using ttys_ok_term [OF assms(1,2)] by (simp add: term_ok_def)
  ultimately show ?thesis
    using assms ttys_ok_vga [OF assms(1)] unat_cell [OF assms(4,3)] ttys_ok_term [OF assms(1,2)]
    by (intro that [of "let s1 = update_tty t (\<lambda>z. z\<lparr>screen := (screen z)[unat y * 80 + unat x := vga_entry c color]\<rparr>) s
           in if current_tty s = t then s1\<lparr>vga_buffer := (vga_buffer s1)[unat y * 80 + unat x := vga_entry c color]\<rparr> else s1"])
       (simp_all add: tty_putentryat_def vga_size_defs ttys_ok_def term_ok_def Let_def)
qed

lemma next_row_eq:
  assumes "tty_row (tty s t) < 25"
  shows "next_row t s =
    (if tty_row (tty s t) = 24
     then (let s2 = tty_scrollup t s in if t = current_tty s then tty_render_vga t s2 else s2)
     else update_tty t (\<lambda>x. x\<lparr>tty_row := tty_row x + 1\<rparr>) s)"
proof -
  have "tty_row (tty s t) \<noteq> 25" using assms by auto
  moreover have "tty_row (tty s t) + 1 = 25 \<longleftrightarrow> tty_row (tty s t) = 25 - 1" by (rule eq_diff_eq [symmetric])
  ultimately show ?thesis
    by (simp add: next_row_def same_row tty_scrollup_def tty_render_vga_def update_tty_def Let_def vga_size_defs)
qed


lemma next_row_ok:
  assumes "ttys_ok s" "t < MAX_TTY"
  shows "ttys_ok (next_row t s)" "current_tty (next_row t s) = current_tty s"
    "tty (next_row t s) = (tty s)(t :=
       if tty_row (tty s t) = 24 then (tty s t)\<lparr>screen := scrolled (tty_color (tty s t)) (screen (tty s t))\<rparr>
       else (tty s t)\<lparr>tty_row := tty_row (tty s t) + 1\<rparr>)"
proof -
  note ok = ttys_ok_term [OF assms]
  have row: "tty_row (tty s t) < 25" and len: "length (screen (tty s t)) = 2000" using ok by (simp_all add: term_ok_def)
  note eq = next_row_eq [OF row] length_scrolled [OF len]
  have rend: "tty_render_vga t (tty_scrollup t s) = (tty_scrollup t s)\<lparr>vga_buffer := screen (tty (tty_scrollup t s) t)\<rparr>"
    using ttys_ok_vga [OF assms(1)] eq(2) by (intro render_shows) (simp_all add: tty_scrollup_def)
  have "tty_row (tty s t) \<noteq> 24 \<Longrightarrow> tty_row (tty s t) + 1 < 25"
    using row row_below by simp
  then show "ttys_ok (next_row t s)" "current_tty (next_row t s) = current_tty s"
    "tty (next_row t s) = (tty s)(t :=
       if tty_row (tty s t) = 24 then (tty s t)\<lparr>screen := scrolled (tty_color (tty s t)) (screen (tty s t))\<rparr>
       else (tty s t)\<lparr>tty_row := tty_row (tty s t) + 1\<rparr>)"
    using assms eq ok rend by (auto simp: ttys_ok_def term_ok_def Let_def tty_scrollup_def)
qed

text \<open>Only the screen, the cursor and the color may differ.\<close>

definition same_line :: "s_tty \<Rightarrow> s_tty \<Rightarrow> bool" where
  "same_line x y \<longleftrightarrow> input_raw y = input_raw x \<and> input_raw_c y = input_raw_c x \<and> input y = input x"

lemma same_line_refl [simp]: "same_line x x"
  by (simp add: same_line_def)

lemma tty_printchar_ok:
  assumes "ttys_ok s" "t < MAX_TTY"
  obtains s' y where "tty_printchar t c s = Some s'" "ttys_ok s'" "current_tty s' = current_tty s"
    "tty s' = (tty s)(t := y)" "same_line (tty s t) y"
    "cell_of y = (if cell_of (tty s t) = 1999 then 1920 else cell_of (tty s t) + 1)"
proof -
  let ?x = "tty s t"
  note ok = ttys_ok_term [OF assms]
  have row: "tty_row ?x < 25" and col: "tty_column ?x < 80" using ok by (simp_all add: term_ok_def)
  obtain s1 where s1: "tty_putentryat t c (tty_color ?x) (tty_column ?x) (tty_row ?x) s = Some s1"
      "ttys_ok s1" "current_tty s1 = current_tty s"
      "tty s1 = (tty s)(t := ?x\<lparr>screen := (screen ?x)[unat (tty_row ?x) * 80 + unat (tty_column ?x) := vga_entry c (tty_color ?x)]\<rparr>)"
    by (rule putentryat_some [OF assms col row])
  have wrap: "tty_column ?x + 1 = 80 \<longleftrightarrow> tty_column ?x = 80 - 1" by (rule eq_diff_eq [symmetric])
  define s2 where "s2 = update_tty t (\<lambda>x. x\<lparr>tty_column := tty_column x + 1\<rparr>) s1"
  show ?thesis
  proof (cases "tty_column ?x = 79")
    case False
    have "ttys_ok s2"
      unfolding s2_def using column_below [OF col False] ok s1 by (intro ttys_ok_update) (simp_all add: term_ok_def)
    moreover have "tty_printchar t c s = Some (cursor_to t s2)"
      using s1 False wrap by (simp add: tty_printchar_def s2_def Let_def vga_size_defs)
    moreover have "unat (tty_column ?x + 1) = unat (tty_column ?x) + 1"
      using col by (simp add: word_less_nat_alt unat_word_ariths)
    moreover have "cell_of ?x \<noteq> 1999"
      using False row col by (auto simp: cell_of_def word_less_nat_alt word_unat_eq_iff)
    ultimately show ?thesis using s1
      by (intro that [of "cursor_to t s2" "tty s2 t"]) (simp_all add: s2_def cell_of_def same_line_def)
  next
    case True
    define s3 where "s3 = update_tty t (\<lambda>x. x\<lparr>tty_column := 0\<rparr>) s2"
    have s3: "s3 = update_tty t (\<lambda>x. x\<lparr>tty_column := 0\<rparr>) s1" by (simp add: s3_def s2_def update_tty_def)
    have ok3: "ttys_ok s3"
      unfolding s3 using ok s1 by (intro ttys_ok_update) (simp_all add: term_ok_def)
    have res: "tty_printchar t c s = Some (cursor_to t (next_row t s3))"
      using s1 True wrap by (simp add: tty_printchar_def s3_def s2_def Let_def vga_size_defs)
    have "tty_row ?x \<noteq> 24 \<Longrightarrow> unat (tty_row ?x + 1) = unat (tty_row ?x) + 1 \<and> unat (tty_row ?x) < 24"
      using row by (simp add: word_less_nat_alt unat_word_ariths word_unat_eq_iff)
    then show ?thesis using s1 True res next_row_ok [OF ok3 assms(2)]
      by (intro that [of "cursor_to t (next_row t s3)" "tty (next_row t s3) t"])
         (auto simp: s3 cell_of_def same_line_def)
  qed
qed

lemma tty_putendl_ok:
  assumes "ttys_ok s" "t < MAX_TTY"
  shows "ttys_ok (tty_putendl t s)" "current_tty (tty_putendl t s) = current_tty s"
    "tty (tty_putendl t s) = (tty s)(t := tty (tty_putendl t s) t)" "same_line (tty s t) (tty (tty_putendl t s) t)"
proof -
  note nr = next_row_ok [OF assms]
  have "ttys_ok (update_tty t (\<lambda>x. x\<lparr>tty_column := 0\<rparr>) (next_row t s))"
    using nr ttys_ok_term [OF nr(1) assms(2)] by (intro ttys_ok_update) (simp_all add: term_ok_def)
  then show "ttys_ok (tty_putendl t s)" by (simp add: tty_putendl_def)
  show "current_tty (tty_putendl t s) = current_tty s"
    "tty (tty_putendl t s) = (tty s)(t := tty (tty_putendl t s) t)" "same_line (tty s t) (tty (tty_putendl t s) t)"
    using nr by (simp_all add: tty_putendl_def same_line_def)
qed

lemma tty_putretchariot_ok:
  "ttys_ok s \<Longrightarrow> t < MAX_TTY \<Longrightarrow> ttys_ok (tty_putretchariot t s)"
  unfolding tty_putretchariot_def using ttys_ok_term [of s t] by (intro ttys_ok_update) (simp_all add: term_ok_def)

lemma tty_backspace_ok:
  assumes "ttys_ok s" "t < MAX_TTY" "cell_of (tty s t) \<noteq> 0"
  obtains s' y where "tty_backspace t s = Some s'" "ttys_ok s'" "current_tty s' = current_tty s"
    "tty s' = (tty s)(t := y)" "same_line (tty s t) y" "cell_of y = cell_of (tty s t) - 1"
proof -
  let ?x = "tty s t"
  define y where "y = (if tty_column ?x = 0 \<and> tty_row ?x \<noteq> 0
      then ?x\<lparr>tty_column := 79, tty_row := tty_row ?x - 1\<rparr> else ?x\<lparr>tty_column := tty_column ?x - 1\<rparr>)"
  define s1 where "s1 = update_tty t (\<lambda>_. y) s"
  note ok = ttys_ok_term [OF assms(1,2)]
  have row: "unat (tty_row ?x) < 25" and col: "unat (tty_column ?x) < 80" and nz: "unat (tty_row ?x) * 80 + unat (tty_column ?x) \<noteq> 0"
    using ok assms(3) by (simp_all add: term_ok_def word_less_nat_alt cell_of_def)
  have d: "unat (w - 1) = unat w - 1" if "w \<noteq> 0" for w :: u32
    using unat_minus_one [OF that] .
  have cl: "cell_of y = cell_of ?x - 1" and ry: "tty_row y < 25" and cy: "tty_column y < 80"
    using row col nz d [of "tty_row ?x"] d [of "tty_column ?x"]
    by (auto simp: y_def cell_of_def word_less_nat_alt word_unat_eq_iff)
  have sc: "screen y = screen ?x" "tty_color y = tty_color ?x" by (simp_all add: y_def)
  have ok1: "ttys_ok s1" unfolding s1_def using assms ok sc ry cy by (intro ttys_ok_update) (simp_all add: term_ok_def)
  have eq: "tty_backspace t s = map_option (cursor_to t) (tty_putentryat t 32 (tty_color y) (tty_column y) (tty_row y) s1)"
    by (simp add: tty_backspace_def s1_def y_def update_tty_def Let_def vga_size_defs)
  obtain s2 where s2: "tty_putentryat t 32 (tty_color y) (tty_column y) (tty_row y) s1 = Some s2"
      "ttys_ok s2" "current_tty s2 = current_tty s1"
      "tty s2 = (tty s1)(t := (tty s1 t)\<lparr>screen := (screen (tty s1 t))[unat (tty_row y) * 80 + unat (tty_column y) := vga_entry 32 (tty_color y)]\<rparr>)"
    by (rule putentryat_some [OF ok1 assms(2) cy ry])
  show ?thesis using s2 cl eq
    by (intro that [of "cursor_to t s2" "tty s2 t"]) (simp_all add: s1_def cell_of_def same_line_def y_def)
qed

lemma tty_backspace_none:
  assumes "ttys_ok s" "t < MAX_TTY" "cell_of (tty s t) = 0"
  shows "tty_backspace t s = None"
proof -
  have z: "tty_row (tty s t) = 0" "tty_column (tty s t) = 0"
    using assms(3) by (simp_all add: cell_of_def word_unat_eq_iff)
  have "length (screen (tty s t)) = 2000" using ttys_ok_term [OF assms(1,2)] by (simp add: term_ok_def)
  moreover have "unat (- 1 :: u32) = 4294967295" by (simp add: unsigned_minus_1_eq_mask mask_eq_exp_minus_1)
  ultimately show ?thesis using z by (simp add: tty_backspace_def tty_putentryat_def Let_def vga_size_defs)
qed

lemma same_line_trans: "same_line x y \<Longrightarrow> same_line y z \<Longrightarrow> same_line x z"
  by (simp add: same_line_def)

lemma cell_0: "cell_of x = 0 \<longleftrightarrow> tty_row x = 0 \<and> tty_column x = 0"
  by (simp add: cell_of_def word_unat_eq_iff)

lemma not_printed [simp]: "isprint 8 = 0" "isprint 10 = 0" "isprint 13 = 0"
  by (simp_all add: char_class_defs)

lemma tty_putchar_none:
  assumes "ttys_ok s" "t < MAX_TTY"
  shows "tty_putchar t c s = None \<longleftrightarrow> c = 8 \<and> tty_row (tty s t) = 0 \<and> tty_column (tty s t) = 0"
proof (cases "isprint (sint c) \<noteq> 0")
  case True
  obtain s' y where "tty_printchar t c s = Some s'" by (rule tty_printchar_ok [OF assms, of c])
  moreover have "c \<noteq> 8" using True by auto
  ultimately show ?thesis using True by (simp add: tty_putchar_def)
next
  case False
  show ?thesis
  proof (cases "c = 8")
    case True
    have "tty_backspace t s = None \<longleftrightarrow> cell_of (tty s t) = 0"
      using tty_backspace_none [OF assms] tty_backspace_ok [OF assms] by (metis option.distinct(1))
    with True show ?thesis by (simp add: tty_putchar_def cell_0)
  qed (use False in \<open>simp add: tty_putchar_def\<close>)
qed

lemma tty_putchar_ok:
  assumes "ttys_ok s" "t < MAX_TTY" "tty_putchar t c s = Some s'"
  shows "ttys_ok s'"
proof (cases "isprint (sint c) \<noteq> 0")
  case True
  obtain s1 y where "tty_printchar t c s = Some s1" "ttys_ok s1" by (rule tty_printchar_ok [OF assms(1,2), of c])
  with True assms(3) show ?thesis by (simp add: tty_putchar_def)
next
  case False
  show ?thesis
  proof (cases "c = 8")
    case True
    then have b: "tty_backspace t s = Some s'" using assms(3) by (simp add: tty_putchar_def)
    then have "cell_of (tty s t) \<noteq> 0" using tty_backspace_none [OF assms(1,2)] by auto
    then obtain s1 y where "tty_backspace t s = Some s1" "ttys_ok s1" by (rule tty_backspace_ok [OF assms(1,2)])
    with b show ?thesis by simp
  next
    case n8: False
    show ?thesis using assms(3) False n8 tty_putendl_ok(1) [OF assms(1,2)] tty_putretchariot_ok [OF assms(1,2)] assms(1)
      by (auto simp: tty_putchar_def split: if_splits)
  qed
qed

lemma tty_write_ok:
  "ttys_ok s \<Longrightarrow> t < MAX_TTY \<Longrightarrow> tty_write t data s = Some s' \<Longrightarrow> ttys_ok s'"
proof (induction t data s rule: tty_write.induct)
  case (2 t c data s)
  then obtain s1 where "tty_putchar t c s = Some s1" "tty_write t data s1 = Some s'"
    by (auto split: option.splits)
  with 2 tty_putchar_ok [OF 2(2,3)] show ?case by auto
qed simp

lemma tty_write_some:
  "ttys_ok s \<Longrightarrow> t < MAX_TTY \<Longrightarrow> 8 \<notin> set data \<Longrightarrow> \<exists>s'. tty_write t data s = Some s'"
proof (induction t data s rule: tty_write.induct)
  case (2 t c data s)
  then obtain s1 where s1: "tty_putchar t c s = Some s1" using tty_putchar_none [of s t c] by fastforce
  with 2 tty_putchar_ok [OF 2(2,3) s1] show ?case by simp
qed simp

lemma tty_clear_screen_ok:
  assumes "ttys_ok s" "t < MAX_TTY"
  shows "ttys_ok (tty_clear_screen t s)"
proof -
  have len: "length (screen (tty s t)) = 2000" using ttys_ok_term [OF assms] by (simp add: term_ok_def)
  let ?f = "\<lambda>x :: s_tty. x\<lparr>screen := replicate (VGA_WIDTH * VGA_HEIGHT) (vga_entry 32 (tty_color x))
                  @ drop (VGA_WIDTH * VGA_HEIGHT) (screen x), tty_row := 0, tty_column := 0\<rparr>"
  have "tty_render_vga t (update_tty t ?f s) = (update_tty t ?f s)\<lparr>vga_buffer := screen (tty (update_tty t ?f s) t)\<rparr>"
    using len ttys_ok_vga [OF assms(1)] by (intro render_shows) (simp_all add: vga_size_defs)
  then show ?thesis using assms len
    by (auto simp: tty_clear_screen_def Let_def ttys_ok_def term_ok_def vga_move_cursor_def vga_size_defs)
qed

lemma switch_tty_ok:
  assumes "ttys_ok s" "t < MAX_TTY"
  shows "ttys_ok (switch_tty t s)" "current_tty (switch_tty t s) = t" "tty (switch_tty t s) = tty s"
    "vga_buffer (switch_tty t s) = screen (tty s t)"
proof -
  have "tty_render_vga t (s\<lparr>current_tty := t\<rparr>) = (s\<lparr>current_tty := t\<rparr>)\<lparr>vga_buffer := screen (tty s t)\<rparr>"
    using ttys_ok_term [OF assms] ttys_ok_vga [OF assms(1)] render_shows [of "s\<lparr>current_tty := t\<rparr>" t]
    by (simp add: term_ok_def)
  then show "ttys_ok (switch_tty t s)" "current_tty (switch_tty t s) = t" "tty (switch_tty t s) = tty s"
    "vga_buffer (switch_tty t s) = screen (tty s t)"
    using assms by (simp_all add: switch_tty_def ttys_ok_def)
qed

subsection \<open>Properties of the screens\<close>

text \<open>What the rest of the kernel asks of the terminals.\<close>

datatype tty_op = Put nat "u8 list" | Clear nat | Switch nat | Color nat u8

fun tty_op_of :: "tty_op \<Rightarrow> nat" where
  "tty_op_of (Put t _) = t" | "tty_op_of (Clear t) = t" | "tty_op_of (Switch t) = t" | "tty_op_of (Color t _) = t"

fun tty_run :: "tty_op list \<Rightarrow> 'a tty_st_scheme \<Rightarrow> 'a tty_st_scheme option" where
  "tty_run [] s = Some s"
| "tty_run (Put t d # ops) s = (case tty_write t d s of None \<Rightarrow> None | Some s1 \<Rightarrow> tty_run ops s1)"
| "tty_run (Clear t # ops) s = tty_run ops (tty_clear_screen t s)"
| "tty_run (Switch t # ops) s = tty_run ops (switch_tty t s)"
| "tty_run (Color t c # ops) s = tty_run ops (tty_setcolor t c s)"

lemma tty_setcolor_ok: "ttys_ok s \<Longrightarrow> t < MAX_TTY \<Longrightarrow> ttys_ok (tty_setcolor t c s)"
  unfolding tty_setcolor_def using ttys_ok_term [of s t] by (intro ttys_ok_update) (simp_all add: term_ok_def)

lemma tty_run_ok:
  "ttys_ok s \<Longrightarrow> list_all (\<lambda>e. tty_op_of e < MAX_TTY) ops \<Longrightarrow> tty_run ops s = Some s' \<Longrightarrow> ttys_ok s'"
  by (induction ops s rule: tty_run.induct)
     (auto simp: tty_clear_screen_ok switch_tty_ok tty_setcolor_ok dest: tty_write_ok split: option.splits)

text \<open>A backspace that is written with the cursor in the first cell: the only way for a write to leave the screen.\<close>

definition backs_off :: "nat \<Rightarrow> u8 list \<Rightarrow> 'a tty_st_scheme \<Rightarrow> bool" where
  "backs_off t d s \<longleftrightarrow> (\<exists>d1 d2 s1. d = d1 @ 8 # d2 \<and> tty_write t d1 s = Some s1 \<and>
     tty_row (tty s1 t) = 0 \<and> tty_column (tty s1 t) = 0)"

lemma backs_off_Nil [simp]: "\<not> backs_off t [] s"
  by (simp add: backs_off_def)

lemma backs_off_Cons:
  "backs_off t (c # d) s \<longleftrightarrow> (c = 8 \<and> tty_row (tty s t) = 0 \<and> tty_column (tty s t) = 0) \<or>
     (\<exists>s1. tty_putchar t c s = Some s1 \<and> backs_off t d s1)"
proof
  assume "backs_off t (c # d) s"
  then obtain d1 d2 s1 where b: "c # d = d1 @ 8 # d2" "tty_write t d1 s = Some s1" "tty_row (tty s1 t) = 0" "tty_column (tty s1 t) = 0"
    unfolding backs_off_def by blast
  then show "(c = 8 \<and> tty_row (tty s t) = 0 \<and> tty_column (tty s t) = 0) \<or> (\<exists>s1. tty_putchar t c s = Some s1 \<and> backs_off t d s1)"
    unfolding backs_off_def by (cases d1) (auto split: option.splits)
next
  assume "(c = 8 \<and> tty_row (tty s t) = 0 \<and> tty_column (tty s t) = 0) \<or> (\<exists>s1. tty_putchar t c s = Some s1 \<and> backs_off t d s1)"
  then consider "c = 8" "tty_row (tty s t) = 0" "tty_column (tty s t) = 0" | s1 where "tty_putchar t c s = Some s1" "backs_off t d s1"
    by blast
  then show "backs_off t (c # d) s"
  proof cases
    case 1
    then show ?thesis unfolding backs_off_def by (intro exI [of _ "[]"] exI [of _ d] exI [of _ s]) simp
  next
    case 2
    then obtain d1 d2 s2 where "d = d1 @ 8 # d2" "tty_write t d1 s1 = Some s2" "tty_row (tty s2 t) = 0" "tty_column (tty s2 t) = 0"
      unfolding backs_off_def by blast
    with 2(1) show ?thesis unfolding backs_off_def by (intro exI [of _ "c # d1"] exI [of _ d2] exI [of _ s2]) simp
  qed
qed

lemma tty_write_none: "ttys_ok s \<Longrightarrow> t < MAX_TTY \<Longrightarrow> tty_write t d s = None \<longleftrightarrow> backs_off t d s"
proof (induction t d s rule: tty_write.induct)
  case (2 t c d s)
  show ?case
  proof (cases "tty_putchar t c s")
    case None
    then show ?thesis using tty_putchar_none [OF "2.prems", of c] by (simp add: backs_off_Cons)
  next
    case (Some s1)
    then show ?thesis
      using "2.IH" tty_putchar_ok [OF "2.prems" Some] "2.prems" tty_putchar_none [OF "2.prems", of c] by (auto simp: backs_off_Cons)
  qed
qed simp

lemma tty_run_append: "tty_run (pre @ ops) s = Option.bind (tty_run pre s) (tty_run ops)"
  by (induction pre s rule: tty_run.induct) (auto split: option.splits)

lemma tty_run_none:
  "ttys_ok s \<Longrightarrow> list_all (\<lambda>e. tty_op_of e < MAX_TTY) ops \<Longrightarrow> tty_run ops s = None \<Longrightarrow>
   \<exists>pre t d rest s1. ops = pre @ Put t d # rest \<and> tty_run pre s = Some s1 \<and> backs_off t d s1"
proof (induction ops s rule: tty_run.induct)
  case (2 t d ops s)
  show ?case
  proof (cases "tty_write t d s")
    case None
    then have "backs_off t d s" using tty_write_none [of s t d] "2.prems" by simp
    then show ?thesis by (intro exI [of _ "[]"]) auto
  next
    case (Some s1)
    then obtain pre t' d' rest s2 where "ops = pre @ Put t' d' # rest" "tty_run pre s1 = Some s2" "backs_off t' d' s2"
      using "2.IH" [OF Some] tty_write_ok [of s t d s1] "2.prems" by auto
    then show ?thesis using Some by (intro exI [of _ "Put t d # pre"]) auto
  qed
next
  case (3 t ops s)
  then obtain pre t' d' rest s2 where "ops = pre @ Put t' d' # rest" "tty_run pre (tty_clear_screen t s) = Some s2" "backs_off t' d' s2"
    using tty_clear_screen_ok [of s t] by auto
  then show ?case by (intro exI [of _ "Clear t # pre"]) auto
next
  case (4 t ops s)
  then obtain pre t' d' rest s2 where "ops = pre @ Put t' d' # rest" "tty_run pre (switch_tty t s) = Some s2" "backs_off t' d' s2"
    using switch_tty_ok(1) [of s t] by auto
  then show ?case by (intro exI [of _ "Switch t # pre"]) auto
next
  case (5 t c ops s)
  then obtain pre t' d' rest s2 where "ops = pre @ Put t' d' # rest" "tty_run pre (tty_setcolor t c s) = Some s2" "backs_off t' d' s2"
    using tty_setcolor_ok [of s t c] by auto
  then show ?case by (intro exI [of _ "Color t c # pre"]) auto
qed simp

text \<open>C20. The ten terminals are written, cleared, recolored and switched in any order, from a state in which the video memory shows
  the current terminal and every cursor is on its screen. Either a write comes to a backspace with the cursor of its terminal
  in the first cell, and then the run has no value (\<^verbatim>\<open>tty_putchar.c:49\<close>: the cell written lies outside the screen); or the run ends, and the
  video memory holds the screen of the current terminal, every cursor is on its screen and every screen has its 2000 cells.\<close>

theorem video_memory_shows_current_terminal:
  assumes "ttys_ok s" "list_all (\<lambda>e. tty_op_of e < MAX_TTY) ops"
  shows "if \<exists>pre t d rest s1. ops = pre @ Put t d # rest \<and> tty_run pre s = Some s1 \<and> backs_off t d s1
    then tty_run ops s = None
    else \<exists>s'. tty_run ops s = Some s' \<and> vga_buffer s' = screen (tty s' (current_tty s')) \<and>
      length (vga_buffer s') = VGA_WIDTH * VGA_HEIGHT \<and> ttys_ok s'"
proof (cases "\<exists>pre t d rest s1. ops = pre @ Put t d # rest \<and> tty_run pre s = Some s1 \<and> backs_off t d s1")
  case True
  then obtain pre t d rest s1 where o: "ops = pre @ Put t d # rest" "tty_run pre s = Some s1" "backs_off t d s1" by blast
  have "ttys_ok s1" by (rule tty_run_ok [OF assms(1) _ o(2)]) (use assms(2) o(1) in simp)
  then have "tty_write t d s1 = None" using tty_write_none [of s1 t d] o assms(2) by simp
  then show ?thesis using True o by (simp add: tty_run_append)
next
  case False
  then obtain s' where s': "tty_run ops s = Some s'" using tty_run_none [OF assms] by blast
  from tty_run_ok [OF assms s'] have ok: "ttys_ok s'" .
  show ?thesis using False s' ok ttys_ok_vga [OF ok] by (simp add: ttys_ok_def vga_size_defs)
qed

definition demo_tty :: "unit tty_st_scheme" where
  "demo_tty = \<lparr>tty = (\<lambda>_. \<lparr>tty_row = 0, tty_column = 0, tty_color = 7, screen = replicate 2000 0x720,
      input_raw = replicate 128 0, input_raw_c = 0, input = demo_stream\<rparr>),
     current_tty = 0, vga_buffer = replicate 2000 0x720, vga_ports = []\<rparr>"

lemma demo_tty_ok: "ttys_ok demo_tty"
  by (simp add: ttys_ok_def demo_tty_def term_ok_def MAX_TTY_def)

theorem video_memory_shows_current_terminal_witness:
  "(\<exists>s'. tty_run [Switch 3, Color 3 12, Put 3 [65, 10, 66], Clear 0] demo_tty = Some s' \<and>
     vga_buffer s' = screen (tty s' (current_tty s'))) \<and> tty_run [Clear 0, Put 0 [8]] demo_tty = None"
proof
  have t: "(0 :: nat) < MAX_TTY" "(3 :: nat) < MAX_TTY" by (simp_all add: MAX_TTY_def)
  have data: "8 \<notin> set [65, 10, 66 :: u8]" by simp
  obtain s1 where "tty_write 3 [65, 10, 66] (tty_setcolor 3 12 (switch_tty 3 demo_tty)) = Some s1"
    using tty_write_some [OF tty_setcolor_ok [OF switch_tty_ok(1) [OF demo_tty_ok t(2)] t(2)] t(2) data] by blast
  then have r: "tty_run [Switch 3, Color 3 12, Put 3 [65, 10, 66], Clear 0] demo_tty = Some (tty_clear_screen 0 s1)"
    by (simp del: tty_write.simps)
  have "list_all (\<lambda>e. tty_op_of e < MAX_TTY) [Switch 3, Color 3 12, Put 3 [65, 10, 66], Clear 0]"
    by (simp add: MAX_TTY_def)
  from video_memory_shows_current_terminal [OF demo_tty_ok this] show "\<exists>s'. tty_run [Switch 3, Color 3 12, Put 3 [65, 10, 66], Clear 0] demo_tty = Some s' \<and>
     vga_buffer s' = screen (tty s' (current_tty s'))"
    unfolding r by (metis option.distinct(1))
  have "backs_off 0 [8] (tty_clear_screen 0 demo_tty)"
    unfolding backs_off_Cons by (simp add: tty_clear_screen_def Let_def demo_tty_def vga_move_cursor_def tty_render_vga_def update_tty_def)
  then have "\<exists>pre t d rest s1. [Clear 0, Put 0 [8]] = pre @ Put t d # rest \<and> tty_run pre demo_tty = Some s1 \<and> backs_off t d s1"
    by (intro exI [of _ "[Clear 0]"]) simp
  moreover have "list_all (\<lambda>e. tty_op_of e < MAX_TTY) [Clear 0, Put 0 [8]]" using t by simp
  ultimately show "tty_run [Clear 0, Put 0 [8]] demo_tty = None"
    using video_memory_shows_current_terminal [OF demo_tty_ok, of "[Clear 0, Put 0 [8]]"] by (simp only: if_True)
qed

text \<open>C30. Writing a character has a meaning in every good state but one: a backspace with the
  cursor in the first cell, where the column wraps around to the largest 32-bit number and the cell
  written lies far outside the screen.\<close>

theorem putchar_leaves_the_screen_only_by_backspace:
  assumes "ttys_ok s" "t < MAX_TTY"
  shows "tty_putchar t c s = None \<longleftrightarrow> c = 8 \<and> tty_row (tty s t) = 0 \<and> tty_column (tty s t) = 0"
  by (rule tty_putchar_none [OF assms])

theorem putchar_leaves_the_screen_only_by_backspace_witness:
  "ttys_ok demo_tty \<and> tty_putchar 0 8 demo_tty = None \<and> tty_putchar 0 65 demo_tty \<noteq> None"
proof -
  have t: "(0 :: nat) < MAX_TTY" by (simp add: MAX_TTY_def)
  note w = putchar_leaves_the_screen_only_by_backspace [OF demo_tty_ok t]
  have "tty_putchar 0 8 demo_tty = None" by (subst w) (simp add: demo_tty_def)
  moreover have "tty_putchar 0 65 demo_tty \<noteq> None" by (subst w) simp
  ultimately show ?thesis using demo_tty_ok by simp
qed

end
