(* ===== verification/Input_Line.thy ===== *)
theory Input_Line
  imports Terminal_Correct
begin

text \<open>
  The input line of a terminal (\<^verbatim>\<open>kernel/tty/tty_input.c\<close>) against what a line editor
  promises: a printable key is appended while there is room, backspace takes the last character
  away, and the end of the line hands the whole line, with its newline, to the stream the readers
  see. The cursor is always at least as far as the line is long, which is why the
  backspaces of an edited line stay on the screen.
\<close>

fun edit :: "u8 list \<Rightarrow> u8 list \<Rightarrow> u8 list" where
  "edit line [] = line"
| "edit line (k # ks) = edit (if k = 8 then butlast line else if length line < 126 then line @ [k] else line) ks"

fun type_keys :: "nat \<Rightarrow> u8 list \<Rightarrow> 'a tty_st_scheme \<Rightarrow> 'a tty_st_scheme option" where
  "type_keys t [] s = Some s"
| "type_keys t (k # ks) s = (case tty_input_char t k s of None \<Rightarrow> None | Some s1 \<Rightarrow> type_keys t ks s1)"

definition line_key :: "u8 \<Rightarrow> bool" where
  "line_key k \<longleftrightarrow> k = 8 \<or> isprint (sint k) \<noteq> 0"

definition editing :: "nat \<Rightarrow> u8 list \<Rightarrow> 'a tty_st_scheme \<Rightarrow> bool" where
  "editing t line s \<longleftrightarrow> ttys_ok s \<and> t < MAX_TTY \<and> length (input_raw (tty s t)) = STREAM_BUFF \<and>
     input_raw_c (tty s t) = int (length line) \<and> take (length line) (input_raw (tty s t)) = line \<and>
     length line \<le> 126 \<and> length line \<le> cell_of (tty s t)"

lemma editing_update:
  "editing t line s \<Longrightarrow> term_ok (f (tty s t)) \<Longrightarrow> screen (f (tty s t)) = screen (tty s t) \<Longrightarrow> ttys_ok (update_tty t f s)"
  by (simp add: editing_def ttys_ok_update)

lemma key_cases: "line_key k \<Longrightarrow> k \<noteq> 0 \<and> k \<noteq> 10"
  by (auto simp: line_key_def char_class_defs)

lemma printed_not_8: "isprint (sint k) \<noteq> 0 \<Longrightarrow> k \<noteq> (8 :: u8)"
  by auto

lemma edit_step:
  assumes "editing t line s" "line_key k"
  obtains s' where "tty_input_char t k s = Some s'" "editing t (edit line [k]) s'"
    "tty s' = (tty s)(t := tty s' t)" "input (tty s' t) = input (tty s t)" "current_tty s' = current_tty s"
proof -
  let ?x = "tty s t"
  have ok: "ttys_ok s" and t: "t < MAX_TTY" and len: "length (input_raw ?x) = 128"
      and c: "input_raw_c ?x = int (length line)" and tk: "take (length line) (input_raw ?x) = line"
      and l: "length line \<le> 126" and cell: "length line \<le> cell_of ?x"
    using assms(1) by (simp_all add: editing_def STREAM_BUFF_def)
  note kc = key_cases [OF assms(2)]
  consider "k = 8" "line = []" | "k = 8" "line \<noteq> []" | "k \<noteq> 8" "length line = 126" | "k \<noteq> 8" "length line < 126"
    using l by linarith
  then show ?thesis
  proof cases
    case 1
    then show ?thesis using that [of s] assms(1) c by (simp add: tty_input_char_def)
  next
    case 2
    define s1 where "s1 = update_tty t (\<lambda>x. x\<lparr>input_raw_c := int (length line) - 1\<rparr>) s"
    have n: "length line > 0" using 2 by simp
    have ok1: "ttys_ok s1" unfolding s1_def using ok ttys_ok_term [OF ok t]
      by (intro ttys_ok_update) (simp_all add: term_ok_def)
    have cl: "cell_of (tty s1 t) = cell_of ?x" by (simp add: s1_def cell_of_def)
    have int_1: "int (length line) - 1 = int (length line - Suc 0)" using n by linarith
    have le_1: "length line - Suc 0 \<le> cell_of ?x - Suc 0" "length line - Suc 0 \<le> 126" using cell l by simp_all
    have "cell_of (tty s1 t) \<noteq> 0" using n cell cl by linarith
    then obtain s2 y where b: "tty_backspace t s1 = Some s2" "ttys_ok s2" "current_tty s2 = current_tty s1"
      "tty s2 = (tty s1)(t := y)" "same_line (tty s1 t) y" "cell_of y = cell_of (tty s1 t) - 1"
      by (rule tty_backspace_ok [OF ok1 t])
    have r: "tty_input_char t k s = Some s2"
      using 2 kc n c b(1) by (simp add: tty_input_char_def tty_putchar_def s1_def Let_def)
    have "take (length line - 1) (input_raw ?x) = butlast line"
      using arg_cong [OF tk, of butlast] len l by (simp add: butlast_take)
    moreover have y: "input_raw y = input_raw ?x" "input_raw_c y = int (length line) - 1" "input y = input ?x"
      using b(5) by (simp_all add: same_line_def s1_def)
    moreover have "input_raw (tty s2 t) = input_raw ?x" using b(4) y by simp
    moreover have "input_raw_c (tty s2 t) = int (length line - Suc 0)"
      by (subst int_1 [symmetric]) (simp add: b(4) y)
    moreover have "cell_of (tty s2 t) = cell_of ?x - Suc 0" using b(4,6) cl by simp
    moreover have "edit line [k] = butlast line" using 2 by simp
    ultimately have "editing t (edit line [k]) s2"
      unfolding editing_def using b(2) t le_1 len by (simp only: length_butlast STREAM_BUFF_def One_nat_def simp_thms)
    then show ?thesis using that [OF r] b by (simp add: s1_def same_line_def)
  next
    case 3
    then show ?thesis using that [of s] assms(1) c kc by (simp add: tty_input_char_def STREAM_BUFF_def)
  next
    case 4
    have pr: "isprint (sint k) \<noteq> 0" using assms(2) 4 by (simp add: line_key_def)
    define s1 where "s1 = update_tty t (\<lambda>x. x\<lparr>input_raw := (input_raw x)[length line := k], input_raw_c := int (length line) + 1\<rparr>) s"
    have ok1: "ttys_ok s1" unfolding s1_def using ok ttys_ok_term [OF ok t]
      by (intro ttys_ok_update) (simp_all add: term_ok_def)
    obtain s2 y where b: "tty_printchar t k s1 = Some s2" "ttys_ok s2" "current_tty s2 = current_tty s1"
      "tty s2 = (tty s1)(t := y)" "same_line (tty s1 t) y"
      "cell_of y = (if cell_of (tty s1 t) = 1999 then 1920 else cell_of (tty s1 t) + 1)"
      by (rule tty_printchar_ok [OF ok1 t])
    have r: "tty_input_char t k s = Some s2"
      using 4 kc c b(1) pr len by (simp add: tty_input_char_def tty_putchar_def s1_def Let_def STREAM_BUFF_def)
    have "take (length line + 1) ((input_raw ?x)[length line := k]) = line @ [k]"
      using tk len 4 by (simp add: take_Suc_conv_app_nth take_update_swap)
    moreover have "cell_of (tty s1 t) = cell_of ?x" by (simp add: s1_def cell_of_def)
    ultimately have "editing t (edit line [k]) s2"
      using 4 b cell len t by (simp add: editing_def same_line_def s1_def STREAM_BUFF_def)
    then show ?thesis using that [OF r] b by (simp add: s1_def same_line_def)
  qed
qed

lemma edit_steps:
  assumes "editing t line s" "list_all line_key ks"
  shows "\<exists>s'. type_keys t ks s = Some s' \<and> editing t (edit line ks) s' \<and>
    tty s' = (tty s)(t := tty s' t) \<and> input (tty s' t) = input (tty s t)"
  using assms
proof (induction ks arbitrary: line s)
  case (Cons k ks)
  have key: "line_key k" and rest: "list_all line_key ks" using Cons.prems(2) by simp_all
  obtain s1 where s1: "tty_input_char t k s = Some s1" "editing t (edit line [k]) s1"
      "tty s1 = (tty s)(t := tty s1 t)" "input (tty s1 t) = input (tty s t)"
    by (rule edit_step [OF Cons.prems(1) key]) blast
  obtain s' where "type_keys t ks s1 = Some s'" "editing t (edit (edit line [k]) ks) s'"
      "tty s' = (tty s1)(t := tty s' t)" "input (tty s' t) = input (tty s1 t)"
    using Cons.IH [OF s1(2) rest] by blast
  moreover from s1(3) this(3) have "tty s' = (tty s)(t := tty s' t)" by (metis fun_upd_upd)
  ultimately show ?case using s1(1,4) by (auto simp del: fun_upd_apply)
qed simp

lemma enter_step:
  assumes "editing t line s"
  obtains s' where "tty_input_char t 10 s = Some s'" "ttys_ok s'" "tty s' = (tty s)(t := tty s' t)"
    "input (tty s' t) = snd (stream_write (line @ [10]) (input (tty s t)))" "input_raw_c (tty s' t) = 0"
    "length (input_raw (tty s' t)) = STREAM_BUFF" "current_tty s' = current_tty s"
proof -
  let ?x = "tty s t"
  have ok: "ttys_ok s" and t: "t < MAX_TTY" and len: "length (input_raw ?x) = 128"
      and c: "input_raw_c ?x = int (length line)" and tk: "take (length line) (input_raw ?x) = line"
      and l: "length line \<le> 126"
    using assms by (simp_all add: editing_def STREAM_BUFF_def)
  define s1 where "s1 = update_tty t (\<lambda>x. x\<lparr>input_raw := (input_raw x)[length line := 10], input_raw_c := int (length line) + 1\<rparr>) s"
  have ok1: "ttys_ok s1" unfolding s1_def using ok ttys_ok_term [OF ok t]
    by (intro ttys_ok_update) (simp_all add: term_ok_def)
  note pe = tty_putendl_ok [OF ok1 t]
  define s2 where "s2 = update_tty t (\<lambda>x. x\<lparr>input := snd (stream_write (take (nat (input_raw_c x)) (input_raw x)) (input x)),
                                       input_raw_c := 0\<rparr>) (tty_putendl t s1)"
  have r: "tty_input_char t 10 s = Some s2"
    using c l len by (simp add: tty_input_char_def tty_putchar_def s1_def s2_def Let_def STREAM_BUFF_def)
  have "ttys_ok s2" unfolding s2_def using pe(1) ttys_ok_term [OF pe(1) t]
    by (intro ttys_ok_update) (simp_all add: term_ok_def)
  moreover have "take (length line + 1) ((input_raw ?x)[length line := 10]) = line @ [10]"
    using tk len l by (simp add: take_Suc_conv_app_nth take_update_swap)
  moreover have "nat (int (length line) + 1) = length line + 1" by simp
  moreover have "tty (tty_putendl t s1) u = tty s u" if "u \<noteq> t" for u
    using that fun_cong [OF pe(3), of u] by (simp add: s1_def)
  ultimately show ?thesis using that [OF r] pe(2,4) len
    by (simp add: s2_def same_line_def s1_def STREAM_BUFF_def fun_eq_iff)
qed

lemma type_keys_append: "type_keys t (xs @ ys) s = (case type_keys t xs s of None \<Rightarrow> None | Some s1 \<Rightarrow> type_keys t ys s1)"
  by (induction xs arbitrary: s) (simp_all split: option.split)

lemma stream_write_room:
  assumes "stream_inv q" "length (queued q) + length d \<le> 127"
  shows "queued (snd (stream_write d q)) = queued q @ d" "stream_inv (snd (stream_write d q))"
proof -
  obtain n q' where r: "stream_write d q = (n, q')" by (cases "stream_write d q")
  show "queued (snd (stream_write d q)) = queued q @ d" "stream_inv (snd (stream_write d q))"
    using stream.wr_appends [OF assms(1) r] assms(2) r by simp_all
qed

lemma edited_length: "length line \<le> 126 \<Longrightarrow> length (edit line ks) \<le> 126"
  by (induction ks arbitrary: line) simp_all

text \<open>The input line is a line editor in front of the stream. On a terminal at the start of a
  line, any sequence of printable keys and backspaces, ended by the newline key, runs without a
  fault, changes no other terminal, and gives to the readers of the terminal what \<open>edit\<close> makes of
  the keys, followed by the newline, behind what they had not read yet; keys past the 126th of
  the line are dropped. The line must fit into the room the stream has left.\<close>

theorem typed_line_reaches_the_readers:
  assumes "ttys_ok s" "t < MAX_TTY" "length (input_raw (tty s t)) = STREAM_BUFF" "input_raw_c (tty s t) = 0"
    "stream_inv (input (tty s t))" "list_all line_key ks"
    "length (queued (input (tty s t))) + length (edit [] ks) < 127"
  shows "\<exists>s'. type_keys t (ks @ [10]) s = Some s' \<and> ttys_ok s' \<and> tty s' = (tty s)(t := tty s' t) \<and>
    queued (input (tty s' t)) = queued (input (tty s t)) @ edit [] ks @ [10] \<and> input_raw_c (tty s' t) = 0"
proof -
  have "editing t [] s" using assms(1-4) by (simp add: editing_def)
  then obtain s1 where s1: "type_keys t ks s = Some s1" "editing t (edit [] ks) s1"
      "tty s1 = (tty s)(t := tty s1 t)" "input (tty s1 t) = input (tty s t)"
    using edit_steps [OF _ assms(6)] by blast
  obtain s' where s': "tty_input_char t 10 s1 = Some s'" "ttys_ok s'" "tty s' = (tty s1)(t := tty s' t)"
    "input (tty s' t) = snd (stream_write (edit [] ks @ [10]) (input (tty s1 t)))" "input_raw_c (tty s' t) = 0"
    by (rule enter_step [OF s1(2)]) blast
  have "tty s' = (tty s)(t := tty s' t)" using s1(3) s'(3) by (metis fun_upd_upd)
  moreover have "type_keys t (ks @ [10]) s = Some s'" using s1(1) s'(1) by (simp add: type_keys_append)
  ultimately show ?thesis using s' s1(4) stream_write_room [OF assms(5), of "edit [] ks @ [10]"] assms(7) by simp
qed

text \<open>The keys \<open>l\<close>, \<open>x\<close>, backspace, \<open>s\<close> and newline give the line \<open>ls\<close>.\<close>

theorem typed_line_reaches_the_readers_witness:
  "\<exists>s'. type_keys 2 ([108, 120, 8, 115] @ [10]) demo_tty = Some s' \<and> queued (input (tty s' 2)) = [108, 115, 10]"
proof -
  have k: "list_all line_key [108, 120, 8, 115]" by (simp add: line_key_def char_class_defs)
  have e: "edit [] [108, 120, 8, 115] = [108, 115]" by simp
  have q: "queued (input (tty demo_tty 2)) = []" "stream_inv (input (tty demo_tty 2))"
    by (simp_all add: demo_tty_def demo_stream_def queued_def stream_toread_def stream_inv_def STREAM_BUFF_def)
  have "length (queued (input (tty demo_tty 2))) + length (edit [] [108, 120, 8, 115]) < 127" using q e by simp
  from typed_line_reaches_the_readers [OF demo_tty_ok _ _ _ q(2) k this] e q(1)
  show ?thesis by (simp add: MAX_TTY_def) (force simp: demo_tty_def STREAM_BUFF_def)
qed

end
