(* ===== verification/Shell.thy ===== *)
theory Shell
  imports Printk_Correct Keyboard Input_Line
begin

text \<open>
  The command line of the kernel (\<^verbatim>\<open>kernel/minishell\<close>): the buffer of the line, the table of commands, the
  commands \<^verbatim>\<open>switchtty\<close> and \<^verbatim>\<open>layout\<close>. The commands that leave the machine (\<^verbatim>\<open>reboot\<close>, \<^verbatim>\<open>halt\<close>, \<^verbatim>\<open>shutdown\<close>) or
  only print (\<^verbatim>\<open>memdebug\<close>) are named in the outcome. The state has the terminals, the keyboard and the two
  global variables of the shell.
\<close>

definition SIZE_MAX_CMD :: nat where "SIZE_MAX_CMD = 128"

record shell_st =
  cmd :: "u8 list"
  cmd_ind :: nat
  sh_tty :: tty_st
  sh_kbd :: kbd_st

subsection \<open>The line\<close>

text \<open>A write past the end of \<^verbatim>\<open>cmd\<close> has no meaning.\<close>

definition put_cmd :: "nat \<Rightarrow> u8 \<Rightarrow> 'a shell_st_scheme \<Rightarrow> 'a shell_st_scheme option" where
  "put_cmd i c s = (if i < length (cmd s) then Some (s\<lparr>cmd := (cmd s)[i := c]\<rparr>) else None)"

definition remove_last_char :: "'a shell_st_scheme \<Rightarrow> 'a shell_st_scheme option" where
  "remove_last_char s = do {
     s1 \<leftarrow> put_cmd (cmd_ind s) 0 s;
     Some (if cmd_ind s1 \<noteq> 0 then s1\<lparr>cmd_ind := cmd_ind s1 - 1\<rparr> else s1) }"

definition pushback_char :: "u8 \<Rightarrow> 'a shell_st_scheme \<Rightarrow> 'a shell_st_scheme option" where
  "pushback_char c s =
     (if cmd_ind s + 1 = SIZE_MAX_CMD then Some s
      else if c = 8 then remove_last_char s
      else do {
        s1 \<leftarrow> put_cmd (cmd_ind s) c s;
        (let s2 = s1\<lparr>cmd_ind := cmd_ind s1 + 1\<rparr> in put_cmd (cmd_ind s2) 0 s2) })"

definition clear_cmd :: "'a shell_st_scheme \<Rightarrow> 'a shell_st_scheme option" where
  "clear_cmd s = put_cmd 0 0 (s\<lparr>cmd_ind := 0\<rparr>)"

text \<open>The string in the buffer.\<close>

definition cmd_string :: "'a shell_st_scheme \<Rightarrow> u8 list" where
  "cmd_string s = takeWhile (\<lambda>c. c \<noteq> 0) (cmd s)"

text \<open>The line as memory. Behind its 128 bytes the memory reads as 0; the string functions do not come there while the last
  byte of the line is 0, which \<open>shell_sound\<close> keeps.\<close>

definition cmd_mem :: "'a shell_st_scheme \<Rightarrow> mem" where
  "cmd_mem s = (\<lambda>a. if a < length (cmd s) then cmd s ! a else 0)"

subsection \<open>Commands\<close>

datatype command = Reboot | Halt_cmd | Switchtty | Memdebug | Layout | Shutdown

text \<open>The names \<open>reboot\<close>, \<open>halt\<close>, \<open>switchtty\<close>, \<open>memdebug\<close>, \<open>layout\<close> and \<open>shutdown\<close>.\<close>

definition correstab :: "(u8 list \<times> command) list" where
  "correstab = [
     ([114, 101, 98, 111, 111, 116], Reboot),
     ([104, 97, 108, 116], Halt_cmd),
     ([115, 119, 105, 116, 99, 104, 116, 116, 121], Switchtty),
     ([109, 101, 109, 100, 101, 98, 117, 103], Memdebug),
     ([108, 97, 121, 111, 117, 116], Layout),
     ([115, 104, 117, 116, 100, 111, 119, 110], Shutdown)]"

text \<open>Printing on the current terminal.\<close>

definition sh_say :: "u8 list \<Rightarrow> va_arg list \<Rightarrow> 'a shell_st_scheme \<Rightarrow> 'a shell_st_scheme option" where
  "sh_say fmt ap s = map_option (\<lambda>t. s\<lparr>sh_tty := t\<rparr>) (say fmt ap (sh_tty s))"

text \<open>\<open>switchtty\<close> and a blank, then a number.\<close>

definition switchtty_cmd :: "'a shell_st_scheme \<Rightarrow> 'a shell_st_scheme option" where
  "switchtty_cmd s =
     (if take 10 (cmd_string s) \<noteq> [115, 119, 105, 116, 99, 104, 116, 116, 121, 32] then Some s
      else do {
        nb \<leftarrow> atoi 10 (cmd_mem s);
        Some (if sint nb < 0 \<or> sint nb \<ge> int MAX_TTY then s
              else s\<lparr>sh_tty := switch_tty (unat nb) (sh_tty s)\<rparr>) })"

text \<open>What follows the first word.\<close>

definition argument_of :: "u8 list \<Rightarrow> u8 list" where
  "argument_of x = dropWhile (\<lambda>c. c = 32) (dropWhile (\<lambda>c. c \<noteq> 32) x)"

definition layout_cmd :: "u8 list \<Rightarrow> 'a shell_st_scheme \<Rightarrow> 'a shell_st_scheme option" where
  "layout_cmd x s =
     (let a = argument_of x in
      if a \<noteq> []
      then (case set_layout a (sh_kbd s) of (r, k) \<Rightarrow>
              if r = 0
              then sh_say ([115, 101, 116, 32, 108, 97, 121, 111, 117, 116, 32, 116, 111, 32, 34, 37, 115, 34, 10]) [Str a]
                     (s\<lparr>sh_kbd := k\<rparr>)
              else sh_say ([110, 111, 32, 108, 97, 121, 111, 117, 116, 32, 102, 111, 117, 110, 100, 32, 34, 37, 115, 34, 10]) [Str a]
                     (s\<lparr>sh_kbd := k\<rparr>))
      else sh_say ([99, 117, 114, 114, 101, 110, 116, 32, 108, 97, 121, 111, 117, 116, 32, 37, 115]) [Str (get_layout (sh_kbd s))] s)"

definition run_command :: "command \<Rightarrow> 'a shell_st_scheme \<Rightarrow> 'a shell_st_scheme option" where
  "run_command c s =
     (case c of Switchtty \<Rightarrow> switchtty_cmd s | Layout \<Rightarrow> layout_cmd (cmd_string s) s | _ \<Rightarrow> Some s)"

text \<open>The command found, if any, and the state after it.\<close>

definition exec_cmd :: "'a shell_st_scheme \<Rightarrow> (command option \<times> 'a shell_st_scheme) option" where
  "exec_cmd s =
     (case find (\<lambda>(match, f). take (length match) (cmd_string s) = match) correstab of
        Some (_, f) \<Rightarrow> map_option (Pair (Some f)) (run_command f s)
      | None \<Rightarrow> map_option (Pair None)
          (sh_say [117, 110, 107, 110, 111, 119, 32, 99, 111, 109, 109, 97, 110, 100, 10] [] s))"

text \<open>One turn of the loop of \<^verbatim>\<open>launchshell\<close> with the character read; the waiting loop before it reads
  until there is one. The outcome has the command that ran.\<close>

definition shell_char :: "u8 \<Rightarrow> 'a shell_st_scheme \<Rightarrow> (command option \<times> 'a shell_st_scheme) option" where
  "shell_char c s =
     (if c = 10
      then do {
        (f, s1) \<leftarrow> exec_cmd s;
        s2 \<leftarrow> clear_cmd s1;
        s3 \<leftarrow> sh_say [10, 36, 62, 32] [] s2;
        Some (f, s3) }
      else map_option (Pair None) (pushback_char c s))"

definition shell_turn :: "'a shell_st_scheme \<Rightarrow> (command option \<times> 'a shell_st_scheme) option" where
  "shell_turn s =
     (case getc (sh_tty s) of (c, t) \<Rightarrow>
        if c = 0 then Some (None, s\<lparr>sh_tty := t\<rparr>) else shell_char c (s\<lparr>sh_tty := t\<rparr>))"

fun shell_loop :: "nat \<Rightarrow> 'a shell_st_scheme \<Rightarrow> (command list \<times> 'a shell_st_scheme) option" where
  "shell_loop 0 s = Some ([], s)"
| "shell_loop (Suc n) s = do {
     (f, s1) \<leftarrow> shell_turn s;
     (fs, s2) \<leftarrow> shell_loop n s1;
     Some ((case f of None \<Rightarrow> fs | Some c \<Rightarrow> c # fs), s2) }"

text \<open>The first \<open>n\<close> turns of the shell, which never ends.\<close>

definition launchshell :: "nat \<Rightarrow> 'a shell_st_scheme \<Rightarrow> (command list \<times> 'a shell_st_scheme) option" where
  "launchshell n s = do { s1 \<leftarrow> sh_say [36, 62, 32] [] s; shell_loop n s1 }"

end
