(* ===== verification/Interrupts_Correct.thy ===== *)
theory Interrupts_Correct
  imports Interrupts Input_Line Scheduler_Correct
begin

text \<open>
  What the interrupt handlers guarantee: an exception that is an error never goes back to the
  code that caused it, and a line typed on the keyboard, scan code by scan code, reaches the
  readers of the current terminal.
\<close>

subsection \<open>Exceptions\<close>

text \<open>The exceptions the table marks as errors.\<close>

definition faults :: "u32 set" where
  "faults = {0, 6, 8, 10, 11, 12, 13, 14, 16, 17, 18, 19}"

lemma switched_not_Iret: "switched d s = Some (out, s') \<Longrightarrow> out \<noteq> Iret"
  by (auto simp: switched_def bind_eq_Some_conv)

lemma kill_process_not_Iret: "kill_process d s = Some (out, s') \<Longrightarrow> out \<noteq> Iret"
  by (auto simp: kill_process_def bind_eq_Some_conv Let_def dest: switched_not_Iret split: if_splits ctl.splits)
     (metis ctl.exhaust)

lemma info_simps [simp]:
  "number (info n nm sg e) = n" "info_signal (info n nm sg e) = sg" "info_error (info n nm sg e) = e"
  "catches_page_fault (info n nm sg e) = False"
  by (simp_all add: info_def)

lemma find_fault:
  "find (\<lambda>i. number i = n) signal_infos = Some i \<Longrightarrow> info_error i \<longleftrightarrow> n \<in> faults"
  by (auto simp: signal_infos_def faults_def split: if_splits)

lemma find_page_fault:
  "find (\<lambda>i. number i = n) signal_infos = Some i \<Longrightarrow> catches_page_fault i \<Longrightarrow> info_error i"
  by (auto simp: signal_infos_def split: if_splits)

lemma no_info: "find (\<lambda>i. number i = n) signal_infos = None \<Longrightarrow> n \<notin> faults"
  by (auto simp: signal_infos_def faults_def split: if_splits)

lemma handler_default: "page_fault_handler s = Some (r, s1) \<Longrightarrow> r \<noteq> SIGNAL_INFO_CONTINUE"
  by (auto simp: page_fault_handler_def SIGNAL_INFO_DEFAULT_def SIGNAL_INFO_CONTINUE_def Let_def bind_eq_Some_conv split: if_splits)

lemma irq_general_Iret:
  assumes "irq_general data s = Some (Iret, s')"
  shows "int_no data \<notin> faults \<and> s' = s"
proof (cases "find (\<lambda>i. number i = int_no data) signal_infos")
  case None
  then show ?thesis using assms no_info by (simp add: irq_general_def)
next
  case (Some i)
  note sw = switched_not_Iret [of "Some data" _ Iret s'] kill_process_not_Iret [of data _ Iret s']
  obtain r s1 where 1: "(if catches_page_fault i then page_fault_handler s else Some (SIGNAL_INFO_DEFAULT, s)) = Some (r, s1)"
    using assms Some by (auto simp: irq_general_def bind_eq_Some_conv)
  have r: "r \<noteq> SIGNAL_INFO_CONTINUE" "\<not> catches_page_fault i \<Longrightarrow> s1 = s"
    using 1 handler_default by (auto simp: SIGNAL_INFO_DEFAULT_def SIGNAL_INFO_CONTINUE_def split: if_splits)
  have "\<not> info_error i \<and> s' = s1"
    using assms Some 1 r(1) sw by (auto simp: irq_general_def bind_eq_Some_conv split: if_splits)
  then show ?thesis using find_fault [OF Some] find_page_fault [OF Some] r(2) by blast
qed

text \<open>C19. The handler of the exceptions goes back to the interrupted code only for exceptions that the table does
  not mark as errors, and then leaves the kernel's state as it was. After an error (division by zero,
  invalid opcode, a protection or page fault, ...) the process gets a signal or dies, or the kernel
  panics: the faulting instruction is not simply run again.\<close>

theorem faults_never_just_return:
  assumes "irq_general data s = Some (out, s')"
  shows "out \<noteq> Iret \<or> (int_no data \<notin> faults \<and> s' = s)"
  using assms irq_general_Iret by blast

definition demo_frame :: interupt where
  "demo_frame = scratch (demo_sched Map.empty [])"

lemma demo_frame_cs [simp]: "i_cs (demo_frame\<lparr>int_no := n\<rparr>) = 0"
  by (simp add: demo_frame_def demo_sched_def proc_st.defs demo_procs_def)

text \<open>A page fault before there is a process is a panic, a break point is skipped.\<close>

theorem faults_never_just_return_witness:
  "\<exists>out s'. irq_general (demo_frame\<lparr>int_no := 14\<rparr>) (demo_sched Map.empty []) = Some (out, s') \<and> out \<noteq> Iret"
proof -
  obtain out s' where r: "irq_general (demo_frame\<lparr>int_no := 14\<rparr>) (demo_sched Map.empty []) = Some (out, s')"
    by (auto simp: irq_general_def signal_infos_def page_fault_handler_def Let_def printk_def current_alive_def
        kill_process_def GDT_SEG_KCODE_def SIGSEGV_def SIGNAL_INFO_DEFAULT_def SIGNAL_INFO_CONTINUE_def)
  have "out \<noteq> Iret" using faults_never_just_return [OF r] by (auto simp: faults_def)
  with r show ?thesis by blast
qed

subsection \<open>The keyboard\<close>

text \<open>The bytes that scan codes stand for.\<close>

fun decode :: "u8 list \<Rightarrow> kbd_st \<Rightarrow> (u8 list \<times> kbd_st) option" where
  "decode [] k = Some ([], k)"
| "decode (c # codes) k = do {
     (b, k1) \<leftarrow> key_layout (ucast c) k;
     (bs, k2) \<leftarrow> decode codes k1;
     Some (b # bs, k2) }"

text \<open>A keyboard interrupt for each scan code.\<close>

fun key_irqs ::
  "interupt \<Rightarrow> u8 list \<Rightarrow> 'a tty_st_scheme \<times> kbd_st \<Rightarrow> ('a tty_st_scheme \<times> kbd_st) option" where
  "key_irqs d [] sk = Some sk"
| "key_irqs d (c # codes) sk = Option.bind (irq_keybord 1 c d sk) (key_irqs d codes)"

lemma editing_ports: "editing t line (s\<lparr>vga_ports := l\<rparr>) = editing t line s"
  by (simp add: editing_def ttys_ok_def)

lemma key_irqs_edit:
  assumes "editing t line s" "current_tty s = t" "decode codes k = Some (bs, k')" "list_all (\<lambda>b. b = 0 \<or> line_key b) bs"
  shows "\<exists>s'. key_irqs d codes (s, k) = Some (s', k') \<and> editing t (edit line (filter (\<lambda>b. b \<noteq> 0) bs)) s' \<and>
    current_tty s' = t \<and> tty s' = (tty s)(t := tty s' t) \<and> input (tty s' t) = input (tty s t)"
  using assms
proof (induction codes arbitrary: line s k bs)
  case (Cons c codes)
  obtain b k1 bs1 where b: "key_layout (ucast c) k = Some (b, k1)" "decode codes k1 = Some (bs1, k')" "bs = b # bs1"
    using Cons.prems(3) by (auto simp: bind_eq_Some_conv)
  have ok: "b = 0 \<or> line_key b" and rest: "list_all (\<lambda>b. b = 0 \<or> line_key b) bs1" using Cons.prems(4) b(3) by simp_all
  define line1 where "line1 = (if b = 0 then line else edit line [b])"
  obtain s1 where s1: "tty_input_char t b s = Some s1" "editing t line1 s1"
      "tty s1 = (tty s)(t := tty s1 t)" "input (tty s1 t) = input (tty s t)" "current_tty s1 = t"
  proof (cases "b = 0")
    case True
    then show ?thesis using that [of s] Cons.prems(1,2) by (simp add: tty_input_char_def line1_def)
  next
    case False
    then have "line_key b" using ok by simp
    with edit_step [OF Cons.prems(1)] that False Cons.prems(2) show ?thesis
      unfolding line1_def by (simp only: if_False) metis
  qed
  define s2 where "s2 = s1\<lparr>vga_ports := pic_end_of_interupt (ucast (int_no d)) (vga_ports s1)\<rparr>"
  have irq: "irq_keybord 1 c d (s, k) = Some (s2, k1)"
    using b(1) s1(1) Cons.prems(2) by (simp add: irq_keybord_def s2_def)
  have "editing t line1 s2" "current_tty s2 = t" using s1 by (simp_all add: s2_def editing_ports)
  from Cons.IH [OF this b(2) rest] obtain s' where s': "key_irqs d codes (s2, k1) = Some (s', k')"
      "editing t (edit line1 (filter (\<lambda>b. b \<noteq> 0) bs1)) s'" "current_tty s' = t"
      "tty s' = (tty s2)(t := tty s' t)" "input (tty s' t) = input (tty s2 t)" by blast
  have t2: "tty s2 = tty s1" by (simp add: s2_def)
  have "tty s' = (tty s)(t := tty s' t)" using s'(4) s1(3) t2 by (metis fun_upd_upd)
  moreover have "edit line1 (filter (\<lambda>b. b \<noteq> 0) bs1) = edit line (filter (\<lambda>b. b \<noteq> 0) bs)"
    by (simp add: line1_def b(3))
  ultimately show ?case using irq s'(1,2,3,5) s1(4) t2 by (auto simp del: fun_upd_apply)
qed simp

lemma key_irqs_append: "key_irqs d (xs @ ys) sk = Option.bind (key_irqs d xs sk) (key_irqs d ys)"
  by (induction xs arbitrary: sk) (auto simp: bind_assoc intro: Option.bind_cong)

text \<open>From the scan code to the reader. With the current terminal at the start of a line, scan codes that
  decode to printable keys, backspaces and nothing (releases, shift), followed by the one that
  decodes to the newline, each brought by a keyboard interrupt, put the edited line with its newline behind what
  the readers of that terminal had not read yet; no other terminal changes.\<close>

theorem keyboard_line_reaches_the_readers:
  assumes "ttys_ok s" "current_tty s = t" "length (input_raw (tty s t)) = STREAM_BUFF" "input_raw_c (tty s t) = 0"
    "stream_inv (input (tty s t))" "decode codes k = Some (bs, k1)" "list_all (\<lambda>b. b = 0 \<or> line_key b) bs"
    "key_layout (ucast enter) k1 = Some (10, k')"
    "length (queued (input (tty s t))) + length (edit [] (filter (\<lambda>b. b \<noteq> 0) bs)) < 127"
  shows "\<exists>s'. key_irqs d (codes @ [enter]) (s, k) = Some (s', k') \<and> tty s' = (tty s)(t := tty s' t) \<and>
    queued (input (tty s' t)) = queued (input (tty s t)) @ edit [] (filter (\<lambda>b. b \<noteq> 0) bs) @ [10]"
proof -
  let ?ks = "filter (\<lambda>b. b \<noteq> 0) bs"
  have "editing t [] s" using assms(1-4) by (auto simp: editing_def ttys_ok_def)
  from key_irqs_edit [OF this assms(2,6,7)] obtain s1 where s1: "key_irqs d codes (s, k) = Some (s1, k1)"
    "editing t (edit [] ?ks) s1" "current_tty s1 = t" "tty s1 = (tty s)(t := tty s1 t)"
    "input (tty s1 t) = input (tty s t)" by blast
  obtain s2 where s2: "tty_input_char t 10 s1 = Some s2" "tty s2 = (tty s1)(t := tty s2 t)"
    "input (tty s2 t) = snd (stream_write (edit [] ?ks @ [10]) (input (tty s1 t)))"
    by (rule enter_step [OF s1(2)]) blast
  define s' where "s' = s2\<lparr>vga_ports := pic_end_of_interupt (ucast (int_no d)) (vga_ports s2)\<rparr>"
  have "key_irqs d (codes @ [enter]) (s, k) = Some (s', k')"
    using s1(1,3) s2(1) assms(8) by (simp add: key_irqs_append irq_keybord_def s'_def)
  moreover have "tty s2 = (tty s)(t := tty s2 t)" using s1(4) s2(2) by (metis fun_upd_upd)
  then have "tty s' = (tty s)(t := tty s' t)" by (simp add: s'_def)
  moreover have "queued (input (tty s' t)) = queued (input (tty s t)) @ edit [] ?ks @ [10]"
    using s2(3) s1(5) stream_write_room [OF assms(5), of "edit [] ?ks @ [10]"] assms(9) by (simp add: s'_def)
  ultimately show ?thesis by blast
qed

text \<open>Shift, \<open>a\<close>, release, release of shift, \<open>x\<close>, backspace, \<open>s\<close>, then return: the line \<open>As\<close>.\<close>

theorem keyboard_line_reaches_the_readers_witness:
  "\<exists>s' k'. key_irqs demo_frame ([0x2A, 0x1E, 0x9E, 0xAA, 0x2D, 0x0E, 0x1F] @ [0x1C]) (demo_tty, kbd_init) = Some (s', k') \<and>
     queued (input (tty s' 0)) = [65, 115, 10]"
proof -
  have d: "decode [0x2A, 0x1E, 0x9E, 0xAA, 0x2D, 0x0E, 0x1F] kbd_init =
      Some ([0, 65, 0, 0, 120, 8, 115], kbd_init)"
    by (simp add: kbd_init_def key_layout_def SHIFT_PRESSED_def SHIFT_RELEASED_def table_defs)
  have e: "key_layout (ucast (0x1C :: u8)) kbd_init = Some (10, kbd_init)"
    by (simp add: kbd_init_def key_layout_def SHIFT_PRESSED_def SHIFT_RELEASED_def table_defs)
  have k: "list_all (\<lambda>b. b = 0 \<or> line_key b) [0, 65, 0, 0, 120, 8, 115]" by (simp add: line_key_def char_class_defs)
  have q: "queued (input (tty demo_tty 0)) = []" "stream_inv (input (tty demo_tty 0))" "current_tty demo_tty = 0"
    "length (input_raw (tty demo_tty 0)) = STREAM_BUFF" "input_raw_c (tty demo_tty 0) = 0"
    by (simp_all add: demo_tty_def demo_stream_def queued_def stream_toread_def stream_inv_def STREAM_BUFF_def)
  have "length (queued (input (tty demo_tty 0))) + length (edit [] (filter (\<lambda>b. b \<noteq> 0) [0, 65, 0, 0, 120, 8, 115])) < 127"
    using q(1) by simp
  from keyboard_line_reaches_the_readers [OF demo_tty_ok q(3,4,5,2) d k e this, of demo_frame] q(1)
  show ?thesis by auto
qed

end
