(* ===== verification/Shell_Correct.thy ===== *)
theory Shell_Correct
  imports Shell Interrupts_Correct
begin

text \<open>
  From the keyboard to the command: the shell runs the command of the line that was typed, and the
  line buffer of the shell is never left.
\<close>

subsection \<open>The buffer\<close>

definition shell_ok :: "'a shell_st_scheme \<Rightarrow> bool" where
  "shell_ok s \<longleftrightarrow> length (cmd s) = SIZE_MAX_CMD \<and> cmd_ind s < SIZE_MAX_CMD"

lemma pushback_ok:
  assumes "shell_ok s"
  shows "\<exists>s'. pushback_char c s = Some s' \<and> shell_ok s' \<and> sh_tty s' = sh_tty s \<and> sh_kbd s' = sh_kbd s"
  using assms by (auto simp: pushback_char_def remove_last_char_def put_cmd_def shell_ok_def SIZE_MAX_CMD_def Let_def)

lemma pushback_step:
  assumes "shell_ok s" "cmd_ind s < 127" "c \<noteq> 8" "take (cmd_ind s) (cmd s) = xs"
  shows "\<exists>s'. pushback_char c s = Some s' \<and> shell_ok s' \<and> sh_tty s' = sh_tty s \<and> sh_kbd s' = sh_kbd s \<and>
    cmd_ind s' = cmd_ind s + 1 \<and> take (cmd_ind s') (cmd s') = xs @ [c] \<and> cmd s' ! cmd_ind s' = 0"
  using assms
  by (auto simp: pushback_char_def put_cmd_def shell_ok_def SIZE_MAX_CMD_def Let_def take_Suc_conv_app_nth)

lemma cmd_string_eq:
  assumes "take n (cmd s) = xs" "0 \<notin> set xs" "n < length (cmd s)" "cmd s ! n = 0"
  shows "cmd_string s = xs"
proof -
  have "cmd s = xs @ 0 # drop (Suc n) (cmd s)" using assms id_take_nth_drop [OF assms(3)] by simp
  then have "cmd_string s = takeWhile (\<lambda>c. c \<noteq> 0) (xs @ 0 # drop (Suc n) (cmd s))" by (simp add: cmd_string_def)
  also have "\<dots> = xs" using assms(2) by (induction xs) auto
  finally show ?thesis .
qed

subsection \<open>Reading\<close>

lemma getc_next:
  assumes "stream_inv (input (tty t (current_tty t)))" "queued (input (tty t (current_tty t))) = c # q"
  shows "\<exists>t'. getc t = (c, t') \<and> stream_inv (input (tty t' (current_tty t'))) \<and> queued (input (tty t' (current_tty t'))) = q \<and>
    current_tty t' = current_tty t \<and> (ttys_ok t \<longrightarrow> ttys_ok t')"
proof -
  obtain d st where r: "stream_read 1 (input (tty t (current_tty t))) = (d, st)" by (metis surj_pair)
  note takes = stream.rd_takes [OF assms(1) r]
  have "d = [c]" "queued st = q" "stream_inv st" using takes assms(2) by simp_all
  moreover have "ttys_ok (update_tty u (\<lambda>x. x\<lparr>input := st\<rparr>) t)" if "ttys_ok t" "u < MAX_TTY" for u
    using that ttys_ok_term [OF that] by (intro ttys_ok_update) (simp_all add: term_ok_def)
  moreover have "ttys_ok t \<Longrightarrow> current_tty t < MAX_TTY" by (simp add: ttys_ok_def)
  ultimately show ?thesis using r by (auto simp: getc_def)
qed

lemma say_some:
  assumes "ttys_ok t" "wvprintk fmt ap 0 = Some (r, out)" "8 \<notin> set out"
  shows "\<exists>t'. say fmt ap t = Some t' \<and> ttys_ok t'"
proof -
  have cur: "current_tty t < MAX_TTY" using assms(1) by (simp add: ttys_ok_def)
  obtain t' where t': "tty_write (current_tty t) out t = Some t'" using tty_write_some [OF assms(1) cur assms(3)] by blast
  then show ?thesis using tty_write_ok [OF assms(1) cur t'] assms(2) by (simp add: say_def vprintk_def)
qed

text \<open>A shell that waits at an empty line, with input on its terminal.\<close>

definition reading :: "u8 list \<Rightarrow> u8 list \<Rightarrow> 'a shell_st_scheme \<Rightarrow> bool" where
  "reading xs q s \<longleftrightarrow> shell_ok s \<and> cmd_ind s = length xs \<and> take (length xs) (cmd s) = xs \<and> (xs \<noteq> [] \<longrightarrow> cmd s ! length xs = 0) \<and>
     ttys_ok (sh_tty s) \<and> stream_inv (input (tty (sh_tty s) (current_tty (sh_tty s)))) \<and>
     queued (input (tty (sh_tty s) (current_tty (sh_tty s)))) = q"

definition plain :: "u8 list \<Rightarrow> bool" where
  "plain xs \<longleftrightarrow> 0 \<notin> set xs \<and> 8 \<notin> set xs \<and> 10 \<notin> set xs"

lemma read_char:
  assumes "reading xs (c # q) s" "plain [c]" "length xs < 127"
  shows "\<exists>s'. shell_turn s = Some (None, s') \<and> reading (xs @ [c]) q s' \<and> sh_kbd s' = sh_kbd s"
proof -
  let ?t = "sh_tty s"
  obtain t' where t': "getc ?t = (c, t')" "stream_inv (input (tty t' (current_tty t')))"
      "queued (input (tty t' (current_tty t'))) = q" "ttys_ok t'"
    using getc_next [of ?t c q] assms(1) by (auto simp: reading_def)
  have ok: "shell_ok (s\<lparr>sh_tty := t'\<rparr>)" "cmd_ind (s\<lparr>sh_tty := t'\<rparr>) < 127"
    "take (cmd_ind (s\<lparr>sh_tty := t'\<rparr>)) (cmd (s\<lparr>sh_tty := t'\<rparr>)) = xs"
    using assms(1,3) by (simp_all add: reading_def shell_ok_def)
  have c: "c \<noteq> 0" "c \<noteq> 8" "c \<noteq> 10" using assms(2) by (auto simp: plain_def)
  obtain s' where s': "pushback_char c (s\<lparr>sh_tty := t'\<rparr>) = Some s'" "shell_ok s'" "sh_tty s' = t'" "sh_kbd s' = sh_kbd s"
      "cmd_ind s' = cmd_ind s + 1" "take (cmd_ind s') (cmd s') = xs @ [c]" "cmd s' ! cmd_ind s' = 0"
    using pushback_step [OF ok(1,2) c(2) ok(3)] by auto
  have "shell_turn s = Some (None, s')" using t'(1) c s'(1) by (simp add: shell_turn_def shell_char_def)
  moreover have "reading (xs @ [c]) q s'" using s' t' assms(1) by (simp add: reading_def)
  ultimately show ?thesis using s'(4) by blast
qed

lemma read_line:
  assumes "reading xs (ys @ q) s" "plain ys" "length xs + length ys \<le> 127"
  shows "\<exists>s'. shell_loop (length ys) s = Some ([], s') \<and> reading (xs @ ys) q s' \<and> sh_kbd s' = sh_kbd s"
  using assms
proof (induction ys arbitrary: xs s)
  case (Cons c ys)
  have "plain [c]" "plain ys" using Cons.prems(2) by (auto simp: plain_def)
  obtain s1 where s1: "shell_turn s = Some (None, s1)" "reading (xs @ [c]) (ys @ q) s1" "sh_kbd s1 = sh_kbd s"
    using read_char [of xs c "ys @ q" s] Cons.prems \<open>plain [c]\<close> by auto
  from Cons.IH [OF s1(2) \<open>plain ys\<close>] Cons.prems(3) obtain s' where
    "shell_loop (length ys) s1 = Some ([], s')" "reading ((xs @ [c]) @ ys) q s'" "sh_kbd s' = sh_kbd s1" by auto
  with s1 show ?case by simp
qed simp

lemma bind_pair_id: "Option.bind x (\<lambda>(a, b). Some (a, b)) = x"
  by (cases x) auto

lemma shell_loop_add: "shell_loop m s = Some ([], s1) \<Longrightarrow> shell_loop (m + n) s = shell_loop n s1"
  by (induction m arbitrary: s) (auto simp: bind_eq_Some_conv bind_pair_id split: option.splits)

text \<open>The newline runs the command of the line that was read.\<close>

lemma read_newline:
  assumes "reading xs (10 # q) s" "plain xs" "xs \<noteq> []" "length xs \<le> 127"
  obtains s1 where "shell_turn s = do { (f, s2) \<leftarrow> exec_cmd s1; s3 \<leftarrow> clear_cmd s2; s4 \<leftarrow> sh_say [10, 36, 62, 32] [] s3; Some (f, s4) }"
    "cmd_string s1 = xs" "reading xs q s1" "sh_kbd s1 = sh_kbd s"
proof -
  let ?t = "sh_tty s"
  obtain t' where t': "getc ?t = (10, t')" "stream_inv (input (tty t' (current_tty t')))"
      "queued (input (tty t' (current_tty t'))) = q" "ttys_ok t'"
    using getc_next [of ?t 10 q] assms(1) by (auto simp: reading_def)
  let ?s1 = "s\<lparr>sh_tty := t'\<rparr>"
  have r: "reading xs q ?s1" using assms(1) t' by (simp add: reading_def shell_ok_def)
  have "cmd_string ?s1 = xs"
    using cmd_string_eq [of "length xs" ?s1 xs] r assms(2,3,4)
    by (auto simp: reading_def plain_def shell_ok_def SIZE_MAX_CMD_def)
  moreover have "shell_turn s = do { (f, s2) \<leftarrow> exec_cmd ?s1; s3 \<leftarrow> clear_cmd s2; s4 \<leftarrow> sh_say [10, 36, 62, 32] [] s3; Some (f, s4) }"
    using t'(1) by (simp add: shell_turn_def shell_char_def)
  ultimately show ?thesis using that r by simp
qed

lemma tty_write_streams:
  "tty_write t data s = Some s' \<Longrightarrow> ttys_ok s \<Longrightarrow> t < MAX_TTY \<Longrightarrow>
   current_tty s' = current_tty s \<and> same_line (tty s u) (tty s' u)"
proof (induction t data s rule: tty_write.induct)
  case (2 t c data s)
  then obtain s1 where s1: "tty_putchar t c s = Some s1" "tty_write t data s1 = Some s'" by (auto split: option.splits)
  have "current_tty s1 = current_tty s \<and> same_line (tty s u) (tty s1 u)"
  proof (cases "isprint (sint c) \<noteq> 0")
    case True
    obtain s2 y where "tty_printchar t c s = Some s2" "current_tty s2 = current_tty s" "tty s2 = (tty s)(t := y)" "same_line (tty s t) y"
      by (rule tty_printchar_ok [OF 2(3,4), of c])
    with True s1(1) show ?thesis by (simp add: tty_putchar_def)
  next
    case False
    show ?thesis
    proof (cases "c = 8")
      case True
      then have b: "tty_backspace t s = Some s1" using s1(1) by (simp add: tty_putchar_def)
      then have "cell_of (tty s t) \<noteq> 0" using tty_backspace_none [OF 2(3,4)] by auto
      then obtain s2 y where "tty_backspace t s = Some s2" "current_tty s2 = current_tty s" "tty s2 = (tty s)(t := y)" "same_line (tty s t) y"
        by (rule tty_backspace_ok [OF 2(3,4)])
      with b show ?thesis by simp
    next
      case n8: False
      have e: "same_line (tty s u) (tty (tty_putendl t s) u)"
        using tty_putendl_ok(3,4) [OF 2(3,4)] by (metis fun_upd_apply same_line_refl)
      show ?thesis using s1(1) False n8 e tty_putendl_ok(2) [OF 2(3,4)]
        by (auto simp: tty_putchar_def tty_putretchariot_def same_line_def split: if_splits)
    qed
  qed
  moreover have "current_tty s' = current_tty s1 \<and> same_line (tty s1 u) (tty s' u)"
    using 2(1) [OF s1(1) s1(2) tty_putchar_ok [OF 2(3,4) s1(1)] 2(4)] .
  ultimately show ?case using same_line_trans by auto
qed simp

lemma sh_say_reading:
  assumes "reading xs q s" "wvprintk fmt ap 0 = Some (r, out)" "8 \<notin> set out"
  shows "\<exists>s'. sh_say fmt ap s = Some s' \<and> reading xs q s' \<and> sh_kbd s' = sh_kbd s \<and> cmd s' = cmd s"
proof -
  have ok: "ttys_ok (sh_tty s)" using assms(1) by (simp add: reading_def)
  then have cur: "current_tty (sh_tty s) < MAX_TTY" by (simp add: ttys_ok_def)
  obtain t' where t': "tty_write (current_tty (sh_tty s)) out (sh_tty s) = Some t'"
    using tty_write_some [OF ok cur assms(3)] by blast
  have "current_tty t' = current_tty (sh_tty s)" "same_line (tty (sh_tty s) u) (tty t' u)" for u
    using tty_write_streams [OF t' ok cur] by simp_all
  then have "reading xs q (s\<lparr>sh_tty := t'\<rparr>)"
    using assms(1) tty_write_ok [OF ok cur t'] by (simp add: reading_def shell_ok_def same_line_def)
  then show ?thesis using t' assms(2) by (simp add: sh_say_def say_def vprintk_def)
qed

lemma clear_reading:
  "reading xs q s \<Longrightarrow> \<exists>s'. clear_cmd s = Some s' \<and> reading [] q s' \<and> sh_kbd s' = sh_kbd s"
  by (auto simp: clear_cmd_def put_cmd_def reading_def shell_ok_def SIZE_MAX_CMD_def)

subsection \<open>The layout command\<close>

definition LAYOUT_CMD :: "u8 list" where "LAYOUT_CMD = [108, 97, 121, 111, 117, 116, 32]"

lemma prints:
  assumes "8 \<notin> set a"
  shows "\<exists>r out. wvprintk [115, 101, 116, 32, 108, 97, 121, 111, 117, 116, 32, 116, 111, 32, 34, 37, 115, 34, 10] [Str a] 0 = Some (r, out) \<and> 8 \<notin> set out"
    "\<exists>r out. wvprintk [110, 111, 32, 108, 97, 121, 111, 117, 116, 32, 102, 111, 117, 110, 100, 32, 34, 37, 115, 34, 10] [Str a] 0 = Some (r, out) \<and> 8 \<notin> set out"
    "\<exists>r out. wvprintk [10, 36, 62, 32] [] 0 = Some (r, out) \<and> 8 \<notin> set out"
  using wvprintk_pieces [of "[Lit [115, 101, 116, 32, 108, 97, 121, 111, 117, 116, 32, 116, 111, 32, 34], Txt a, Lit [34, 10]]" 0]
    wvprintk_pieces [of "[Lit [110, 111, 32, 108, 97, 121, 111, 117, 116, 32, 102, 111, 117, 110, 100, 32, 34], Txt a, Lit [34, 10]]" 0]
    wvprintk_pieces [of "[Lit [10, 36, 62, 32]]" 0] assms
  by simp_all

lemma argument_of_layout: "name \<noteq> [] \<Longrightarrow> hd name \<noteq> 32 \<Longrightarrow> argument_of (LAYOUT_CMD @ name) = name"
  by (cases name) (simp_all add: argument_of_def LAYOUT_CMD_def)

lemma find_layout: "find (\<lambda>(match, f). take (length match) (LAYOUT_CMD @ name) = match) correstab = Some (take 6 LAYOUT_CMD, Layout)"
  by (simp add: correstab_def LAYOUT_CMD_def)

lemma layout_reading:
  assumes "reading xs q s" "name \<noteq> []" "hd name \<noteq> 32" "8 \<notin> set name"
  shows "\<exists>s'. layout_cmd (LAYOUT_CMD @ name) s = Some s' \<and> reading xs q s' \<and> sh_kbd s' = snd (set_layout name (sh_kbd s))"
proof -
  obtain e k where k: "set_layout name (sh_kbd s) = (e, k)" by (cases "set_layout name (sh_kbd s)")
  have r: "reading xs q (s\<lparr>sh_kbd := k\<rparr>)" using assms(1) by (simp add: reading_def shell_ok_def)
  note say = sh_say_reading [OF r]
  show ?thesis
  proof (cases "e = 0")
    case True
    obtain r out where "wvprintk [115, 101, 116, 32, 108, 97, 121, 111, 117, 116, 32, 116, 111, 32, 34, 37, 115, 34, 10] [Str name] 0 = Some (r, out)"
        "8 \<notin> set out" using prints(1) [OF assms(4)] by blast
    from say [OF this] True k show ?thesis by (auto simp: layout_cmd_def argument_of_layout [OF assms(2,3)] assms(2))
  next
    case False
    obtain r out where "wvprintk [110, 111, 32, 108, 97, 121, 111, 117, 116, 32, 102, 111, 117, 110, 100, 32, 34, 37, 115, 34, 10] [Str name] 0 = Some (r, out)"
        "8 \<notin> set out" using prints(2) [OF assms(4)] by blast
    from say [OF this] False k show ?thesis by (auto simp: layout_cmd_def argument_of_layout [OF assms(2,3)] assms(2))
  qed
qed

lemma shell_runs_layout:
  assumes "reading [] (LAYOUT_CMD @ name @ 10 # q) s" "plain name" "name \<noteq> []" "hd name \<noteq> 32" "length name \<le> 120"
  shows "\<exists>s'. shell_loop (length name + 8) s = Some ([Layout], s') \<and> sh_kbd s' = snd (set_layout name (sh_kbd s)) \<and> reading [] q s'"
proof -
  let ?l = "LAYOUT_CMD @ name"
  have len: "length ?l = length name + 7" by (simp add: LAYOUT_CMD_def)
  have pl: "plain ?l" using assms(2) by (simp add: plain_def LAYOUT_CMD_def)
  obtain s0 where s0: "shell_loop (length ?l) s = Some ([], s0)" "reading ?l (10 # q) s0" "sh_kbd s0 = sh_kbd s"
    using read_line [of "[]" ?l "10 # q" s] assms(1,5) pl len by auto
  obtain s1 where s1: "shell_turn s0 = do { (f, s2) \<leftarrow> exec_cmd s1; s3 \<leftarrow> clear_cmd s2; s4 \<leftarrow> sh_say [10, 36, 62, 32] [] s3; Some (f, s4) }"
    "cmd_string s1 = ?l" "reading ?l q s1" "sh_kbd s1 = sh_kbd s0"
    by (rule read_newline [OF s0(2) pl]) (use assms(5) len in \<open>auto simp: LAYOUT_CMD_def\<close>)
  obtain s2 where s2: "layout_cmd ?l s1 = Some s2" "reading ?l q s2" "sh_kbd s2 = snd (set_layout name (sh_kbd s1))"
    using layout_reading [OF s1(3) assms(3,4)] assms(2) by (auto simp: plain_def)
  have ex: "exec_cmd s1 = Some (Some Layout, s2)"
    using s2(1) find_layout [of name] by (simp add: exec_cmd_def s1(2) run_command_def)
  obtain s3 where s3: "clear_cmd s2 = Some s3" "reading [] q s3" "sh_kbd s3 = sh_kbd s2" using clear_reading [OF s2(2)] by blast
  obtain r out where "wvprintk [10, 36, 62, 32] [] 0 = Some (r, out)" "8 \<notin> set out" using prints(3) [of "[]"] by auto
  from sh_say_reading [OF s3(2) this] obtain s4 where s4: "sh_say [10, 36, 62, 32] [] s3 = Some s4" "reading [] q s4" "sh_kbd s4 = sh_kbd s3"
    by blast
  have "shell_turn s0 = Some (Some Layout, s4)" using s1(1) ex s3(1) s4(1) by simp
  then have "shell_loop 1 s0 = Some ([Layout], s4)" by simp
  then have l: "shell_loop (length ?l + 1) s = Some ([Layout], s4)" using shell_loop_add [OF s0(1), of 1] by simp
  have n: "length ?l + 1 = length name + 8" using len by simp
  have "sh_kbd s4 = snd (set_layout name (sh_kbd s))" using s4(3) s3(3) s2(3) s1(4) s0(3) by simp
  with s4(2) show ?thesis by (intro exI [of _ s4] conjI l [unfolded n])
qed

text \<open>C22. From the keyboard to the command. With the shell at an empty line on the current terminal and
  nothing left to read, scan codes that the keyboard turns into the line \<open>layout\<close>, a blank and a name (with
  corrections by backspace, shift and key releases among them) and the return key, one interrupt
  each, make the shell run its layout command: after reading the line it has set the layout of that name, or left
  the layout alone when there is none, and it waits at an empty line again.\<close>

theorem typed_layout_command_takes_effect:
  assumes "reading [] [] s" "length (input_raw (tty (sh_tty s) (current_tty (sh_tty s)))) = STREAM_BUFF"
    "input_raw_c (tty (sh_tty s) (current_tty (sh_tty s))) = 0"
    "decode codes (sh_kbd s) = Some (bs, k1)" "list_all (\<lambda>b. b = 0 \<or> line_key b) bs"
    "key_layout (ucast enter) k1 = Some (10, k')" "edit [] (filter (\<lambda>b. b \<noteq> 0) bs) = LAYOUT_CMD @ name"
    "plain name" "name \<noteq> []" "hd name \<noteq> 32" "length name \<le> 119"
  shows "\<exists>t s'. key_irqs d (codes @ [enter]) (sh_tty s, sh_kbd s) = Some (t, k') \<and>
    shell_loop (length name + 8) (s\<lparr>sh_tty := t, sh_kbd := k'\<rparr>) = Some ([Layout], s') \<and>
    sh_kbd s' = snd (set_layout name k') \<and> reading [] [] s'"
proof -
  let ?s = "sh_tty s"
  let ?t = "current_tty ?s"
  have ok: "ttys_ok ?s" "stream_inv (input (tty ?s ?t))" "queued (input (tty ?s ?t)) = []"
    using assms(1) by (simp_all add: reading_def)
  have "editing ?t [] ?s" using ok(1) assms(2,3) by (auto simp: editing_def ttys_ok_def)
  from key_irqs_edit [OF this refl assms(4,5)] obtain s1 where s1: "key_irqs d codes (?s, sh_kbd s) = Some (s1, k1)"
    "editing ?t (LAYOUT_CMD @ name) s1" "current_tty s1 = ?t" "input (tty s1 ?t) = input (tty ?s ?t)"
    unfolding assms(7) by blast
  obtain s2 where s2: "tty_input_char ?t 10 s1 = Some s2" "ttys_ok s2" "current_tty s2 = current_tty s1"
    "input (tty s2 ?t) = snd (stream_write ((LAYOUT_CMD @ name) @ [10]) (input (tty s1 ?t)))"
    by (rule enter_step [OF s1(2)]) blast
  define t where "t = s2\<lparr>vga_ports := pic_end_of_interupt (ucast (int_no d)) (vga_ports s2)\<rparr>"
  have irqs: "key_irqs d (codes @ [enter]) (?s, sh_kbd s) = Some (t, k')"
    using s1(1,3) s2(1) assms(6) by (simp add: key_irqs_append irq_keybord_def t_def)
  have "queued (input (tty t ?t)) = LAYOUT_CMD @ name @ [10]" "stream_inv (input (tty t ?t))"
    using s2(4) s1(4) stream_write_room [OF ok(2), of "(LAYOUT_CMD @ name) @ [10]"] ok(3) assms(11)
    by (simp_all add: t_def LAYOUT_CMD_def)
  moreover have "ttys_ok t" "current_tty t = ?t" using s2(2,3) s1(3) by (simp_all add: t_def ttys_ok_def)
  ultimately have "reading [] (LAYOUT_CMD @ name @ 10 # []) (s\<lparr>sh_tty := t, sh_kbd := k'\<rparr>)"
    using assms(1) by (simp add: reading_def shell_ok_def)
  from shell_runs_layout [OF this assms(8,9,10)] assms(11) irqs show ?thesis by auto
qed

definition demo_shell :: "unit shell_st_scheme" where
  "demo_shell = \<lparr>cmd = replicate 128 0, cmd_ind = 0, sh_tty = demo_tty, sh_kbd = kbd_init\<rparr>"

text \<open>The keys of \<open>layout azert\<close>, a wrong key, backspace, \<open>y\<close> and return.\<close>

theorem typed_layout_command_takes_effect_witness:
  "\<exists>t k s'. key_irqs demo_frame ([0x26, 0x1E, 0x15, 0x18, 0x16, 0x14, 0x39, 0x1E, 0x2C, 0x12, 0x13, 0x14, 0x2D, 0x0E, 0x15] @ [0x1C])
       (demo_tty, kbd_init) = Some (t, k) \<and>
     shell_loop 14 (demo_shell\<lparr>sh_tty := t, sh_kbd := k\<rparr>) = Some ([Layout], s') \<and> get_layout (sh_kbd s') = AZERTY"
proof -
  let ?codes = "[0x26, 0x1E, 0x15, 0x18, 0x16, 0x14, 0x39, 0x1E, 0x2C, 0x12, 0x13, 0x14, 0x2D, 0x0E, 0x15] :: u8 list"
  let ?bs = "[108, 97, 121, 111, 117, 116, 32, 97, 122, 101, 114, 116, 120, 8, 121] :: u8 list"
  have r: "reading [] [] demo_shell"
    by (simp add: reading_def demo_shell_def shell_ok_def SIZE_MAX_CMD_def demo_tty_ok)
       (simp add: demo_tty_def demo_stream_def queued_def stream_toread_def stream_inv_def STREAM_BUFF_def)
  have d: "decode ?codes (sh_kbd demo_shell) = Some (?bs, kbd_init)"
    by (simp add: demo_shell_def kbd_init_def key_layout_def SHIFT_PRESSED_def SHIFT_RELEASED_def table_defs)
  have e: "key_layout (ucast (0x1C :: u8)) kbd_init = Some (10, kbd_init)"
    by (simp add: kbd_init_def key_layout_def SHIFT_PRESSED_def SHIFT_RELEASED_def table_defs)
  have k: "list_all (\<lambda>b. b = 0 \<or> line_key b) ?bs" by (simp add: line_key_def char_class_defs)
  have ed: "edit [] (filter (\<lambda>b. b \<noteq> 0) ?bs) = LAYOUT_CMD @ AZERTY" by (simp add: LAYOUT_CMD_def AZERTY_def)
  have n: "plain AZERTY" "AZERTY \<noteq> []" "hd AZERTY \<noteq> 32" "length AZERTY \<le> 119" "length AZERTY + 8 = 14"
    by (simp_all add: plain_def AZERTY_def)
  have raw: "length (input_raw (tty (sh_tty demo_shell) (current_tty (sh_tty demo_shell)))) = STREAM_BUFF"
    "input_raw_c (tty (sh_tty demo_shell) (current_tty (sh_tty demo_shell))) = 0"
    by (simp_all add: demo_shell_def demo_tty_def STREAM_BUFF_def)
  have "get_layout (snd (set_layout AZERTY kbd_init)) = AZERTY"
    using tables_differ by (simp add: set_layout_def get_layout_def)
  with typed_layout_command_takes_effect [OF r raw d k e ed n(1-4), of demo_frame] n(5)
  show ?thesis by (auto simp: demo_shell_def)
qed

end
