(* ===== verification/Shell_Sound.thy ===== *)
theory Shell_Sound
  imports Shell_Correct
begin

text \<open>
  The shell cannot get stuck. Well-formed states of the shell are closed under every turn of its loop, and in a
  well-formed state every turn has a value: no write leaves the line buffer, every scan of the line ends inside it, and
  nothing that is printed moves the cursor off the screen.
\<close>

definition shell_sound :: "'a shell_st_scheme \<Rightarrow> bool" where
  "shell_sound s \<longleftrightarrow> shell_ok s \<and> cmd s ! 127 = 0 \<and> 8 \<notin> set (cmd s) \<and> ttys_ok (sh_tty s)"

subsection \<open>Scanning ends at the zero\<close>

lemma skip_spaces_ends:
  assumes "\<And>a. a \<ge> b \<Longrightarrow> m a = 0"
  shows "\<exists>j. skip_spaces s i m = Some j"
proof (induction "b - (s + i)" arbitrary: i rule: less_induct)
  case less
  show ?case
  proof (cases "is_atoi_space (m (s + i))")
    case True
    then have "s + i < b" using assms [of "s + i"] by (force simp: is_atoi_space_def not_le [symmetric])
    then show ?thesis using less [of "i + 1"] True by (subst skip_spaces.simps) simp
  qed (subst skip_spaces.simps, simp)
qed

lemma atoi_digits_ends:
  assumes "\<And>a. a \<ge> b \<Longrightarrow> m a = 0"
  shows "\<exists>v. atoi_digits s i r m = Some v"
proof (induction "b - (s + i)" arbitrary: i r rule: less_induct)
  case less
  show ?case
  proof (cases "s + i < b")
    case True
    then have "\<exists>v. atoi_digits s (i + 1) r' m = Some v" for r' using less [of "i + 1" r'] by simp
    then show ?thesis by (subst atoi_digits.simps) auto
  next
    case False
    then have "m (s + i) = 0" using assms by simp
    then show ?thesis by (subst atoi_digits.simps) (simp add: is_digit_def)
  qed
qed

lemma atoi_ends:
  assumes "\<And>a. a \<ge> b \<Longrightarrow> m a = 0"
  shows "\<exists>v. atoi s m = Some v"
proof -
  obtain j where j: "skip_spaces s 0 m = Some j" using skip_spaces_ends [where m = m, OF assms] by blast
  have d: "\<exists>v. atoi_digits s i r m = Some v" for i r by (rule atoi_digits_ends [where m = m, OF assms])
  show ?thesis using j d [of "if m (s + j) = 43 \<or> m (s + j) = 45 then j + 1 else j" 0] by (auto simp: atoi_def Let_def)
qed

subsection \<open>Every operation of the shell\<close>

lemma sound_say:
  assumes "shell_sound s" "wvprintk fmt ap 0 = Some (r, out)" "8 \<notin> set out"
  shows "\<exists>s'. sh_say fmt ap s = Some s' \<and> shell_sound s'"
  using say_some [of "sh_tty s", OF _ assms(2,3)] assms(1) by (auto simp: shell_sound_def shell_ok_def sh_say_def)

lemma sound_say_literal: "shell_sound s \<Longrightarrow> 37 \<notin> set x \<Longrightarrow> 8 \<notin> set x \<Longrightarrow> \<exists>s'. sh_say x [] s = Some s' \<and> shell_sound s'"
  using wvprintk_pieces [of "[Lit x]" 0] by (intro sound_say) auto

lemma sound_put:
  assumes "shell_sound s" "i < 128" "c \<noteq> 8" "i \<noteq> 127 \<or> c = 0"
  shows "\<exists>s'. put_cmd i c s = Some s' \<and> shell_sound s' \<and> cmd_ind s' = cmd_ind s"
  using assms set_update_subset_insert [of "cmd s" i c]
  by (auto simp: put_cmd_def shell_sound_def shell_ok_def SIZE_MAX_CMD_def nth_list_update)

lemma sound_pushback:
  assumes "shell_sound s"
  shows "\<exists>s'. pushback_char c s = Some s' \<and> shell_sound s'"
proof -
  have i: "cmd_ind s < 128" using assms by (simp add: shell_sound_def shell_ok_def SIZE_MAX_CMD_def)
  have ind: "shell_sound (t\<lparr>cmd_ind := k\<rparr>)" if "shell_sound t" "k < 128" for t :: "'a shell_st_scheme" and k
    using that by (simp add: shell_sound_def shell_ok_def SIZE_MAX_CMD_def)
  consider (full) "cmd_ind s = 127" | (del) "cmd_ind s < 127" "c = 8" | (add) "cmd_ind s < 127" "c \<noteq> 8" using i by linarith
  then show ?thesis
  proof cases
    case full
    then show ?thesis using assms by (simp add: pushback_char_def SIZE_MAX_CMD_def)
  next
    case del
    obtain s1 where "put_cmd (cmd_ind s) 0 s = Some s1" "shell_sound s1" "cmd_ind s1 = cmd_ind s" using sound_put [OF assms i, of 0] by auto
    then show ?thesis using del ind [of s1] by (simp add: pushback_char_def remove_last_char_def SIZE_MAX_CMD_def)
  next
    case add
    obtain s1 where s1: "put_cmd (cmd_ind s) c s = Some s1" "shell_sound s1" "cmd_ind s1 = cmd_ind s" using sound_put [OF assms i add(2)] add(1) by auto
    then have "shell_sound (s1\<lparr>cmd_ind := cmd_ind s1 + 1\<rparr>)" using ind add(1) by simp
    from sound_put [OF this, of "cmd_ind s1 + 1" 0] show ?thesis using s1 add by (auto simp: pushback_char_def SIZE_MAX_CMD_def Let_def)
  qed
qed

lemma sound_clear: "shell_sound s \<Longrightarrow> \<exists>s'. clear_cmd s = Some s' \<and> shell_sound s'"
  using sound_put [of "s\<lparr>cmd_ind := 0\<rparr>" 0 0] by (auto simp: clear_cmd_def shell_sound_def shell_ok_def SIZE_MAX_CMD_def)

lemma cmd_string_no_8: "shell_sound s \<Longrightarrow> 8 \<notin> set (cmd_string s)"
  by (auto simp: shell_sound_def cmd_string_def dest: set_takeWhileD)

lemma argument_subset: "set (argument_of x) \<subseteq> set x"
  by (auto simp: argument_of_def dest: set_dropWhileD)

lemma layout_prints:
  "\<exists>r out. wvprintk [99, 117, 114, 114, 101, 110, 116, 32, 108, 97, 121, 111, 117, 116, 32, 37, 115] [Str (get_layout k)] 0 = Some (r, out) \<and> 8 \<notin> set out"
  using wvprintk_pieces [of "[Lit [99, 117, 114, 114, 101, 110, 116, 32, 108, 97, 121, 111, 117, 116, 32], Txt (get_layout k)]" 0]
  by (simp add: get_layout_def QWERTY_def AZERTY_def UNKNOW_def)

lemma sound_layout:
  assumes "shell_sound s" "8 \<notin> set x"
  shows "\<exists>s'. layout_cmd x s = Some s' \<and> shell_sound s'"
proof -
  have a: "8 \<notin> set (argument_of x)" using assms(2) argument_subset by blast
  have k: "shell_sound (s\<lparr>sh_kbd := k\<rparr>)" for k using assms(1) by (simp add: shell_sound_def shell_ok_def)
  obtain e k' where e: "set_layout (argument_of x) (sh_kbd s) = (e, k')" by fastforce
  show ?thesis
    using prints(1,2) [OF a] sound_say [OF k [of k']] layout_prints [of "sh_kbd s"] sound_say [OF assms(1)] e
    by (auto simp: layout_cmd_def Let_def)
qed

lemma sound_switchtty:
  assumes "shell_sound s"
  shows "\<exists>s'. switchtty_cmd s = Some s' \<and> shell_sound s'"
proof -
  have "cmd_mem s a = 0" if "a \<ge> 128" for a using assms that by (simp add: cmd_mem_def shell_sound_def shell_ok_def SIZE_MAX_CMD_def)
  then obtain v where v: "atoi 10 (cmd_mem s) = Some v" using atoi_ends [of 128 "cmd_mem s" 10] by auto
  have "ttys_ok (switch_tty (unat v) (sh_tty s))" if "\<not> sint v < 0" "\<not> int MAX_TTY \<le> sint v"
  proof -
    have "uint v = take_bit 32 (sint v)" using uint_sint [of v] by simp
    then have "unat v < MAX_TTY" using that by (simp add: MAX_TTY_def take_bit_int_eq_self unat_eq_nat_uint nat_less_iff)
    then show ?thesis using switch_tty_ok(1) [of "sh_tty s" "unat v"] assms by (simp add: shell_sound_def)
  qed
  then show ?thesis using v assms by (auto simp: switchtty_cmd_def shell_sound_def shell_ok_def)
qed

lemma sound_exec:
  assumes "shell_sound s"
  shows "\<exists>f s'. exec_cmd s = Some (f, s') \<and> shell_sound s'"
proof (cases "find (\<lambda>(match, f). take (length match) (cmd_string s) = match) correstab")
  case None
  then show ?thesis
    using sound_say_literal [OF assms, of "[117, 110, 107, 110, 111, 119, 32, 99, 111, 109, 109, 97, 110, 100, 10]"] by (auto simp: exec_cmd_def)
next
  case (Some mf)
  then show ?thesis
    using sound_switchtty [OF assms] sound_layout [OF assms cmd_string_no_8 [OF assms]] assms
    by (cases mf; cases "snd mf") (auto simp: exec_cmd_def run_command_def)
qed

lemma sound_turn:
  assumes "shell_sound s"
  shows "\<exists>f s'. shell_turn s = Some (f, s') \<and> shell_sound s'"
proof -
  obtain c t where g: "getc (sh_tty s) = (c, t)" by fastforce
  have "ttys_ok t"
    using g assms ttys_ok_term [of "sh_tty s" "current_tty (sh_tty s)"]
    by (auto simp: getc_def shell_sound_def ttys_ok_def term_ok_def split: prod.splits)
  then have s: "shell_sound (s\<lparr>sh_tty := t\<rparr>)" using assms by (simp add: shell_sound_def shell_ok_def)
  show ?thesis
  proof (cases "c = 10")
    case True
    obtain f s1 where s1: "exec_cmd (s\<lparr>sh_tty := t\<rparr>) = Some (f, s1)" "shell_sound s1" using sound_exec [OF s] by blast
    obtain s2 where s2: "clear_cmd s1 = Some s2" "shell_sound s2" using sound_clear [OF s1(2)] by blast
    show ?thesis using sound_say_literal [OF s2(2), of "[10, 36, 62, 32]"] s1 s2 g True by (auto simp: shell_turn_def shell_char_def)
  next
    case False
    then show ?thesis using sound_pushback [OF s, of c] s g by (auto simp: shell_turn_def shell_char_def)
  qed
qed

lemma sound_loop: "shell_sound s \<Longrightarrow> \<exists>cs s'. shell_loop n s = Some (cs, s') \<and> shell_sound s'"
proof (induction n arbitrary: s)
  case (Suc n)
  obtain f s1 where s1: "shell_turn s = Some (f, s1)" "shell_sound s1" using sound_turn [OF Suc.prems] by blast
  show ?case using Suc.IH [OF s1(2)] s1(1) by auto
qed simp

text \<open>
  C23. Progress and preservation of the shell. From a well-formed state, whatever bytes the readers of the terminals find
  and however many turns the shell runs, every turn has a value and leaves a well-formed state: no write goes past the
  128 bytes of the line, every scan of it stops at a zero inside it, and no cursor leaves its screen.
\<close>

theorem shell_never_stuck:
  assumes "shell_sound s"
  shows "\<exists>cs s'. launchshell n s = Some (cs, s') \<and> shell_sound s'"
proof -
  obtain s1 where s1: "sh_say [36, 62, 32] [] s = Some s1" "shell_sound s1" using sound_say_literal [OF assms, of "[36, 62, 32]"] by auto
  then show ?thesis using sound_loop [OF s1(2), of n] by (auto simp: launchshell_def)
qed

lemma shell_never_stuck_witness: "\<exists>cs s'. launchshell 1000 demo_shell = Some (cs, s') \<and> shell_sound s'"
proof -
  have "shell_sound demo_shell" by (simp add: shell_sound_def demo_shell_def shell_ok_def SIZE_MAX_CMD_def demo_tty_ok)
  from shell_never_stuck [OF this] show ?thesis .
qed

end
