(* ===== verification/Linked_List.thy ===== *)
theory Linked_List
  imports Kernel_Prelude
begin

text \<open>
  The circular doubly linked lists of \<^verbatim>\<open>inc/list.h\<close>, on a store of links: the heap areas and
  all process and signal lists are built from them. The operations are the C assignments
  in order; the theorem of this theory shows that they are the list operations \<open>#\<close>, \<open>@\<close> and
  removal, which justifies the sequences the other theories use for these lists.
\<close>

record links =
  lnext :: "nat \<Rightarrow> nat"
  lprev :: "nat \<Rightarrow> nat"

definition set_next :: "nat \<Rightarrow> nat \<Rightarrow> links \<Rightarrow> links" where
  "set_next p v s = s\<lparr>lnext := (lnext s)(p := v)\<rparr>"

definition set_prev :: "nat \<Rightarrow> nat \<Rightarrow> links \<Rightarrow> links" where
  "set_prev p v s = s\<lparr>lprev := (lprev s)(p := v)\<rparr>"

definition INIT_LIST_HEAD :: "nat \<Rightarrow> links \<Rightarrow> links" where
  "INIT_LIST_HEAD list s = set_prev list list (set_next list list s)"

definition list_add :: "nat \<Rightarrow> nat \<Rightarrow> links \<Rightarrow> links" where
  "list_add neww head s =
     (let s1 = set_next neww (lnext s head) s;
          s2 = set_prev neww head s1;
          s3 = set_prev (lnext s2 head) neww s2
      in set_next head neww s3)"

definition list_add_end :: "nat \<Rightarrow> nat \<Rightarrow> links \<Rightarrow> links" where
  "list_add_end neww head s =
     (let s1 = set_prev neww (lprev s head) s;
          s2 = set_next neww head s1;
          s3 = set_next (lprev s2 head) neww s2
      in set_prev head neww s3)"

definition list_del :: "nat \<Rightarrow> links \<Rightarrow> links" where
  "list_del p s =
     (let s1 = set_prev (lnext s p) (lprev s p) s;
          s2 = set_next (lprev s1 p) (lnext s1 p) s1
      in set_prev p 0 (set_next p 0 s2))"

definition list_empty :: "nat \<Rightarrow> links \<Rightarrow> bool" where
  "list_empty head s \<longleftrightarrow> lnext s head = head"

text \<open>The nodes that \<^verbatim>\<open>list_for_each\<close> visits, in order.\<close>

partial_function (option) visit :: "nat \<Rightarrow> nat \<Rightarrow> links \<Rightarrow> nat list option" where
  "visit p head s =
     (if p = head then Some []
      else do { ps \<leftarrow> visit (lnext s p) head s; Some (p # ps) })"

definition list_for_each :: "nat \<Rightarrow> links \<Rightarrow> nat list option" where
  "list_for_each head s = visit (lnext s head) head s"

subsection \<open>The sequence a list represents\<close>

primrec path :: "(nat \<Rightarrow> nat) \<Rightarrow> nat \<Rightarrow> nat list \<Rightarrow> nat \<Rightarrow> bool" where
  "path f a [] b \<longleftrightarrow> a = b"
| "path f a (x # xs) b \<longleftrightarrow> a = x \<and> path f (f x) xs b"

definition represents :: "links \<Rightarrow> nat \<Rightarrow> nat list \<Rightarrow> bool" where
  "represents s h xs \<longleftrightarrow> distinct (h # xs) \<and>
     path (lnext s) (lnext s h) xs h \<and> path (lprev s) (lprev s h) (rev xs) h"

lemma path_append: "path f a (xs @ ys) b \<longleftrightarrow> (\<exists>c. path f a xs c \<and> path f c ys b)"
  by (induction xs arbitrary: a) auto

lemma path_cong: "(\<And>x. x \<in> set xs \<Longrightarrow> g x = f x) \<Longrightarrow> path g a xs b = path f a xs b"
  by (induction xs arbitrary: a) auto

lemma path_upd [simp]: "x \<notin> set xs \<Longrightarrow> path (f(x := c)) a xs b = path f a xs b"
  by (rule path_cong) auto

lemma path_start: "path f a xs b \<Longrightarrow> a = hd (xs @ [b])"
  by (cases xs) auto

lemma path_redirect:
  assumes "path f a (xs @ [x]) b" "x \<notin> set xs"
  shows "path (f(x := c)) a (xs @ [x]) c"
  using assms by (auto simp: path_append)

definition flip :: "links \<Rightarrow> links" where
  "flip s = \<lparr>lnext = lprev s, lprev = lnext s\<rparr>"

lemma represents_flip: "represents (flip s) h (rev xs) = represents s h xs"
  by (auto simp: represents_def flip_def)

lemma list_add_end_flip: "list_add_end n h s = flip (list_add n h (flip s))"
  by (simp add: list_add_end_def list_add_def flip_def Let_def set_next_def set_prev_def)

lemma list_add_represents:
  assumes r: "represents s h xs" and n: "n \<notin> set (h # xs)"
  shows "represents (list_add n h s) h (n # xs)"
proof -
  have d: "distinct (h # xs)" and nx: "path (lnext s) (lnext s h) xs h"
    and pv: "path (lprev s) (lprev s h) (rev xs) h" using r by (auto simp: represents_def)
  have st: "lnext (list_add n h s) = (lnext s)(n := lnext s h, h := n)"
    "lprev (list_add n h s) = (lprev s)(n := h, lnext s h := n)"
    using n by (auto simp: list_add_def Let_def set_next_def set_prev_def)
  have "path ((lnext s)(n := lnext s h, h := n)) n (n # xs) h"
    using nx n d by simp
  moreover have "path (lprev (list_add n h s)) (lprev (list_add n h s) h) (rev xs @ [n]) h"
  proof (cases xs)
    case Nil
    then show ?thesis using n nx by (simp add: st)
  next
    case (Cons x ys)
    let ?p = "(lprev s)(n := h)"
    have hd: "lnext s h = x" using nx Cons by simp
    have "path ?p (lprev s h) (rev ys @ [x]) h"
      using pv Cons n by simp
    then have "path (?p(x := n)) (lprev s h) (rev ys @ [x]) n"
      using d Cons by (intro path_redirect) auto
    moreover have "(?p(x := n)) n = h" "(?p(x := n)) h = lprev s h" using n d Cons by auto
    ultimately show ?thesis using Cons by (simp add: st hd path_append)
  qed
  ultimately show ?thesis using d n by (auto simp: represents_def st)
qed

lemma list_add_end_represents:
  assumes "represents s h xs" "n \<notin> set (h # xs)"
  shows "represents (list_add_end n h s) h (xs @ [n])"
  using list_add_represents [of "flip s" h "rev xs" n] assms
    represents_flip [of "list_add n h (flip s)" h "n # rev xs"]
  by (simp add: represents_flip list_add_end_flip)

lemma unlink_path:
  assumes p: "path f (f h) (ys @ p # zs) h" and d: "distinct (h # ys @ p # zs)"
    and a: "a = last (h # ys)" and g: "g = f(a := f p, p := 0)"
  shows "path g (g h) (ys @ zs) h"
proof -
  have z: "path f (f p) zs h" and y: "path f (f h) ys p" using p by (auto simp: path_append)
  have gz: "path g (f p) zs h"
  proof -
    have "g x = f x" if "x \<in> set zs" for x using that d a g by (cases ys rule: rev_cases) auto
    then show ?thesis using z path_cong by metis
  qed
  show ?thesis
  proof (cases ys rule: rev_cases)
    case Nil
    then show ?thesis using gz a g d by simp
  next
    case (snoc us u)
    have "path (f(u := f p)) (f h) (us @ [u]) (f p)"
      using y snoc d by (intro path_redirect) auto
    moreover have "path g (f h) (us @ [u]) (f p) = path (f(u := f p)) (f h) (us @ [u]) (f p)"
      using d snoc a g by (intro path_cong) auto
    moreover have "g h = f h" using a g snoc d by auto
    ultimately show ?thesis using gz snoc by (auto simp: path_append)
  qed
qed

lemma list_del_represents:
  assumes r: "represents s h xs" and p: "p \<in> set xs"
  shows "represents (list_del p s) h (remove1 p xs)"
proof -
  obtain ys zs where xs: "xs = ys @ p # zs" "p \<notin> set ys" using p by (meson split_list_first)
  have d: "distinct (h # ys @ p # zs)" and nx: "path (lnext s) (lnext s h) (ys @ p # zs) h"
    and pv: "path (lprev s) (lprev s h) (rev zs @ p # rev ys) h" using r xs by (auto simp: represents_def)
  have n: "lnext s p = last (h # rev zs)" and q: "lprev s p = last (h # ys)"
    using nx pv by (auto simp: path_append hd_append hd_rev last_rev dest!: path_start)
  have st: "lnext (list_del p s) = (lnext s)(last (h # ys) := lnext s p, p := 0)"
    "lprev (list_del p s) = (lprev s)(last (h # rev zs) := lprev s p, p := 0)"
    using n q d by (auto simp: list_del_def Let_def set_next_def set_prev_def)
  have "path (lnext (list_del p s)) (lnext (list_del p s) h) (ys @ zs) h"
    by (rule unlink_path [OF nx d refl st(1)])
  moreover have "path (lprev (list_del p s)) (lprev (list_del p s) h) (rev zs @ rev ys) h"
    by (rule unlink_path [OF pv _ refl st(2)]) (use d in auto)
  ultimately show ?thesis using d xs by (auto simp: represents_def remove1_append)
qed

lemma visit_path:
  assumes "path (lnext s) a xs h" "h \<notin> set xs"
  shows "visit a h s = Some xs"
  using assms by (induction xs arbitrary: a) (auto simp: visit.simps)

lemma represents_frame:
  assumes "represents s h xs" "\<And>x. x \<in> set (h # xs) \<Longrightarrow> lnext t x = lnext s x \<and> lprev t x = lprev s x"
  shows "represents t h xs"
  using assms path_cong [of xs "lnext t" "lnext s"] path_cong [of "rev xs" "lprev t" "lprev s"]
  by (auto simp: represents_def)

subsection \<open>The interface of the lists\<close>

locale intrusive_list =
  fixes rep :: "'s \<Rightarrow> nat \<Rightarrow> nat list \<Rightarrow> bool"
    and add_end :: "nat \<Rightarrow> nat \<Rightarrow> 's \<Rightarrow> 's"
    and del :: "nat \<Rightarrow> 's \<Rightarrow> 's"
  assumes add_end_rep: "rep s h xs \<Longrightarrow> n \<notin> set (h # xs) \<Longrightarrow> rep (add_end n h s) h (xs @ [n])"
    and del_rep: "rep s h xs \<Longrightarrow> p \<in> set xs \<Longrightarrow> rep (del p s) h (remove1 p xs)"
    and add_end_other: "rep s h xs \<Longrightarrow> rep s g ys \<Longrightarrow> set (h # xs) \<inter> set (g # ys) = {} \<Longrightarrow>
      n \<notin> set (g # ys) \<Longrightarrow> rep (add_end n h s) g ys"
    and del_other: "rep s h xs \<Longrightarrow> rep s g ys \<Longrightarrow> set (h # xs) \<inter> set (g # ys) = {} \<Longrightarrow>
      p \<in> set xs \<Longrightarrow> rep (del p s) g ys"
    and rep_distinct: "rep s h xs \<Longrightarrow> distinct (h # xs)"
begin

text \<open>Moving a node from one list to the end of another.\<close>

lemma move:
  assumes "rep s h xs" "rep s g ys" "set (h # xs) \<inter> set (g # ys) = {}" "p \<in> set xs"
  shows "rep (add_end p g (del p s)) h (remove1 p xs) \<and> rep (add_end p g (del p s)) g (ys @ [p])"
proof -
  have dh: "rep (del p s) h (remove1 p xs)" and dg: "rep (del p s) g ys"
    using del_rep del_other assms by auto
  have sub: "set (remove1 p xs) \<subseteq> set xs" by (rule set_remove1_subset)
  have p: "p \<notin> set (g # ys)" "p \<notin> set (h # remove1 p xs)"
    using assms(3,4) rep_distinct [OF assms(1)] by auto
  show ?thesis
    using add_end_rep [OF dg p(1)] add_end_other [OF dg dh _ p(2)] assms(3) sub by auto
qed

end

lemma list_add_end_touches: "x \<notin> {n, h, lprev s h} \<Longrightarrow>
    lnext (list_add_end n h s) x = lnext s x \<and> lprev (list_add_end n h s) x = lprev s x"
  by (auto simp: list_add_end_def Let_def set_next_def set_prev_def)

lemma list_del_touches: "x \<notin> {p, lnext s p, lprev s p} \<Longrightarrow>
    lnext (list_del p s) x = lnext s x \<and> lprev (list_del p s) x = lprev s x"
  by (auto simp: list_del_def Let_def set_next_def set_prev_def)

lemma path_step_mem: "path f a xs b \<Longrightarrow> x \<in> set xs \<Longrightarrow> f x \<in> insert b (set xs)"
proof (induction xs arbitrary: a)
  case (Cons y ys)
  then show ?case using path_start [of f "f y" ys b] by (cases ys) auto
qed simp

lemma path_start_mem: "path f a xs b \<Longrightarrow> a \<in> insert b (set xs)"
  by (cases xs) auto

interpretation linked: intrusive_list represents list_add_end list_del
proof unfold_locales
  fix s h xs n g ys
  assume r: "represents s h xs" "represents s g ys" and dj: "set (h # xs) \<inter> set (g # ys) = {}"
  have "lprev s h \<in> set (h # xs)"
    using r(1) path_start_mem [of "lprev s" "lprev s h" "rev xs" h] by (auto simp: represents_def)
  then show "represents (list_add_end n h s) g ys" if "n \<notin> set (g # ys)"
    using that dj by (intro represents_frame [OF r(2)] list_add_end_touches) auto
  show "represents (list_del p s) g ys" if p: "p \<in> set xs" for p
  proof -
    have "lnext s p \<in> set (h # xs)" "lprev s p \<in> set (h # xs)"
      using r(1) p path_step_mem [of "lnext s" "lnext s h" xs h p] path_step_mem [of "lprev s" "lprev s h" "rev xs" h p]
      by (auto simp: represents_def)
    then show ?thesis using p dj by (intro represents_frame [OF r(2)] list_del_touches) auto
  qed
qed (use list_add_end_represents list_del_represents in \<open>auto simp: represents_def\<close>)

lemma visit_represents:
  assumes "represents s h xs"
  shows "(list_empty h s \<longleftrightarrow> xs = []) \<and> list_for_each h s = Some xs"
  using assms visit_path [of s "lnext s h" xs h]
  by (cases xs) (auto simp: represents_def list_empty_def list_for_each_def)

text \<open>C26. The pointer operations of \<^verbatim>\<open>list.h\<close> are the operations on the sequence of nodes:
  \<^verbatim>\<open>list_add\<close> puts a node in front, \<^verbatim>\<open>list_add_end\<close> at the end, \<^verbatim>\<open>list_del\<close> takes it out wherever it
  is, \<^verbatim>\<open>list_empty\<close> tests for the empty sequence, and \<^verbatim>\<open>list_for_each\<close> ends after visiting exactly
  the nodes, in order.\<close>

theorem list_operations_refine_sequences:
  assumes "represents s h xs"
  shows "(n \<notin> set (h # xs) \<longrightarrow> represents (list_add n h s) h (n # xs) \<and>
      represents (list_add_end n h s) h (xs @ [n])) \<and>
    (p \<in> set xs \<longrightarrow> represents (list_del p s) h (remove1 p xs)) \<and>
    (list_empty h s \<longleftrightarrow> xs = []) \<and> list_for_each h s = Some xs"
  using list_add_represents [OF assms] list_add_end_represents [OF assms] list_del_represents [OF assms]
    visit_represents [OF assms] by blast

lemma init_represents: "represents (INIT_LIST_HEAD h s) h []"
  by (simp add: represents_def INIT_LIST_HEAD_def set_next_def set_prev_def)

theorem list_operations_refine_sequences_witness:
  "list_for_each 1 (list_del 2 (list_add_end 3 1 (list_add 2 1 (INIT_LIST_HEAD 1 \<lparr>lnext = (\<lambda>_. 0), lprev = (\<lambda>_. 0)\<rparr>)))) =
     Some [3]"
proof -
  let ?a = "list_add 2 1 (INIT_LIST_HEAD 1 \<lparr>lnext = (\<lambda>_. 0), lprev = (\<lambda>_. 0)\<rparr>)"
  have 1: "represents ?a 1 [2]" using list_operations_refine_sequences [OF init_represents, of 2 1] by simp
  have 2: "represents (list_add_end 3 1 ?a) 1 [2, 3]" using list_operations_refine_sequences [OF 1, of 3] by simp
  have 3: "represents (list_del 2 (list_add_end 3 1 ?a)) 1 [3]" using list_operations_refine_sequences [OF 2, of _ 2] by simp
  show ?thesis using list_operations_refine_sequences [OF 3] by simp
qed

end
