(* ===== verification/Lib_Sstr.thy ===== *)
theory Lib_Sstr
  imports Lib_Str_Correct "HOL-Library.Multiset"
begin

text \<open>
  Null-terminated arrays of strings (\<^verbatim>\<open>lib/sstr\<close>). An array of pointers is a function from
  indices; the bytes the pointers lead to are in the byte memory. The comparison that
  \<^verbatim>\<open>sstrsort\<close> is given is a parameter.
\<close>

type_synonym ptrs = "nat \<Rightarrow> nat"

partial_function (option) sstrlen_loop :: "ptrs \<Rightarrow> nat \<Rightarrow> nat option" where
  "sstrlen_loop s len = (if s len \<noteq> 0 then sstrlen_loop s (len + 1) else Some len)"

definition sstrlen :: "ptrs \<Rightarrow> nat option" where
  "sstrlen s = sstrlen_loop s 0"

text \<open>The inner loop of \<^verbatim>\<open>sstrcpy\<close> copies the characters of one string, without the zero.\<close>

partial_function (option) sstrcpy_loop :: "ptrs \<Rightarrow> ptrs \<Rightarrow> nat \<Rightarrow> mem \<Rightarrow> mem option" where
  "sstrcpy_loop dst src y m =
     (if src y \<noteq> 0
      then do { (x, m') \<leftarrow> strcpy_loop (dst y) (src y) 0 0 m; sstrcpy_loop dst src (y + 1) m' }
      else Some m)"

definition sstrcpy :: "ptrs \<Rightarrow> ptrs \<Rightarrow> mem \<Rightarrow> mem option" where
  "sstrcpy dst src m = sstrcpy_loop dst src 0 m"

partial_function (option) sstrsort_loop :: "(nat \<Rightarrow> nat \<Rightarrow> int) \<Rightarrow> nat \<Rightarrow> ptrs \<Rightarrow> ptrs option" where
  "sstrsort_loop cmp i t =
     (if t i \<noteq> 0 \<and> t (i + 1) \<noteq> 0
      then if cmp (t i) (t (i + 1)) > 0
           then sstrsort_loop cmp 0 (t(i := t (i + 1), i + 1 := t i))
           else sstrsort_loop cmp (i + 1) t
      else Some t)"

definition sstrsort :: "(nat \<Rightarrow> nat \<Rightarrow> int) \<Rightarrow> ptrs \<Rightarrow> ptrs option" where
  "sstrsort cmp t = sstrsort_loop cmp 0 t"

partial_function (option) sstrstr_loop :: "ptrs \<Rightarrow> nat \<Rightarrow> nat \<Rightarrow> nat \<Rightarrow> mem \<Rightarrow> nat option option" where
  "sstrstr_loop sstr i pat n m =
     (if sstr i \<noteq> 0
      then if strncmp (sstr i) pat n m = 0 then Some (Some (sstr i))
           else sstrstr_loop sstr (i + 1) pat n m
      else Some None)"

text \<open>A null array is \<open>None\<close>.\<close>

definition sstrstr :: "ptrs option \<Rightarrow> nat \<Rightarrow> mem \<Rightarrow> nat option option" where
  "sstrstr sstr pat m =
     (case sstr of None \<Rightarrow> Some None
      | Some s \<Rightarrow> do { n \<leftarrow> strlen pat m; sstrstr_loop s 0 pat n m })"

subsection \<open>Sorting\<close>

definition array :: "ptrs \<Rightarrow> nat \<Rightarrow> nat list" where
  "array t n = map t [0..<n]"

definition terminated :: "ptrs \<Rightarrow> nat \<Rightarrow> bool" where
  "terminated t n \<longleftrightarrow> (\<forall>i < n. t i \<noteq> 0) \<and> t n = 0"

definition ordering :: "(nat \<Rightarrow> nat \<Rightarrow> int) \<Rightarrow> bool" where
  "ordering cmp \<longleftrightarrow> (\<forall>x y. cmp x y \<le> 0 \<or> cmp y x \<le> 0) \<and>
     (\<forall>x y z. cmp x y \<le> 0 \<and> cmp y z \<le> 0 \<longrightarrow> cmp x z \<le> 0)"

abbreviation below :: "(nat \<Rightarrow> nat \<Rightarrow> int) \<Rightarrow> nat set \<Rightarrow> (nat \<times> nat) set" where
  "below cmp A \<equiv> {(x, y). x \<in> A \<and> y \<in> A \<and> cmp y x > 0}"

lemma wf_below:
  assumes "ordering cmp" "finite A"
  shows "wf (below cmp A)"
proof (rule finite_acyclic_wf)
  show "finite (below cmp A)" by (rule finite_subset [of _ "A \<times> A"]) (use assms(2) in auto)
  have tr: "cmp z x > 0" if "cmp y x > 0" "cmp z y > 0" for x y z
  proof (rule ccontr)
    assume "\<not> cmp z x > 0"
    then have zx: "cmp z x \<le> 0" by simp
    have xy: "cmp x y \<le> 0" using assms(1) that(1) by (metis ordering_def not_le)
    have "cmp z y \<le> 0" using assms(1) zx xy unfolding ordering_def by blast
    with that(2) show False by simp
  qed
  have "trans (below cmp A)" by (rule transI) (use tr in auto)
  moreover have "irrefl (below cmp A)"
  proof (rule irreflI)
    fix x
    have "cmp x x \<le> 0" using assms(1) unfolding ordering_def by blast
    then show "(x, x) \<notin> below cmp A" by simp
  qed
  ultimately show "acyclic (below cmp A)" by (simp add: acyclic_irrefl trancl_id)
qed

lemma upt_split_pair:
  assumes "i + 1 < n"
  shows "[0..<n] = [0..<i] @ i # (i + 1) # [i + 2..<n]"
proof -
  have "[0..<n] = [0..<i] @ [i..<n]" using upt_add_eq_append [of 0 i "n - i"] assms by simp
  also have "[i..<n] = i # (i + 1) # [i + 2..<n]" using assms by (simp add: upt_conv_Cons)
  finally show ?thesis .
qed

lemma swap_less:
  assumes "i + 1 < n" "cmp (t i) (t (i + 1)) > 0" "set (array t n) \<subseteq> A"
  shows "(array (t(i := t (i + 1), i + 1 := t i)) n, array t n) \<in> lex (below cmp A)"
proof -
  let ?u = "t(i := t (i + 1), i + 1 := t i)"
  note sp = upt_split_pair [OF assms(1)]
  have "array t n = map t [0..<i] @ t i # t (i + 1) # map t [i + 2..<n]"
    "array ?u n = map t [0..<i] @ t (i + 1) # t i # map t [i + 2..<n]"
    unfolding array_def sp by simp_all
  moreover have "(t (i + 1), t i) \<in> below cmp A" using assms by (auto simp: array_def)
  ultimately show ?thesis by (auto simp: lex_conv)
qed

lemma swap_perm:
  assumes "i + 1 < n"
  shows "mset (array (t(i := t (i + 1), i + 1 := t i)) n) = mset (array t n)"
  unfolding array_def upt_split_pair [OF assms] by simp

lemma array_length [simp]: "length (array t n) = n"
  by (simp add: array_def)

lemma array_nth [simp]: "i < n \<Longrightarrow> array t n ! i = t i"
  by (simp add: array_def)

lemma terminated_swap:
  assumes "terminated t n" "i + 1 < n"
  shows "terminated (t(i := t (i + 1), i + 1 := t i)) n"
  using assms by (auto simp: terminated_def)

lemma sorted_wrt_neighbours:
  assumes "ordering cmp" "\<forall>i. i + 1 < length xs \<longrightarrow> cmp (xs ! i) (xs ! (i + 1)) \<le> 0"
  shows "sorted_wrt (\<lambda>x y. cmp x y \<le> 0) xs"
proof -
  have tr: "transp (\<lambda>x y. cmp x y \<le> 0)"
    by (rule transpI) (use assms(1) in \<open>unfold ordering_def, blast\<close>)
  show ?thesis
    unfolding sorted_wrt_iff_nth_Suc_transp [OF tr] using assms(2) by simp
qed

lemma terminated_at:
  assumes "terminated t n" "i \<le> n"
  shows "t i \<noteq> 0 \<longleftrightarrow> i < n"
  using assms by (cases "i = n") (auto simp: terminated_def)

text \<open>
  The loop restarts at index 0 after every exchange, so the index alone is no measure: an
  exchange makes the array smaller in the lexicographic order, a step forward shortens what
  is left.
\<close>

lemma sstrsort_loop_sorts:
  assumes "ordering cmp" "terminated t n" "i < n \<or> n = 0 \<and> i = 0"
    and "\<forall>j < i. cmp (t j) (t (j + 1)) \<le> 0" "set (array t n) = A"
  shows "\<exists>u. sstrsort_loop cmp i t = Some u \<and> terminated u n \<and> mset (array u n) = mset (array t n)
           \<and> sorted_wrt (\<lambda>x y. cmp x y \<le> 0) (array u n)"
proof -
  have "finite A" using assms(5) by auto
  then have wf: "wf (lex (below cmp A) <*lex*> measure (\<lambda>i. n - i))"
    using assms(1) by (intro wf_lex_prod wf_lex wf_below wf_measure)
  show ?thesis using assms(2-)
  proof (induction "(array t n, i)" arbitrary: t i rule: wf_induct_rule [OF wf])
  case (1 t i)
  note IH = 1(1) and t = 1(2) and i = 1(3) and pre = 1(4) and A = 1(5)
  show ?case
  proof (cases "i + 1 < n")
    case False
    then have "i + 1 = n \<or> i = n" using i by auto
    then have "t i = 0 \<or> t (i + 1) = 0" using t by (auto simp: terminated_def)
    then have "sstrsort_loop cmp i t = Some t" by (subst sstrsort_loop.simps) auto
    moreover have "sorted_wrt (\<lambda>x y. cmp x y \<le> 0) (array t n)"
      by (rule sorted_wrt_neighbours [OF assms(1)]) (use pre i False in auto)
    ultimately show ?thesis using t by simp
  next
    case True
    then have nz: "t i \<noteq> 0" "t (i + 1) \<noteq> 0" using t by (auto simp: terminated_def)
    show ?thesis
    proof (cases "cmp (t i) (t (i + 1)) > 0")
      case sw: True
      let ?u = "t(i := t (i + 1), i + 1 := t i)"
      have p: "mset (array ?u n) = mset (array t n)" by (rule swap_perm [OF True])
      have "\<exists>u. sstrsort_loop cmp 0 ?u = Some u \<and> terminated u n \<and> mset (array u n) = mset (array ?u n)
           \<and> sorted_wrt (\<lambda>x y. cmp x y \<le> 0) (array u n)"
      proof (rule IH)
        show "((array ?u n, 0), array t n, i) \<in> lex (below cmp A) <*lex*> measure (\<lambda>i. n - i)"
          using swap_less [of i n cmp t A] True sw A by simp
        show "terminated ?u n" by (rule terminated_swap [OF t True])
        show "set (array ?u n) = A" using A mset_eq_setD [OF p] by simp
      qed (use True in auto)
      moreover have "sstrsort_loop cmp i t = sstrsort_loop cmp 0 ?u"
        by (subst sstrsort_loop.simps) (use nz sw in simp)
      ultimately show ?thesis using p by simp
    next
      case le: False
      have "\<exists>u. sstrsort_loop cmp (i + 1) t = Some u \<and> terminated u n \<and> mset (array u n) = mset (array t n)
           \<and> sorted_wrt (\<lambda>x y. cmp x y \<le> 0) (array u n)"
        by (rule IH) (use True t pre le A in \<open>auto simp: less_Suc_eq\<close>)
      moreover have "sstrsort_loop cmp i t = sstrsort_loop cmp (i + 1) t"
        by (subst sstrsort_loop.simps) (use nz le in simp)
      ultimately show ?thesis by simp
    qed
  qed
  qed
qed

text \<open>
  C28. \<^verbatim>\<open>sstrsort\<close> always returns on a null-terminated array and a total preorder, although
  it restarts from the front after each exchange; the array holds the same pointers, sorted,
  and is still null-terminated.
\<close>

theorem sstrsort_sorts:
  assumes "ordering cmp" "terminated t n"
  shows "\<exists>u. sstrsort cmp t = Some u \<and> terminated u n \<and> mset (array u n) = mset (array t n)
           \<and> sorted_wrt (\<lambda>x y. cmp x y \<le> 0) (array u n)"
  unfolding sstrsort_def by (rule sstrsort_loop_sorts [OF assms]) auto

theorem sstrsort_sorts_witness:
  "\<exists>u. sstrsort (\<lambda>x y. int x - int y) ((\<lambda>_. 0)(0 := 30, 1 := 10, 2 := 20)) = Some u \<and> terminated u 3
     \<and> mset (array u 3) = {#10, 20, 30#}
     \<and> sorted_wrt (\<lambda>x y. int x - int y \<le> 0) (array u 3)"
proof -
  let ?t = "(\<lambda>_. 0)(0 := 30, 1 := 10, 2 := 20) :: ptrs"
  have "ordering (\<lambda>x y. int x - int y)" by (auto simp: ordering_def)
  moreover have "terminated ?t 3" by (auto simp: terminated_def less_Suc_eq numeral_3_eq_3)
  moreover have "mset (array ?t 3) = {#10, 20, 30#}" by (simp add: array_def numeral_3_eq_3)
  ultimately show ?thesis using sstrsort_sorts [of "\<lambda>x y. int x - int y" ?t 3] by simp
qed

end
