(* ===== verification/Signal_Delivery.thy ===== *)
theory Signal_Delivery
  imports Process_Table
begin

text \<open>
  The delivery of the first signal of a queue by \<^verbatim>\<open>send_signal\<close> (\<^verbatim>\<open>kernel/process/signal.c\<close>): a process
  with no handler of its own gets the entry of the kernel's table that has the number of the signal
  as its index. The comments of the table name another signal there for eight of them.
\<close>

text \<open>A signal as \<^verbatim>\<open>add_signal\<close> queues it for a system call, first in the queue of a live process.\<close>

definition first_soft :: "process \<Rightarrow> sig_queue \<Rightarrow> sig_queue list \<Rightarrow> bool" where
  "first_soft p q rest \<longleftrightarrow> sigs p = q # rest \<and> state p \<noteq> ZOMBIE \<and> sq_state q = ucast (SIG_SOFT OR SIG_NOT_EXECUTING) \<and>
     list_all (\<lambda>r. sq_node r \<noteq> sq_node q) rest"

lemma soft_state: "(ucast (SIG_SOFT OR SIG_NOT_EXECUTING) :: u8) = 9"
  by (simp add: sig_flag_defs)

lemma others_kept: "list_all (\<lambda>r. sq_node r \<noteq> n) rest \<Longrightarrow> filter (\<lambda>r. sq_node r \<noteq> n) rest = rest"
  by (induction rest) auto

text \<open>Delivery by a handler that stays in the process and leaves the queue as it is.\<close>

lemma send_signal_step:
  assumes "procs s a = Some p" "first_soft p q rest" "call_handler q a p s = Some (Returned r, s\<lparr>procs := (procs s)(a \<mapsto> p1)\<rparr>)"
    "sigs p1 = sigs p" "state p1 \<noteq> ZOMBIE"
  shows "send_signal a s = Some (Returned 0, s\<lparr>procs := (procs s)(a \<mapsto>
    p1\<lparr>sig_avalaible := sig_avalaible p1 AND NOT (mask_of (sig_handled q)), sigs := rest\<rparr>)\<rparr>)"
proof -
  have "sq_state q \<noteq> SIG_EXECUTING" using assms(2) by (simp add: first_soft_def soft_state SIG_EXECUTING_def)
  then show ?thesis
    using assms others_kept [of "sq_node q" rest]
    by (auto simp: send_signal_def first_soft_def update_proc_def list_del_sig_def)
qed

lemma default_handler:
  assumes "first_soft p q rest" "unat (sig_handled q) < 34" "sig_handler p (unat (sig_handled q)) = Null"
  shows "call_handler q a p s = run_handler (kernel_handler ! unat (sig_handled q)) a (int (unat (sig_handled q))) s"
  using assms by (simp add: call_handler_def)

lemma stop_cont_delivery:
  assumes "procs s a = Some p" "first_soft p q rest" "sig_handler p (unat (sig_handled q)) = Null"
    "sig_handled q = SIGSTOP \<or> sig_handled q = SIGCONT"
  shows "\<exists>p'. send_signal a s = Some (Returned 0, s\<lparr>procs := (procs s)(a \<mapsto> p')\<rparr>) \<and> sigs p' = rest \<and>
    state p' = (if sig_handled q = SIGSTOP then RUN else state p) \<and>
    end_value p' = (if sig_handled q = SIGSTOP then WAIT_CONTINUED else end_value p)"
proof -
  have z: "state p \<noteq> ZOMBIE" using assms(2) by (simp add: first_soft_def)
  consider "sig_handled q = SIGSTOP" | "sig_handled q = SIGCONT" using assms(4) by blast
  then show ?thesis
  proof cases
    case 1
    then have h: "call_handler q a p s = run_handler Sig_cont a 19 s"
      using default_handler [OF assms(2) _ assms(3)] by (simp add: SIGSTOP_def kernel_handler_def)
    let ?p1 = "p\<lparr>end_value := WAIT_CONTINUED, state := RUN\<rparr>"
    have "call_handler q a p s = Some (Returned 0, s\<lparr>procs := (procs s)(a \<mapsto> ?p1)\<rparr>)"
      using h assms(1) by (simp add: run_handler_def update_proc_def)
    from send_signal_step [OF assms(1,2) this] show ?thesis using 1
      by (intro exI [of _ "?p1\<lparr>sig_avalaible := sig_avalaible ?p1 AND NOT (mask_of (sig_handled q)), sigs := rest\<rparr>"]) simp
  next
    case 2
    then have h: "call_handler q a p s = run_handler Sig_ign a 18 s"
      using default_handler [OF assms(2) _ assms(3)] by (simp add: SIGCONT_def kernel_handler_def)
    have "s\<lparr>procs := (procs s)(a \<mapsto> p)\<rparr> = s" using assms(1) by (cases s) (simp add: map_upd_triv)
    then have "call_handler q a p s = Some (Returned 0, s\<lparr>procs := (procs s)(a \<mapsto> p)\<rparr>)"
      using h by (simp add: run_handler_def)
    from send_signal_step [OF assms(1,2) this] z show ?thesis using 2
      by (intro exI [of _ "p\<lparr>sig_avalaible := sig_avalaible p AND NOT (mask_of (sig_handled q)), sigs := rest\<rparr>"])
         (simp add: SIGSTOP_def SIGCONT_def)
  qed
qed

text \<open>C37. A stop signal delivered to a process without a handler of its own makes it run, with the exit status of a
  process that was continued, and a continue signal changes nothing: the table of default handlers is
  indexed with the signal number, but its entries are one place off from 18 on.\<close>

theorem stop_resumes_and_continue_is_ignored:
  assumes "procs s a = Some p" "first_soft p q rest" "sig_handler p (unat (sig_handled q)) = Null"
    "sig_handled q = SIGSTOP \<or> sig_handled q = SIGCONT"
  shows "\<exists>p'. send_signal a s = Some (Returned 0, s\<lparr>procs := (procs s)(a \<mapsto> p')\<rparr>) \<and> sigs p' = rest \<and>
    state p' = (if sig_handled q = SIGSTOP then RUN else state p) \<and>
    end_value p' = (if sig_handled q = SIGSTOP then WAIT_CONTINUED else end_value p)"
  by (rule stop_cont_delivery [OF assms])

theorem stop_resumes_and_continue_is_ignored_witness:
  "\<exists>s' p'. send_signal 0x1000 (demo_procs [0x1000 \<mapsto> empty_process\<lparr>state := STOPPED,
      sigs := [\<lparr>sq_node = 0x5000, sig_handled = SIGSTOP, sq_state = 9\<rparr>]\<rparr>] [0x1000]) = Some (Returned 0, s') \<and>
    procs s' 0x1000 = Some p' \<and> state p' = RUN"
proof -
  let ?q = "\<lparr>sq_node = 0x5000, sig_handled = SIGSTOP, sq_state = 9\<rparr>"
  let ?p = "empty_process\<lparr>state := STOPPED, sigs := [?q]\<rparr>"
  let ?s = "demo_procs [0x1000 \<mapsto> ?p] [0x1000]"
  have "procs ?s 0x1000 = Some ?p" by simp
  moreover have "first_soft ?p ?q []" by (simp add: first_soft_def soft_state)
  moreover have "sig_handler ?p (unat (sig_handled ?q)) = Null" by (simp add: empty_process_def)
  ultimately have "\<exists>p'. send_signal 0x1000 ?s = Some (Returned 0, ?s\<lparr>procs := (procs ?s)(0x1000 \<mapsto> p')\<rparr>) \<and> sigs p' = [] \<and>
    state p' = (if sig_handled ?q = SIGSTOP then RUN else state ?p) \<and>
    end_value p' = (if sig_handled ?q = SIGSTOP then WAIT_CONTINUED else end_value ?p)"
    by (rule stop_resumes_and_continue_is_ignored) simp
  then obtain p' where "send_signal 0x1000 ?s = Some (Returned 0, ?s\<lparr>procs := (procs ?s)(0x1000 \<mapsto> p')\<rparr>)" "state p' = RUN"
    by auto
  then show ?thesis by (intro exI [of _ "?s\<lparr>procs := (procs ?s)(0x1000 \<mapsto> p')\<rparr>"] exI [of _ p']) simp
qed

end
