(* ===== verification/Spec2Isabelle.thy ===== *)
theory Spec2Isabelle
  imports Boot Process_Life Debug_Correct Shell_Sound Paging_Correct Kmalloc_Correct Linked_List Lib_Sstr Descriptors Printk_Correct Signal_Delivery Acpi_Correct
begin

text \<open>
  A verification of the KFS kernel, a small 32-bit x86 kernel written in C. All paths are relative to the root of the
  repository.

  \<^bold>\<open>The program.\<close> The boot loader enters \<^verbatim>\<open>kernel/kernel.c\<close>, which reads the memory map of the boot
  loader (\<^verbatim>\<open>kernel/mem/memory_init.c\<close>), sets up the descriptor tables and the interrupt controller
  (\<^verbatim>\<open>boot/x86\<close>), the page tables (\<^verbatim>\<open>kernel/x86/init_page.c\<close>, \<^verbatim>\<open>page.c\<close>), the stack and the heap
  (\<^verbatim>\<open>kernel/mem\<close>), the terminals (\<^verbatim>\<open>kernel/tty\<close>, \<^verbatim>\<open>kernel/vga\<close>), and starts the first processes and the shell
  (\<^verbatim>\<open>kernel/process\<close>, \<^verbatim>\<open>kernel/minishell\<close>). From then on the processor runs processes; system calls, exceptions,
  the clock and the keyboard enter the kernel, and the scheduler in \<^verbatim>\<open>boot/x86/IDT/idt.c\<close> gives the processor to the next one.

  \<^bold>\<open>The state.\<close> Each layer extends the state record of the one below: \<open>kcon\<close> (the console log),
  \<open>phys_st\<close> (the bitmap of free pages), \<open>vm_st\<close> (page directory, physical memory, places of the linker), \<open>heap_st\<close> (areas,
  block headers, virtual bitmap), \<open>proc_st\<close> (process structures by address, list, current process, last identifier),
  \<open>sched_st\<close> (the stack of the context switch), \<open>fork_st\<close> (places of two local arrays). Terminals, keyboard and shell have
  records of their own, \<open>tty_st\<close>, \<open>kbd_st\<close>, \<open>shell_st\<close>. Machine integers are words of their width; addresses that the code
  computes with are 32-bit words, the keys of the stores are naturals. Pointers to structures are the addresses of their blocks, 0 is
  the null pointer.

  \<^bold>\<open>Errors and loops.\<close> A negative error number is an \<open>int\<close>, a kernel panic is \<open>Inl\<close> of its message or the outcome
  \<open>Panic\<close>. \<open>None\<close> is C behaviour without a meaning (a read through a null or freed pointer, an access behind an array, a page
  that is not mapped) or a loop that does not end: loops that need not end are \<^verbatim>\<open>partial_function (option)\<close>, all others are
  total with a measure. Fuel is used nowhere but where the code itself has a bound: the number of frames of a backtrace, the
  300 polls of the control registers in \<^verbatim>\<open>acpiEnable\<close>, the number of turns a theorem lets the shell take.

  \<^bold>\<open>The theories and the code.\<close>
    \<^item> \<open>Kernel_Prelude\<close>: integer types, error numbers of \<^verbatim>\<open>inc/errno.h\<close>, bit and page arithmetic, the collections of facts.
    \<^item> Contracts as locales, each interpreted on the code's model: \<open>Block_Allocator\<close> (by the physical pages),
      \<open>Address_Space\<close> (by \<^verbatim>\<open>page_map\<close> and \<^verbatim>\<open>page_unmap\<close>), \<open>Heap_Allocator\<close> (twice, by \<^verbatim>\<open>kmalloc\<close>/\<^verbatim>\<open>kfree\<close> and \<^verbatim>\<open>vmalloc\<close>/\<^verbatim>\<open>vfree\<close>),
      \<open>Byte_Queue\<close> (by the stream buffer), and the list contract of \<open>Linked_List\<close>.
    \<^item> Physical memory: \<open>Bitmap_Scan\<close>, \<open>Phys_Mem\<close> (\<^verbatim>\<open>kernel/mem/phys_mem_management.c\<close>), \<open>Memory_Init\<close>
      (\<^verbatim>\<open>kernel/mem/memory_init.c\<close>).
    \<^item> Page tables: \<open>Paging\<close>, \<open>Vm_Frame\<close>, \<open>Paging_Correct\<close> (\<^verbatim>\<open>kernel/x86/page.c\<close>, \<^verbatim>\<open>init_page.c\<close>, \<^verbatim>\<open>page_debug.c\<close>).
    \<^item> Heap: \<open>Kmalloc\<close>, \<open>Heap_Chain\<close>, \<open>Heap_Frame\<close>, \<open>Kmalloc_Correct\<close> (\<^verbatim>\<open>kernel/mem/heap_setup.c\<close>).
    \<^item> Boot: \<open>Boot\<close> (the memory steps of \<^verbatim>\<open>kmain\<close> in \<^verbatim>\<open>kernel/kernel.c\<close>, \<^verbatim>\<open>kernel/mem/stack_setup.c\<close>).
    \<^item> Library: \<open>Lib_Mem\<close>, \<open>Lib_Str\<close>, \<open>Lib_Str_Correct\<close>, \<open>Lib_Sstr\<close> (\<^verbatim>\<open>lib/char\<close>, \<^verbatim>\<open>lib/mem\<close>, \<^verbatim>\<open>lib/str\<close>, \<^verbatim>\<open>lib/sstr\<close>),
      \<open>Linked_List\<close> (\<^verbatim>\<open>inc/list.h\<close>), \<open>Printk\<close>, \<open>Printk_Correct\<close> (\<^verbatim>\<open>lib/printk\<close>, \<^verbatim>\<open>kernel/io/printk.c\<close>).
    \<^item> Terminals: \<open>Stream_Buffer\<close> (\<^verbatim>\<open>kernel/io/stream.c\<close>), \<open>Terminal\<close>, \<open>Terminal_Correct\<close>, \<open>Input_Line\<close>
      (\<^verbatim>\<open>kernel/tty\<close>, \<^verbatim>\<open>kernel/vga\<close>), \<open>Keyboard\<close> (\<^verbatim>\<open>kernel/io/key_layout.c\<close>).
    \<^item> Descriptor tables and interrupt controller: \<open>Descriptors\<close> (\<^verbatim>\<open>boot/x86/GDT\<close>, \<^verbatim>\<open>boot/x86/IDT\<close>, \<^verbatim>\<open>boot/x86/pic.c\<close>).
    \<^item> Processes: \<open>Process\<close>, \<open>Signal\<close>, \<open>Process_Table\<close>, \<open>Signal_Delivery\<close> (\<^verbatim>\<open>process.c\<close>, \<^verbatim>\<open>process_new.c\<close>, \<^verbatim>\<open>free_process.c\<close>,
      \<^verbatim>\<open>process_die.c\<close>, \<^verbatim>\<open>process_wait.c\<close>, \<^verbatim>\<open>signal.c\<close> in \<^verbatim>\<open>kernel/process\<close>), \<open>Process_Memory\<close>, \<open>Mmap_Correct\<close> (memory of a process),
      \<open>Scheduler\<close>, \<open>Scheduler_Correct\<close> (\<^verbatim>\<open>idt.c\<close>, \<^verbatim>\<open>kernel/x86/interrupt_process.c\<close>), \<open>Process_Create\<close>, \<open>Fork_Correct\<close>
      (\<^verbatim>\<open>copy_process.c\<close>, \<^verbatim>\<open>fork.c\<close>, \<^verbatim>\<open>init_process.c\<close>, \<^verbatim>\<open>kernel/x86/hlt.c\<close>), \<open>Process_Inv\<close>, \<open>Process_Life\<close> (the invariant of the
      whole layer and the steps of the kernel).
    \<^item> Interrupts: \<open>Interrupts\<close>, \<open>Interrupts_Correct\<close> (the handlers in \<^verbatim>\<open>idt.c\<close>).
    \<^item> Shell: \<open>Shell\<close>, \<open>Shell_Correct\<close>, \<open>Shell_Sound\<close> (\<^verbatim>\<open>kernel/minishell\<close>), \<open>Acpi\<close>, \<open>Acpi_Correct\<close> (\<^verbatim>\<open>cmd/power_off.c\<close>),
      \<open>Debug\<close>, \<open>Debug_Correct\<close> (\<^verbatim>\<open>kernel/x86/backtrace.c\<close>, the displays of \<^verbatim>\<open>page_debug.c\<close>, \<^verbatim>\<open>cmd/mem_debug.c\<close>).

  \<^bold>\<open>What is shown.\<close> For the allocators: first fit, and over every sequence of calls no two live blocks overlap. For
  the page tables: what each operation changes of the translation of addresses, and that a range whose mapping fails is unmapped again. For the
  boot: the memory steps end without a panic and establish these invariants. For processes: identifiers, signals, exit status,
  copies, registers, memory maps, turns of the scheduler, and the invariant over all steps: the list of processes is sound and no
  heap block is freed twice or used twice; the theorem at the end of this file joins the boot and the processes. For the
  terminals: the video memory shows the current terminal, but for a backspace in the first cell; the stream loses no byte, and a line typed on the keyboard is the
  command the shell runs, which never gets stuck. For the library: formatted output, numerals and strings against lists of
  bytes. Several properties state defects exactly: the boot stack that is replaced, the frame \<^verbatim>\<open>munmap\<close> frees, the freed father
  an orphan reads, \<^verbatim>\<open>SIGSTOP\<close> that resumes and \<^verbatim>\<open>SIGCONT\<close> that does nothing, the scheduler that hangs without a current process, the write in front
  of the screen.

  \<^bold>\<open>Conditions.\<close> The theorems on the heap are for requests below 2^30 bytes: close to 4 GiB the sizes wrap around in
  \<^verbatim>\<open>heap_setup.c\<close>, and a block of length 0 is handed out. Those on the boot ask of the memory map that it is read without a panic and
  leaves a free run of 26 pages, and of the linker what \<open>boot_layout\<close> says: an image within the 4 MB above \<^verbatim>\<open>_kernel_pos\<close>, not
  necessarily from a page boundary on. A terminal written has no value when a backspace meets the cursor in the first cell. The sleep
  types are read from a table whose first \<open>_S5_\<close> names a package in one of the forms of \<^verbatim>\<open>acpi.h\<close>.

  \<^bold>\<open>Not modelled.\<close> Assembly (boot code, interrupt stubs, the change of stacks and registers): its effect is
  the argument or the outcome of the C functions around it. The translation buffer of the processor, and that code and data of the kernel share
  the memory it maps. Timing and interrupts inside kernel code: a step of the kernel is not interrupted, as interrupts are off there. The
  values ports answer are arguments. The picture \<^verbatim>\<open>kmain\<close> prints; \<^verbatim>\<open>atof\<close>, which computes with doubles and is
  not called; \<^verbatim>\<open>reboot\<close>, which resets the machine; the programs for tests in \<^verbatim>\<open>kernel/x86/user2.c\<close>, \<^verbatim>\<open>process_tester.c\<close> and
  \<^verbatim>\<open>mem_tester.c\<close>, whose calls are commented out; the function in a comment of \<^verbatim>\<open>copy_process.c\<close>; the parts of
  \<^verbatim>\<open>inc/multiboot2.h\<close> and \<^verbatim>\<open>inc/acpi.h\<close> that no code uses.
\<close>

subsection \<open>From the boot to the processes\<close>

lemma boot_sound:
  assumes "heap_frame s (heap_setup s2)" "procs s = Map.empty" "process_list s = []" "current s = 0" "last_pid s = PROC_MIN_PID"
  shows "sound (heap_setup s2)"
proof -
  note f = heap_frame_proc [OF assms(1)]
  show ?thesis
    by (rule sound_start) (use f assms(2-5) heap_setup_empty(1) in \<open>simp_all add: PROC_MIN_PID_def\<close>)
qed

text \<open>
  C2. From the boot on. When the memory map is read without a panic and leaves a free run of 26 pages (\<open>room 26\<close>), the image
  lies within its 4 MB (\<open>boot_layout\<close>), only the slots of the boot code are in use in the directory and no process exists yet,
  the memory steps of \<^verbatim>\<open>kmain\<close> end without a panic, and in
  every state that system calls, interrupts, context switches and process starts reach from there, the heap is in order,
  the scheduler's list holds living processes, each once, with distinct identifiers, the current process is one of them that is
  no zombie, and no heap block serves two purposes.
\<close>

theorem kernel_stays_sound:
  assumes "memory_init rd (KERNEL_GET_REAL (kernel_start (lay s))) (KERNEL_GET_REAL (kernel_end (lay s))) magic addr s = Some (Inr s1)"
    "room 26 s1" "boot_layout (lay s)" "boot_directory s" "bottom AND PAGE_FLAG = 0"
    "procs s = Map.empty" "process_list s = []" "current s = 0" "last_pid s = PROC_MIN_PID"
  shows "\<exists>s0. kmain_memory rd (nth_page bottom 4) bottom magic addr s = Some (Inr s0) \<and> vm_wf s0 \<and>
    (\<forall>s'. kernel_step\<^sup>*\<^sup>* s0 s' \<longrightarrow> heap_inv s' \<and> list_wf s' \<and> inj_on (pid_of s') (set (process_list s')) \<and>
       (current s' \<noteq> 0 \<longrightarrow> runs s' (current s')) \<and> separate (procs s') {} \<and> owned (procs s') \<subseteq> blocks s')"
proof -
  obtain s2 where s2: "kmain_memory rd (nth_page bottom 4) bottom magic addr s = Some (Inr (heap_setup s2))" "booted (free_pages s1) s2"
    "heap_frame s (heap_setup s2)"
    using kmain_memory_ready [OF assms(1-5)] by blast
  have v: "vm_wf (heap_setup s2)" using s2(2) heap_setup_keeps [of s2] by (simp add: booted_def)
  note b = boot_sound [OF s2(3) assms(6-9)]
  have "heap_inv s' \<and> list_wf s' \<and> inj_on (pid_of s') (set (process_list s')) \<and>
       (current s' \<noteq> 0 \<longrightarrow> runs s' (current s')) \<and> separate (procs s') {} \<and> owned (procs s') \<subseteq> blocks s'"
    if "kernel_step\<^sup>*\<^sup>* (heap_setup s2) s'" for s'
    by (rule sound_facts) (rule sound_reachable [OF that b])
  then show ?thesis using s2(1) v by blast
qed

definition demo_machine :: fork_st where
  "demo_machine = sched_st.extend ((demo_sched Map.empty [])\<lparr>mm_bitmap := (\<lambda>_. 0), page_directory := (\<lambda>_. 0)\<rparr>)
     \<lparr>swap_at = 0xC0400000, swap2_at = 0xC0401000\<rparr>"

lemma demo_machine_simps:
  "mm_bitmap demo_machine = (\<lambda>_. 0)" "lay demo_machine = demo_layout" "boot_directory demo_machine" "procs demo_machine = Map.empty"
  "process_list demo_machine = []" "current demo_machine = 0" "last_pid demo_machine = PROC_MIN_PID"
  by (simp_all add: demo_machine_def boot_directory_def demo_sched_def demo_procs_def demo_heap_def sched_st.defs proc_st.defs
      heap_st.defs PROC_MIN_PID_def)

lemma kernel_stays_sound_witness:
  "\<exists>s0. kmain_memory boot_mbi 0xC0110000 0xC010C000 0x36d76289 0 demo_machine = Some (Inr s0) \<and> vm_wf s0 \<and> list_wf s0"
proof -
  obtain s1 where s1: "memory_init boot_mbi (KERNEL_GET_REAL (kernel_start (lay demo_machine))) (KERNEL_GET_REAL (kernel_end (lay demo_machine)))
      0x36d76289 0 demo_machine = Some (Inr s1)" "room 26 s1"
    using boot_mbi_ready [OF demo_machine_simps(1,2)] by blast
  have "boot_layout (lay demo_machine)" using demo_boot_layout by (simp add: demo_machine_simps(2))
  moreover have "(0xC010C000 :: u32) AND PAGE_FLAG = 0" by (simp add: PAGE_FLAG_def)
  moreover have "nth_page 0xC010C000 4 = (0xC0110000 :: u32)" by (simp add: push_bit_eq_mult)
  ultimately show ?thesis
    using kernel_stays_sound [OF s1 _ demo_machine_simps(3) _ demo_machine_simps(4-7), of "0xC010C000"] by auto
qed

end
